(* ===== verification/Prelude.thy ===== *)
theory Prelude
  imports Main "HOL-Library.Word"
begin

unbundle bit_operations_syntax

section \<open>Prelude: machine types, kernel computations, shared lemmas\<close>

text \<open>
  What every component of the model shares.

  \<^item> The C integer types of \<^verbatim>\<open>src/types.h\<close> as words of their width. An \<open>int\<close> is also kept
    as a 32-bit word; \<open>sint\<close> reads it where the code compares it signed.
  \<^item> Kernel computations. A kernel function reads and changes a state and ends in one of four
    ways, the constructors of \<open>outcome\<close>: it returns a value, it switches to the scheduler
    (\<open>swtch\<close> in \<open>sched\<close>: the caller sleeps, yields or exits), it calls \<open>panic\<close>, or it
    does something the C language gives no meaning to (an access outside an array, a null
    dereference), which is kept apart as \<open>Fault\<close>.
  \<^item> Byte strings in little-endian order, as the x86 stores the fields of the on-disk and
    in-memory structures.
  \<^item> The first-fit scan of a table, the loop that the process table, the file table, the inode
    cache and the descriptor table of a process are searched with.
\<close>

subsection \<open>Machine integers\<close>

type_synonym u8 = "8 word"
type_synonym u16 = "16 word"
type_synonym u32 = "32 word"

named_theorems kernel_simps \<open>unfolding rules for kernel computations\<close>

subsection \<open>Kernel computations\<close>

datatype ('a, 's) outcome =
    Ret 'a 's
  | Switch 's
  | Panic string
  | Fault string

type_synonym ('s, 'a) kern = "'s \<Rightarrow> ('a, 's) outcome"

definition kret :: "'a \<Rightarrow> ('s, 'a) kern" where
  "kret x = (\<lambda>s. Ret x s)"

definition kbind :: "('s, 'a) kern \<Rightarrow> ('a \<Rightarrow> ('s, 'b) kern) \<Rightarrow> ('s, 'b) kern" where
  "kbind m f = (\<lambda>s. case m s of
       Ret x s' \<Rightarrow> f x s'
     | Switch s' \<Rightarrow> Switch s'
     | Panic msg \<Rightarrow> Panic msg
     | Fault msg \<Rightarrow> Fault msg)"

definition kseq :: "('s, 'a) kern \<Rightarrow> ('s, 'b) kern \<Rightarrow> ('s, 'b) kern" where
  "kseq m n = kbind m (\<lambda>_. n)"

definition kget :: "('s \<Rightarrow> 'a) \<Rightarrow> ('s, 'a) kern" where
  "kget f = (\<lambda>s. Ret (f s) s)"

definition kmod :: "('s \<Rightarrow> 's) \<Rightarrow> ('s, unit) kern" where
  "kmod f = (\<lambda>s. Ret () (f s))"

definition panic :: "string \<Rightarrow> ('s, 'a) kern" where
  "panic msg = (\<lambda>s. Panic msg)"

definition fault :: "string \<Rightarrow> ('s, 'a) kern" where
  "fault msg = (\<lambda>s. Fault msg)"

definition kwhen :: "bool \<Rightarrow> ('s, unit) kern \<Rightarrow> ('s, unit) kern" where
  "kwhen c m = (if c then m else kret ())"

lemma kret_apply [simp]: "kret x s = Ret x s"
  by (simp add: kret_def)

lemma kget_apply [simp]: "kget f s = Ret (f s) s"
  by (simp add: kget_def)

lemma kmod_apply [simp]: "kmod f s = Ret () (f s)"
  by (simp add: kmod_def)

lemma panic_apply [simp]: "panic msg s = Panic msg"
  by (simp add: panic_def)

lemma fault_apply [simp]: "fault msg s = Fault msg"
  by (simp add: fault_def)

lemma kwhen_simps [simp]: "kwhen True m = m" "kwhen False m = kret ()"
  by (simp_all add: kwhen_def)

text \<open>
  Running a sequence: the first part decides. These rules are what a proof about a concrete
  run rewrites with, one call at a time.
\<close>

lemma kbind_Ret [simp]: "m s = Ret x s' \<Longrightarrow> kbind m f s = f x s'"
  by (simp add: kbind_def)

lemma kbind_Switch [simp]: "m s = Switch s' \<Longrightarrow> kbind m f s = Switch s'"
  by (simp add: kbind_def)

lemma kbind_Panic [simp]: "m s = Panic msg \<Longrightarrow> kbind m f s = Panic msg"
  by (simp add: kbind_def)

lemma kbind_Fault [simp]: "m s = Fault msg \<Longrightarrow> kbind m f s = Fault msg"
  by (simp add: kbind_def)

lemma kseq_Ret [simp]: "m s = Ret x s' \<Longrightarrow> kseq m n s = n s'"
  by (simp add: kseq_def)

text \<open>The rules for sequences where the answer is a truth value.\<close>

lemma kbind_Ret_False [simp]: "m s = Ret False s' \<Longrightarrow> kbind m f s = f False s'"
  by (rule kbind_Ret)

lemma kseq_Ret_False [simp]: "m s = Ret False s' \<Longrightarrow> kseq m n s = n s'"
  by (rule kseq_Ret)

lemma kseq_Switch [simp]: "m s = Switch s' \<Longrightarrow> kseq m n s = Switch s'"
  by (simp add: kseq_def)

lemma kseq_Panic [simp]: "m s = Panic msg \<Longrightarrow> kseq m n s = Panic msg"
  by (simp add: kseq_def)

lemma kseq_Fault [simp]: "m s = Fault msg \<Longrightarrow> kseq m n s = Fault msg"
  by (simp add: kseq_def)

lemma kbind_eq_Ret:
  "kbind m f s = Ret y t \<longleftrightarrow> (\<exists>x s'. m s = Ret x s' \<and> f x s' = Ret y t)"
  by (simp add: kbind_def split: outcome.split)

lemma kseq_eq_Ret:
  "kseq m n s = Ret y t \<longleftrightarrow> (\<exists>x s'. m s = Ret x s' \<and> n s' = Ret y t)"
  by (simp add: kseq_def kbind_eq_Ret)

lemma kbind_RetE:
  assumes "kbind m f s = Ret y t"
  obtains x s' where "m s = Ret x s'" and "f x s' = Ret y t"
  using assms by (auto simp: kbind_eq_Ret)

lemma kseq_RetE:
  assumes "kseq m n s = Ret y t"
  obtains x s' where "m s = Ret x s'" and "n s' = Ret y t"
  using assms by (auto simp: kseq_eq_Ret)

lemma kwhen_eq_Ret:
  "kwhen c m s = Ret y t \<longleftrightarrow> (if c then m s = Ret y t else t = s)"
  by (simp add: kwhen_def) auto

text \<open>A \<open>for\<close> loop over a known sequence of indices.\<close>

primrec kfor :: "'i list \<Rightarrow> ('i \<Rightarrow> ('s, unit) kern) \<Rightarrow> ('s, unit) kern" where
  "kfor [] f = kret ()"
| "kfor (i # is) f = kseq (f i) (kfor is f)"

lemma kfor_append: "kfor (xs @ ys) f = kseq (kfor xs f) (kfor ys f)"
proof (induction xs)
  case Nil
  show ?case by (simp add: fun_eq_iff)
next
  case (Cons x xs)
  then show ?case
    by (simp add: fun_eq_iff kseq_def kbind_def split: outcome.split)
qed

text \<open>
  The loop rule: an invariant indexed by the part already done. With \<open>m = Ret\<close> for every
  iteration the whole loop returns, so this is a total-correctness rule.
\<close>

lemma kfor_invariant:
  assumes "P [] s"
    and "\<And>done i rest s. is = done @ i # rest \<Longrightarrow> P done s
           \<Longrightarrow> \<exists>s'. f i s = Ret () s' \<and> P (done @ [i]) s'"
  shows "\<exists>s'. kfor is f s = Ret () s' \<and> P is s'"
proof -
  have "is = done @ rest \<Longrightarrow> P done s \<Longrightarrow> \<exists>s'. kfor rest f s = Ret () s' \<and> P is s'"
    for "done" rest s
  proof (induction rest arbitrary: "done" s)
    case Nil
    then show ?case by simp
  next
    case (Cons i rest)
    then obtain s1 where s1: "f i s = Ret () s1" "P (done @ [i]) s1"
      using assms(2) by blast
    with Cons.IH [of "done @ [i]" s1] Cons.prems obtain s2
      where "kfor rest f s1 = Ret () s2" "P is s2" by auto
    with s1 show ?case by auto
  qed
  from this [of "[]" "is" s] assms(1) show ?thesis by simp
qed

text \<open>Partial-correctness version, for loops whose body may panic.\<close>

lemma kfor_Ret_invariant:
  assumes "kfor is f s = Ret () t" and "P s"
    and "\<And>i s s'. i \<in> set is \<Longrightarrow> P s \<Longrightarrow> f i s = Ret () s' \<Longrightarrow> P s'"
  shows "P t"
  using assms
proof (induction "is" arbitrary: s)
  case Nil
  then show ?case by simp
next
  case (Cons i "is")
  from Cons.prems(1) obtain s1 where "f i s = Ret () s1" "kfor is f s1 = Ret () t"
    by (auto elim!: kseq_RetE)
  with Cons show ?case by (metis list.set_intros)
qed

subsection \<open>Relations between the states of a run\<close>

text \<open>
  \<open>within R m\<close>: from every state, whatever \<open>m\<close> returns or switches to is related by \<open>R\<close> to
  where it started. With a reflexive and transitive \<open>R\<close> the combinators keep it. Two kinds
  of \<open>R\<close> are used: an invariant that is kept, and a part of the state that is not changed.
\<close>

definition within :: "('s \<Rightarrow> 's \<Rightarrow> bool) \<Rightarrow> ('s, 'a) kern \<Rightarrow> bool" where
  "within R m \<longleftrightarrow> (\<forall>s. case m s of Ret _ t \<Rightarrow> R s t | Switch t \<Rightarrow> R s t | _ \<Rightarrow> True)"

lemma withinD: "within R m \<Longrightarrow> m s = Ret x t \<Longrightarrow> R s t"
  unfolding within_def by (metis outcome.simps(17))

lemma withinD_Switch: "within R m \<Longrightarrow> m s = Switch t \<Longrightarrow> R s t"
  unfolding within_def by (metis outcome.simps(18))

lemma withinI:
  "(\<And>s x t. m s = Ret x t \<Longrightarrow> R s t) \<Longrightarrow> (\<And>s t. m s = Switch t \<Longrightarrow> R s t) \<Longrightarrow> within R m"
  by (simp add: within_def split: outcome.split)

locale kern_relation =
  fixes R :: "'s \<Rightarrow> 's \<Rightarrow> bool"
  assumes rel_refl: "R s s"
    and rel_trans: "R s t \<Longrightarrow> R t u \<Longrightarrow> R s u"
begin

lemma within_kret: "within R (kret x)"
  by (simp add: within_def rel_refl)

lemma within_kget: "within R (kget f)"
  by (simp add: within_def rel_refl)

lemma within_panic: "within R (panic msg)"
  by (simp add: within_def)

lemma within_fault: "within R (fault msg)"
  by (simp add: within_def)

lemma within_kmod: "(\<And>s. R s (f s)) \<Longrightarrow> within R (kmod f)"
  by (simp add: within_def)

lemma within_kbind:
  assumes "within R m" "\<And>x. within R (f x)"
  shows "within R (kbind m f)"
  unfolding within_def
proof
  fix s
  show "case kbind m f s of Ret _ t \<Rightarrow> R s t | Switch t \<Rightarrow> R s t | _ \<Rightarrow> True"
  proof (cases "m s")
    case (Ret x t)
    then have st: "R s t" using assms(1) by (rule withinD [rotated])
    have "R s u" if "f x t = Ret y u \<or> f x t = Switch u" for y u
      using that withinD [OF assms(2), of x t y u] withinD_Switch [OF assms(2), of x t u]
        rel_trans [OF st] by blast
    then show ?thesis using Ret by (simp split: outcome.split)
  next
    case (Switch t)
    then show ?thesis using withinD_Switch [OF assms(1)] by simp
  qed simp_all
qed

lemma within_kseq: "within R m \<Longrightarrow> within R n \<Longrightarrow> within R (kseq m n)"
  unfolding kseq_def by (rule within_kbind)

lemma within_kwhen: "(c \<Longrightarrow> within R m) \<Longrightarrow> within R (kwhen c m)"
  by (cases c) (simp_all add: within_kret)

lemma within_if: "(c \<Longrightarrow> within R m) \<Longrightarrow> (\<not> c \<Longrightarrow> within R n) \<Longrightarrow> within R (if c then m else n)"
  by simp

lemma within_option:
  "within R m \<Longrightarrow> (\<And>x. within R (f x)) \<Longrightarrow> within R (case z of None \<Rightarrow> m | Some x \<Rightarrow> f x)"
  by (cases z) simp_all

lemma within_prod: "(\<And>x y. within R (f x y)) \<Longrightarrow> within R (case z of (x, y) \<Rightarrow> f x y)"
  by (cases z) simp

lemma within_kfor: "(\<And>i. within R (f i)) \<Longrightarrow> within R (kfor is f)"
  by (induction "is") (simp_all add: within_kret within_kseq)

lemma within_state: "(\<And>s0. within R (f s0)) \<Longrightarrow> within R (\<lambda>s. f s s)"
  unfolding within_def by blast

lemmas within_rules = within_kret within_kget within_panic within_fault within_kbind within_kseq
  within_kwhen within_if within_option within_prod within_kfor

end

subsection \<open>First-fit scan of a table\<close>

text \<open>
  \<open>first_index p n\<close> is the loop \<^verbatim>\<open>for(i = 0; i < n; i++) if(p(i)) return i;\<close>: the least
  index below \<open>n\<close> with \<open>p\<close>, or none.
\<close>

definition first_index :: "(nat \<Rightarrow> bool) \<Rightarrow> nat \<Rightarrow> nat option" where
  "first_index p n = List.find p [0..<n]"

lemma first_index_Some_iff:
  "first_index p n = Some i \<longleftrightarrow> i < n \<and> p i \<and> (\<forall>j < i. \<not> p j)"
  (is "?l \<longleftrightarrow> ?r")
proof
  assume ?l
  then show ?r
    by (auto simp: first_index_def find_Some_iff)
next
  assume r: ?r
  then have "\<exists>k < length [0..<n]. p ([0..<n] ! k) \<and> i = [0..<n] ! k
      \<and> (\<forall>j < k. \<not> p ([0..<n] ! j))"
    by (intro exI [of _ i]) auto
  then show ?l
    unfolding first_index_def find_Some_iff .
qed

lemma first_index_None_iff: "first_index p n = None \<longleftrightarrow> (\<forall>i < n. \<not> p i)"
  by (auto simp: first_index_def find_None_iff)

lemma first_index_cases:
  obtains (found) i where "first_index p n = Some i" "i < n" "p i" "\<forall>j < i. \<not> p j"
  | (full) "first_index p n = None" "\<forall>i < n. \<not> p i"
  by (cases "first_index p n") (auto simp: first_index_Some_iff first_index_None_iff)

lemma first_index_cong:
  "(\<And>i. i < n \<Longrightarrow> p i = q i) \<Longrightarrow> first_index p n = first_index q n"
  unfolding first_index_def by (rule find_cong) auto

subsection \<open>Invariants of step relations\<close>

text \<open>
  The contract of an invariant: it holds at the start and every step keeps it. What a client
  gets is that it holds in every state a run can reach.
\<close>

locale invariant_system =
  fixes initial :: "'s \<Rightarrow> bool"
    and steps :: "'s \<Rightarrow> 's \<Rightarrow> bool"
    and invar :: "'s \<Rightarrow> bool"
  assumes invar_initial: "initial s \<Longrightarrow> invar s"
    and invar_steps: "invar s \<Longrightarrow> steps s t \<Longrightarrow> invar t"
begin

lemma invar_run: "steps\<^sup>*\<^sup>* s t \<Longrightarrow> invar s \<Longrightarrow> invar t"
  by (induction rule: rtranclp_induct) (auto intro: invar_steps)

lemma invar_reachable: "initial s \<Longrightarrow> steps\<^sup>*\<^sup>* s t \<Longrightarrow> invar t"
  by (blast intro: invar_run invar_initial)

end

end
