(* ===== verification/Bytes.thy ===== *)
theory Bytes
  imports Prelude
begin

unbundle bit_operations_syntax

section \<open>Bytes: little-endian fields in disk blocks and in memory\<close>

text \<open>
  A disk block and a page are arrays of bytes. The code reads and writes shorts, ints and
  pointers in them by casting (\<^verbatim>\<open>(uint*)bp->data\<close>, \<^verbatim>\<open>(struct dinode*)bp->data\<close>,
  \<^verbatim>\<open>*(uint*)sp\<close>); on the x86 such an access is little-endian. A block is a function of the
  byte offset, memory is a function of the address.
\<close>

type_synonym block = "nat \<Rightarrow> u8"
type_synonym memory = "u32 \<Rightarrow> u8"

definition le16 :: "u8 \<Rightarrow> u8 \<Rightarrow> u16" where
  "le16 a b = ucast a OR push_bit 8 (ucast b)"

definition le32 :: "u8 \<Rightarrow> u8 \<Rightarrow> u8 \<Rightarrow> u8 \<Rightarrow> u32" where
  "le32 a b c d = ucast a OR push_bit 8 (ucast b) OR push_bit 16 (ucast c) OR push_bit 24 (ucast d)"

definition byte_of16 :: "u16 \<Rightarrow> nat \<Rightarrow> u8" where
  "byte_of16 w k = ucast (drop_bit (8 * k) w)"

definition byte_of32 :: "u32 \<Rightarrow> nat \<Rightarrow> u8" where
  "byte_of32 w k = ucast (drop_bit (8 * k) w)"

lemma le16_bytes [simp]: "le16 (byte_of16 w 0) (byte_of16 w 1) = w"
proof (rule bit_word_eqI)
  fix n assume "n < LENGTH(16)"
  then show "bit (le16 (byte_of16 w 0) (byte_of16 w 1)) n \<longleftrightarrow> bit w n"
    by (cases "n < 8") (auto simp: le16_def byte_of16_def bit_simps)
qed

lemma le16_bytes_Suc [simp]: "le16 (byte_of16 w 0) (byte_of16 w (Suc 0)) = w"
  using le16_bytes [of w] by simp

lemma le32_bytes [simp]:
  "le32 (byte_of32 w 0) (byte_of32 w 1) (byte_of32 w 2) (byte_of32 w 3) = w"
proof (rule bit_word_eqI)
  fix n assume "n < LENGTH(32)"
  then consider "n < 8" | "8 \<le> n" "n < 16" | "16 \<le> n" "n < 24" | "24 \<le> n" "n < 32"
    by force
  then show "bit (le32 (byte_of32 w 0) (byte_of32 w 1) (byte_of32 w 2) (byte_of32 w 3)) n \<longleftrightarrow> bit w n"
    by cases (auto simp: le32_def byte_of32_def bit_simps)
qed

lemma le32_bytes_Suc [simp]:
  "le32 (byte_of32 w 0) (byte_of32 w (Suc 0)) (byte_of32 w 2) (byte_of32 w 3) = w"
  using le32_bytes [of w] by simp

lemma byte_of_le32 [simp]:
  "byte_of32 (le32 a b c d) 0 = a" "byte_of32 (le32 a b c d) (Suc 0) = b"
  "byte_of32 (le32 a b c d) 2 = c" "byte_of32 (le32 a b c d) 3 = d"
  by (rule bit_word_eqI; auto simp: le32_def byte_of32_def bit_simps dest: bit_imp_le_length)+

lemma le32_zero [simp]: "le32 0 0 0 0 = 0" and le16_zero [simp]: "le16 0 0 = 0"
  by (simp_all add: le32_def le16_def)

lemma byte_of_zero [simp]: "byte_of32 0 k = 0" "byte_of16 0 k = 0"
  by (simp_all add: byte_of32_def byte_of16_def)

subsection \<open>Fields of a block\<close>

definition rd16 :: "block \<Rightarrow> nat \<Rightarrow> u16" where
  "rd16 blk k = le16 (blk k) (blk (k + 1))"

definition rd32 :: "block \<Rightarrow> nat \<Rightarrow> u32" where
  "rd32 blk k = le32 (blk k) (blk (k + 1)) (blk (k + 2)) (blk (k + 3))"

definition wr16 :: "block \<Rightarrow> nat \<Rightarrow> u16 \<Rightarrow> block" where
  "wr16 blk k w = blk(k := byte_of16 w 0, k + 1 := byte_of16 w 1)"

definition wr32 :: "block \<Rightarrow> nat \<Rightarrow> u32 \<Rightarrow> block" where
  "wr32 blk k w = blk(k := byte_of32 w 0, k + 1 := byte_of32 w 1, k + 2 := byte_of32 w 2,
     k + 3 := byte_of32 w 3)"

definition zero_block :: block where
  "zero_block = (\<lambda>_. 0)"

lemma rd32_wr32 [simp]: "rd32 (wr32 blk k w) k = w"
  by (simp add: rd32_def wr32_def)

lemma rd16_wr16 [simp]: "rd16 (wr16 blk k w) k = w"
  by (simp add: rd16_def wr16_def)

lemma rd32_wr32_other: "j + 4 \<le> k \<or> k + 4 \<le> j \<Longrightarrow> rd32 (wr32 blk k w) j = rd32 blk j"
  by (auto simp: rd32_def wr32_def)

lemma rd16_wr16_other: "j + 2 \<le> k \<or> k + 2 \<le> j \<Longrightarrow> rd16 (wr16 blk k w) j = rd16 blk j"
  by (auto simp: rd16_def wr16_def)

lemma rd16_wr32_other: "j + 2 \<le> k \<or> k + 4 \<le> j \<Longrightarrow> rd16 (wr32 blk k w) j = rd16 blk j"
  by (auto simp: rd16_def wr32_def)

lemma rd32_wr16_other: "j + 4 \<le> k \<or> k + 2 \<le> j \<Longrightarrow> rd32 (wr16 blk k w) j = rd32 blk j"
  by (auto simp: rd32_def wr16_def)

lemma wr32_outside: "j < k \<or> k + 4 \<le> j \<Longrightarrow> wr32 blk k w j = blk j"
  by (auto simp: wr32_def)

lemma wr16_outside: "j < k \<or> k + 2 \<le> j \<Longrightarrow> wr16 blk k w j = blk j"
  by (auto simp: wr16_def)

lemma rd_zero_block [simp]: "rd32 zero_block k = 0" "rd16 zero_block k = 0"
  by (simp_all add: rd32_def rd16_def zero_block_def)

text \<open>The \<open>i\<close>-th pointer of a block that is an array of \<open>uint\<close>.\<close>

definition blk_ptr :: "block \<Rightarrow> nat \<Rightarrow> u32" where
  "blk_ptr blk i = rd32 blk (4 * i)"

definition set_blk_ptr :: "block \<Rightarrow> nat \<Rightarrow> u32 \<Rightarrow> block" where
  "set_blk_ptr blk i w = wr32 blk (4 * i) w"

lemma blk_ptr_set [simp]: "blk_ptr (set_blk_ptr blk i w) j = (if i = j then w else blk_ptr blk j)"
  by (cases i j rule: linorder_cases) (simp_all add: blk_ptr_def set_blk_ptr_def rd32_wr32_other)

lemma blk_ptr_zero [simp]: "blk_ptr zero_block i = 0"
  by (simp add: blk_ptr_def)

subsection \<open>Fields of memory\<close>

definition ld32 :: "memory \<Rightarrow> u32 \<Rightarrow> u32" where
  "ld32 m a = le32 (m a) (m (a + 1)) (m (a + 2)) (m (a + 3))"

definition st32 :: "memory \<Rightarrow> u32 \<Rightarrow> u32 \<Rightarrow> memory" where
  "st32 m a w = m(a := byte_of32 w 0, a + 1 := byte_of32 w 1, a + 2 := byte_of32 w 2,
     a + 3 := byte_of32 w 3)"

lemma ld32_st32 [simp]: "ld32 (st32 m a w) a = w"
  by (simp add: ld32_def st32_def)

lemma ld32_cong:
  assumes "\<And>i. i < 4 \<Longrightarrow> m (a + of_nat i) = m' (a + of_nat i)"
  shows "ld32 m a = ld32 m' a"
  using assms [of 0] assms [of 1] assms [of 2] assms [of 3] by (simp add: ld32_def)

text \<open>Two different word-aligned words do not overlap.\<close>

lemma aligned4_disjoint:
  fixes a b :: u32
  assumes "a mod 4 = 0" "b mod 4 = 0" "a \<noteq> b" "i < 4" "j < 4"
  shows "a + of_nat i \<noteq> b + of_nat j"
proof
  assume eq: "a + of_nat i = b + of_nat j"
  have mod_nat: "unat (w + of_nat k) mod 4 = (unat w + k) mod 4" for w :: u32 and k
    by (simp add: unat_word_ariths unat_of_nat mod_mod_cancel mod_simps)
  have "unat (a mod 4) = 0" "unat (b mod 4) = 0"
    by (simp_all only: assms(1,2) unsigned_0)
  then have ab: "unat a mod 4 = 0" "unat b mod 4 = 0"
    by (simp_all add: unat_mod)
  have "(unat a + i) mod 4 = (unat b + j) mod 4"
    using mod_nat [of a i] mod_nat [of b j] eq by simp
  moreover have "(unat a + i) mod 4 = i" "(unat b + j) mod 4 = j"
    using ab assms(4,5) by (simp_all add: mod_add_left_eq [of "unat _", symmetric])
  ultimately have "i = j" by simp
  with eq assms(3) show False by simp
qed

lemma st32_outside:
  assumes "\<And>i. i < 4 \<Longrightarrow> b \<noteq> a + of_nat i"
  shows "st32 m a w b = m b"
  using assms [of 0] assms [of 1] assms [of 2] assms [of 3] by (simp add: st32_def)

lemma ld32_st32_other:
  assumes "a mod 4 = 0" "b mod 4 = 0" "a \<noteq> b"
  shows "ld32 (st32 m a w) b = ld32 m b"
proof (rule ld32_cong)
  fix i :: nat assume "i < 4"
  with assms show "st32 m a w (b + of_nat i) = m (b + of_nat i)"
    by (intro st32_outside) (metis aligned4_disjoint)
qed

end
