(* ===== verification/Kstring.thy ===== *)
theory Kstring
  imports Bytes
begin

unbundle bit_operations_syntax

section \<open>string.c: memory and string routines of the kernel\<close>

text \<open>
  The routines of \<^verbatim>\<open>src/string.c\<close> over byte-addressed memory, with \<open>rep stosb\<close> and
  \<open>rep stosl\<close> of \<^verbatim>\<open>src/x86.h\<close>. Addresses are 32-bit and pointer arithmetic wraps. The
  regions the routines touch are described by offsets: byte \<open>x\<close> lies in the \<open>n\<close> bytes at
  \<open>a\<close> when \<open>unat (x - a) < n\<close>, which is meaningful also for a region that wraps.
\<close>

definition in_region :: "u32 \<Rightarrow> nat \<Rightarrow> u32 \<Rightarrow> bool" where
  "in_region a n x \<longleftrightarrow> unat (x - a) < n"

lemma in_region_0 [simp]: "\<not> in_region a 0 x"
  by (simp add: in_region_def)

lemma unat_pred: "(w :: u32) \<noteq> 0 \<Longrightarrow> unat (w - 1) = unat w - 1"
  by (metis unat_minus_one)

lemma in_region_Suc: "in_region a (Suc n) x \<longleftrightarrow> x = a \<or> (x \<noteq> a \<and> in_region (a + 1) n x)"
proof (cases "x = a")
  case True
  then show ?thesis by (simp add: in_region_def)
next
  case False
  then have "x - a \<noteq> 0" by simp
  then have "unat (x - (a + 1)) = unat (x - a) - 1" "0 < unat (x - a)"
    using unat_pred [of "x - a"] by (simp_all add: diff_diff_eq unat_gt_0)
  with False show ?thesis by (simp add: in_region_def) linarith
qed

text \<open>Reading an offset back: a region that does not wrap meets each offset once.\<close>

lemma region_offset: "i < 2 ^ 32 \<Longrightarrow> unat (a + of_nat i - a :: u32) = i"
  by (simp add: unat_of_nat)

lemma in_region_offset: "i < 2 ^ 32 \<Longrightarrow> in_region a n (a + of_nat i) \<longleftrightarrow> i < n"
  by (simp add: in_region_def unat_of_nat)

lemma in_regionE:
  assumes "in_region a n x"
  obtains i where "i < n" "x = a + of_nat i" "i < 2 ^ 32"
proof
  show "unat (x - a) < n" using assms by (simp add: in_region_def)
  show "x = a + of_nat (unat (x - a))" by simp
  show "unat (x - a) < 2 ^ 32" using unsigned_less [of "x - a"] by simp
qed

subsection \<open>memset\<close>

primrec stosb :: "nat \<Rightarrow> memory \<Rightarrow> u32 \<Rightarrow> u8 \<Rightarrow> memory" where
  "stosb 0 m a c = m"
| "stosb (Suc n) m a c = stosb n (m(a := c)) (a + 1) c"

primrec stosl :: "nat \<Rightarrow> memory \<Rightarrow> u32 \<Rightarrow> u32 \<Rightarrow> memory" where
  "stosl 0 m a w = m"
| "stosl (Suc n) m a w = stosl n (st32 m a w) (a + 4) w"

definition rep4 :: "u32 \<Rightarrow> u32" where
  "rep4 c = push_bit 24 c OR push_bit 16 c OR push_bit 8 c OR c"

definition memset :: "memory \<Rightarrow> u32 \<Rightarrow> u32 \<Rightarrow> u32 \<Rightarrow> memory" where
  "memset m dst c n =
     (if dst mod 4 = 0 \<and> n mod 4 = 0 then
        stosl (unat n div 4) m dst (rep4 (c AND 0xFF))
      else stosb (unat n) m dst (ucast c))"

lemma stosb_eq: "stosb n m a c x = (if in_region a n x then c else m x)"
  by (induction n arbitrary: m a) (auto simp: in_region_Suc)

lemma stosl_stosb:
  assumes "byte_of32 w 0 = c" "byte_of32 w 1 = c" "byte_of32 w 2 = c" "byte_of32 w 3 = c"
  shows "stosl n m a w = stosb (4 * n) m a c"
proof (induction n arbitrary: m a)
  case 0
  show ?case by simp
next
  case (Suc n)
  have "stosb 4 m a c = st32 m a w"
    using assms by (simp add: st32_def numeral_eq_Suc add.assoc)
  moreover have "stosb (4 + k) m a c = stosb k (stosb 4 m a c) (a + 4) c" for k
    by (simp add: numeral_eq_Suc add.assoc)
  ultimately show ?case
    using Suc.IH by simp
qed

lemma and_0xFF: "(c :: u32) AND 0xFF = take_bit 8 c"
  by (simp add: take_bit_eq_mask mask_eq_exp_minus_1)

lemma byte_of_rep4:
  assumes "k < 4"
  shows "byte_of32 (rep4 (c AND 0xFF)) k = ucast c"
proof -
  from assms consider "k = 0" | "k = 1" | "k = 2" | "k = 3" by force
  then show ?thesis
    by cases (rule bit_word_eqI; auto simp: and_0xFF rep4_def byte_of32_def bit_simps)+
qed

lemma memset_eq: "memset m dst c n x = (if in_region dst (unat n) x then ucast c else m x)"
proof (cases "dst mod 4 = 0 \<and> n mod 4 = 0")
  case True
  then have "unat (n mod 4) = 0" by simp
  then have "4 * (unat n div 4) = unat n"
    by (simp add: unat_mod) (metis dvd_imp_mod_0 dvd_mult_div_cancel mod_0_imp_dvd)
  with True show ?thesis
    by (simp add: memset_def stosl_stosb [where c = "ucast c"] byte_of_rep4 stosb_eq)
next
  case False
  then show ?thesis by (auto simp: memset_def stosb_eq)
qed

subsection \<open>memmove and memcmp\<close>

primrec copy_up :: "nat \<Rightarrow> memory \<Rightarrow> u32 \<Rightarrow> u32 \<Rightarrow> memory" where
  "copy_up 0 m d s = m"
| "copy_up (Suc n) m d s = copy_up n (m(d := m s)) (d + 1) (s + 1)"

primrec copy_down :: "nat \<Rightarrow> memory \<Rightarrow> u32 \<Rightarrow> u32 \<Rightarrow> memory" where
  "copy_down 0 m d s = m"
| "copy_down (Suc n) m d s = copy_down n (m(d - 1 := m (s - 1))) (d - 1) (s - 1)"

definition memmove :: "memory \<Rightarrow> u32 \<Rightarrow> u32 \<Rightarrow> u32 \<Rightarrow> memory" where
  "memmove m dst src n =
     (if src < dst \<and> dst < src + n then copy_down (unat n) m (dst + n) (src + n)
      else copy_up (unat n) m dst src)"

text \<open>Copying upwards is right when no byte is overwritten before it is read.\<close>

lemma copy_up_eq:
  assumes "\<And>i j. i < j \<Longrightarrow> j < n \<Longrightarrow> d + of_nat i \<noteq> s + of_nat j"
  shows "copy_up n m d s x = (if in_region d n x then m (s + (x - d)) else m x)"
  using assms
proof (induction n arbitrary: m d s x)
  case 0
  show ?case by simp
next
  case (Suc n)
  have step: "d + 1 + of_nat i \<noteq> s + 1 + of_nat j" if "i < j" "j < n" for i j
    using Suc.prems [of "Suc i" "Suc j"] that by (simp add: algebra_simps)
  have IH: "copy_up n m' (d + 1) (s + 1) y
      = (if in_region (d + 1) n y then m' (s + 1 + (y - (d + 1))) else m' y)" for m' y
    by (rule Suc.IH) (rule step)
  show ?case
  proof (cases "x \<noteq> d \<and> in_region (d + 1) n x")
    case True
    then obtain i where i: "i < n" "x = d + 1 + of_nat i"
      by (blast elim: in_regionE)
    then have "s + (x - d) \<noteq> d"
      using Suc.prems [of 0 "Suc i"] by (auto simp: algebra_simps)
    moreover have "s + 1 + (x - (d + 1)) = s + (x - d)" by simp
    ultimately show ?thesis
      using True unfolding copy_up.simps IH in_region_Suc by simp
  next
    case False
    then show ?thesis
      by (cases "x = d"; cases "in_region (d + 1) n d")
        (auto simp: IH in_region_Suc)
  qed
qed

text \<open>Downwards, from the ends of the two regions.\<close>

lemma copy_down_eq:
  assumes "\<And>i j. i < j \<Longrightarrow> j < n \<Longrightarrow> d - of_nat i \<noteq> s - of_nat j"
  shows "copy_down n m d s x
    = (if unat (d - 1 - x) < n then m (s - (d - x)) else m x)"
  using assms
proof (induction n arbitrary: m d s x)
  case 0
  show ?case by simp
next
  case (Suc n)
  have step: "d - 1 - of_nat i \<noteq> s - 1 - of_nat j" if "i < j" "j < n" for i j
    using Suc.prems [of "Suc i" "Suc j"] that by (simp add: algebra_simps)
  have IH: "copy_down n m' (d - 1) (s - 1) y
      = (if unat (d - 1 - 1 - y) < n then m' (s - 1 - (d - 1 - y)) else m' y)" for m' y
    by (rule Suc.IH) (rule step)
  show ?case
  proof (cases "x = d - 1")
    case True
    then show ?thesis unfolding copy_down.simps IH by simp
  next
    case False
    then have "d - 1 - x \<noteq> 0" by auto
    then have pred: "unat (d - 1 - 1 - x) = unat (d - 1 - x) - 1" "0 < unat (d - 1 - x)"
      using unat_pred [of "d - 1 - x"] by (simp_all add: algebra_simps unat_gt_0)
    show ?thesis
    proof (cases "unat (d - 1 - x) < Suc n")
      case True
      define j where "j = unat (d - 1 - x)"
      with pred True have j: "0 < j" "j < Suc n" "d - 1 - x = of_nat j" by simp_all
      then have "s - (d - x) \<noteq> d - 1"
        using Suc.prems [of 0 j] by (auto simp: algebra_simps)
      moreover have "s - 1 - (d - 1 - x) = s - (d - x)" by simp
      moreover have "unat (d - 1 - 1 - x) < n" using True pred by simp
      ultimately show ?thesis
        using True unfolding copy_down.simps IH by (simp only: if_True fun_upd_apply if_False)
    next
      case False
      with pred have "\<not> unat (d - 1 - 1 - x) < n" by linarith
      with False \<open>x \<noteq> d - 1\<close> show ?thesis
        unfolding copy_down.simps IH by (simp only: if_False fun_upd_apply)
    qed
  qed
qed

lemma region_from_end:
  fixes d n x :: u32
  shows "unat (d + n - 1 - x) < unat n \<longleftrightarrow> in_region d (unat n) x"
proof -
  have "d + n - 1 - x = n - 1 - (x - d)" by (simp add: algebra_simps)
  moreover have "unat (n - 1 - u) < unat n \<longleftrightarrow> unat u < unat n" for u :: u32
    by unat_arith
  ultimately show ?thesis by (simp only: in_region_def)
qed

lemma unat_add_of_nat:
  "unat (a :: u32) + i < 2 ^ 32 \<Longrightarrow> unat (a + of_nat i) = unat a + i"
  by (simp add: unat_word_ariths unat_of_nat)

lemma memmove_eq:
  assumes dst: "unat dst + unat n \<le> 2 ^ 32" and src: "unat src + unat n < 2 ^ 32"
  shows "memmove m dst src n x
    = (if in_region dst (unat n) x then m (src + (x - dst)) else m x)"
proof (cases "src < dst \<and> dst < src + n")
  case True
  have "dst + n - of_nat i \<noteq> src + n - of_nat j" if "i < j" "j < unat n" for i j
  proof
    assume "dst + n - of_nat i = src + n - of_nat j"
    then have "dst + of_nat j = src + of_nat i" by (simp add: algebra_simps)
    then have "unat (dst + of_nat j) = unat (src + of_nat i)" by simp
    moreover have "unat (dst + of_nat j) = unat dst + j" "unat (src + of_nat i) = unat src + i"
      using that dst src by (simp_all add: unat_add_of_nat)
    ultimately show False
      using True that by (simp add: word_less_nat_alt)
  qed
  moreover have "src + n - (dst + n - x) = src + (x - dst)" by (simp add: algebra_simps)
  ultimately show ?thesis
    using True by (simp only: memmove_def copy_down_eq region_from_end if_True simp_thms)
next
  case False
  have "dst + of_nat i \<noteq> src + of_nat j" if "i < j" "j < unat n" for i j
  proof
    assume "dst + of_nat i = src + of_nat j"
    then have "unat (dst + of_nat i) = unat (src + of_nat j)" by simp
    moreover have "unat (dst + of_nat i) = unat dst + i" "unat (src + of_nat j) = unat src + j"
      using that dst src by (simp_all add: unat_add_of_nat)
    moreover have "unat (src + n) = unat src + unat n"
      using src by (simp add: unat_word_ariths)
    ultimately show False
      using False that by (simp add: word_less_nat_alt)
  qed
  with False show ?thesis
    by (auto simp: memmove_def copy_up_eq)
qed

definition memcpy :: "memory \<Rightarrow> u32 \<Rightarrow> u32 \<Rightarrow> u32 \<Rightarrow> memory" where
  "memcpy m dst src n = memmove m dst src n"

primrec memcmp :: "memory \<Rightarrow> u32 \<Rightarrow> u32 \<Rightarrow> nat \<Rightarrow> int" where
  "memcmp m s1 s2 0 = 0"
| "memcmp m s1 s2 (Suc n) =
     (if m s1 \<noteq> m s2 then uint (m s1) - uint (m s2) else memcmp m (s1 + 1) (s2 + 1) n)"

lemma all_less_Suc_offset:
  "(\<forall>i < Suc n. P (a + of_nat i) (b + of_nat i))
    \<longleftrightarrow> P a (b :: u32) \<and> (\<forall>i < n. P (a + 1 + of_nat i :: u32) (b + 1 + of_nat i))"
  by (auto simp: less_Suc_eq_0_disj algebra_simps)

lemma uint_u8_eq_iff [simp]: "uint (a :: u8) = uint b \<longleftrightarrow> a = b"
  by (simp add: word_uint_eq_iff)

lemma uint_u8_eq_0_iff [simp]: "uint (a :: u8) = 0 \<longleftrightarrow> a = 0"
  by (simp add: word_uint_eq_iff)

lemma memcmp_zero_iff:
  "memcmp m s1 s2 n = 0 \<longleftrightarrow> (\<forall>i < n. m (s1 + of_nat i) = m (s2 + of_nat i))"
proof (induction n arbitrary: s1 s2)
  case (Suc n)
  then show ?case
    unfolding all_less_Suc_offset [where P = "\<lambda>x y. m x = m y"] by auto
qed simp

subsection \<open>Bounded strings\<close>

text \<open>
  The string that a routine with length bound \<open>n\<close> sees at \<open>p\<close>: the bytes up to the first
  NUL, at most \<open>n\<close> of them.
\<close>

primrec cstr :: "nat \<Rightarrow> memory \<Rightarrow> u32 \<Rightarrow> u8 list" where
  "cstr 0 m p = []"
| "cstr (Suc n) m p = (if m p = 0 then [] else m p # cstr n m (p + 1))"

lemma length_cstr: "length (cstr n m p) \<le> n"
  by (induction n arbitrary: p) auto

lemma cstr_cong:
  "(\<And>i. i < n \<Longrightarrow> m (p + of_nat i) = m' (q + of_nat i)) \<Longrightarrow> cstr n m p = cstr n m' q"
proof (induction n arbitrary: p q)
  case (Suc n)
  have "m p = m' q" using Suc.prems [of 0] by simp
  moreover have "cstr n m (p + 1) = cstr n m' (q + 1)"
    using Suc.prems [of "Suc _"] by (intro Suc.IH) (simp add: algebra_simps)
  ultimately show ?case by simp
qed simp

primrec strncmp :: "memory \<Rightarrow> u32 \<Rightarrow> u32 \<Rightarrow> nat \<Rightarrow> int" where
  "strncmp m p q 0 = 0"
| "strncmp m p q (Suc n) =
     (if m p \<noteq> 0 \<and> m p = m q then strncmp m (p + 1) (q + 1) n
      else uint (m p) - uint (m q))"

lemma strncmp_zero_iff: "strncmp m p q n = 0 \<longleftrightarrow> cstr n m p = cstr n m q"
  by (induction n arbitrary: p q) auto

text \<open>
  \<open>strncpy_copy\<close> is the first loop of \<open>strncpy\<close>: it returns the memory, the next
  destination and the count left for the padding loop.
\<close>

primrec strncpy_copy :: "nat \<Rightarrow> memory \<Rightarrow> u32 \<Rightarrow> u32 \<Rightarrow> memory \<times> u32 \<times> nat" where
  "strncpy_copy 0 m s t = (m, s, 0)"
| "strncpy_copy (Suc n) m s t =
     (let c = m t; m' = m(s := c)
      in if c \<noteq> 0 then strncpy_copy n m' (s + 1) (t + 1) else (m', s + 1, n))"

primrec strncpy_pad :: "nat \<Rightarrow> memory \<Rightarrow> u32 \<Rightarrow> memory" where
  "strncpy_pad 0 m s = m"
| "strncpy_pad (Suc n) m s = strncpy_pad n (m(s := 0)) (s + 1)"

definition strncpy :: "memory \<Rightarrow> u32 \<Rightarrow> u32 \<Rightarrow> int \<Rightarrow> memory" where
  "strncpy m s t n = (let (m', s', k) = strncpy_copy (nat n) m s t in strncpy_pad k m' s')"

primrec safestrcpy_loop :: "nat \<Rightarrow> memory \<Rightarrow> u32 \<Rightarrow> u32 \<Rightarrow> memory" where
  "safestrcpy_loop 0 m s t = m(s := 0)"
| "safestrcpy_loop (Suc n) m s t =
     (let c = m t; m' = m(s := c)
      in if c \<noteq> 0 then safestrcpy_loop n m' (s + 1) (t + 1) else m'(s + 1 := 0))"

definition safestrcpy :: "memory \<Rightarrow> u32 \<Rightarrow> u32 \<Rightarrow> int \<Rightarrow> memory" where
  "safestrcpy m s t n = (if n \<le> 0 then m else safestrcpy_loop (nat n - 1) m s t)"

text \<open>\<open>strlen\<close> reads until a NUL byte; without one it does not return.\<close>

partial_function (option) strlen_from :: "memory \<Rightarrow> u32 \<Rightarrow> nat \<Rightarrow> nat option" where
  "strlen_from m s n = (if m (s + of_nat n) = 0 then Some n else strlen_from m s (Suc n))"

definition strlen :: "memory \<Rightarrow> u32 \<Rightarrow> nat option" where
  "strlen m s = strlen_from m s 0"

lemma strncpy_pad_eq: "strncpy_pad n m s = stosb n m s 0"
  by (induction n arbitrary: m s) auto

definition regions_disjoint :: "u32 \<Rightarrow> u32 \<Rightarrow> nat \<Rightarrow> bool" where
  "regions_disjoint s t n \<longleftrightarrow> (\<forall>i < n. \<forall>j < n. s + of_nat i \<noteq> t + of_nat j)"

lemma regions_disjoint_step:
  "regions_disjoint s t (Suc n) \<Longrightarrow> regions_disjoint (s + 1) (t + 1) n"
  unfolding regions_disjoint_def
  by (metis (no_types, opaque_lifting) Suc_less_eq add.assoc of_nat_Suc)

lemma strncpy_outside:
  "\<not> in_region s (nat n) x \<Longrightarrow> strncpy m s t n x = m x"
proof -
  have "\<not> in_region s k x \<Longrightarrow>
      (let (m', s', r) = strncpy_copy k m s t in strncpy_pad r m' s') x = m x" for k
  proof (induction k arbitrary: m s t)
    case (Suc k)
    then have "x \<noteq> s" "\<not> in_region (s + 1) k x" by (auto simp: in_region_Suc)
    with Suc.IH show ?case
      by (auto simp: Let_def strncpy_pad_eq stosb_eq)
  qed (simp add: Let_def)
  then show "\<not> in_region s (nat n) x \<Longrightarrow> strncpy m s t n x = m x"
    by (simp add: strncpy_def)
qed

lemma not_in_region_before: "n < 2 ^ 32 \<Longrightarrow> \<not> in_region (s + 1) n s"
  by (simp add: in_region_def unsigned_minus_1_eq_mask mask_eq_exp_minus_1)

lemma strncpy_Suc:
  "strncpy m s t (int (Suc k)) =
     (if m t \<noteq> 0 then strncpy (m(s := m t)) (s + 1) (t + 1) (int k)
      else stosb k (m(s := 0)) (s + 1) 0)"
  by (simp add: strncpy_def Let_def strncpy_pad_eq nat_add_distrib)

lemma regions_disjointD:
  "regions_disjoint s t n \<Longrightarrow> i < n \<Longrightarrow> j < n \<Longrightarrow> s + of_nat i \<noteq> t + of_nat j"
  by (simp add: regions_disjoint_def)

lemma ex_le_Suc_iff: "(\<exists>j \<le> Suc n. P j) \<longleftrightarrow> P 0 \<or> (\<exists>j \<le> n. P (Suc j))"
proof
  assume "\<exists>j \<le> Suc n. P j"
  then obtain j where "j \<le> Suc n" "P j" by blast
  then show "P 0 \<or> (\<exists>j \<le> n. P (Suc j))" by (cases j) auto
qed (auto intro: exI [of _ "Suc _"])

lemma strncpy_nth:
  assumes "regions_disjoint s t n" "n < 2 ^ 32" "i < n"
  shows "strncpy m s t (int n) (s + of_nat i)
    = (if \<exists>j \<le> i. m (t + of_nat j) = 0 then 0 else m (t + of_nat i))"
  using assms
proof (induction n arbitrary: m s t i)
  case (Suc n)
  have before: "\<not> in_region (s + 1) n s"
    using Suc.prems(2) by (simp add: not_in_region_before)
  have src: "t + of_nat j \<noteq> s" if "j < Suc n" for j
    using regions_disjointD [OF Suc.prems(1), of 0 j] that by auto
  show ?case
  proof (cases "m t = 0")
    case True
    then have "\<exists>j \<le> i. m (t + of_nat j) = 0" by (intro exI [of _ 0]) simp
    moreover have "i = 0 \<or> in_region (s + 1) n (s + of_nat i)"
    proof (cases i)
      case (Suc k)
      then have "s + of_nat i = s + 1 + of_nat k" by simp
      with Suc Suc.prems(2,3) show ?thesis by (simp only: in_region_offset) simp
    qed simp
    ultimately show ?thesis
      using True before unfolding strncpy_Suc by (auto simp: stosb_eq)
  next
    case False
    show ?thesis
    proof (cases i)
      case 0
      then show ?thesis
        using False before unfolding strncpy_Suc by (simp add: strncpy_outside)
    next
      case (Suc i')
      have upd: "(m(s := m t)) (t + 1 + of_nat j) = m (t + of_nat (Suc j))" if "j \<le> i'" for j
      proof -
        have "t + 1 + of_nat j = t + of_nat (Suc j)" by simp
        moreover have "t + of_nat (Suc j) \<noteq> s"
          using that Suc Suc.prems(3) by (intro src) linarith
        ultimately show ?thesis by (simp only: fun_upd_apply if_False)
      qed
      have ex: "(\<exists>j \<le> i'. (m(s := m t)) (t + 1 + of_nat j) = 0)
          \<longleftrightarrow> (\<exists>j \<le> i'. m (t + of_nat (Suc j)) = 0)"
        using upd by (metis (mono_tags, lifting))
      have "strncpy (m(s := m t)) (s + 1) (t + 1) (int n) (s + 1 + of_nat i')
        = (if \<exists>j \<le> i'. (m(s := m t)) (t + 1 + of_nat j) = 0 then 0
           else (m(s := m t)) (t + 1 + of_nat i'))"
        using Suc.prems Suc by (intro Suc.IH regions_disjoint_step) auto
      also have "\<dots> = (if \<exists>j \<le> Suc i'. m (t + of_nat j) = 0 then 0 else m (t + of_nat (Suc i')))"
        using False unfolding ex upd [OF order.refl] ex_le_Suc_iff [of i'] by simp
      finally show ?thesis
        using False unfolding strncpy_Suc Suc by (simp add: add.assoc)
    qed
  qed
qed simp

text \<open>
  What \<open>strncpy\<close> is relied on for: the destination holds the same bounded string, and every
  byte of its field after the string is zero.
\<close>

lemma cstr_cong0:
  assumes "\<And>i. i < n \<Longrightarrow> m' (p + of_nat i)
      = (if \<exists>j \<le> i. m (q + of_nat j) = 0 then 0 else m (q + of_nat i))"
  shows "cstr n m' p = cstr n m q"
  using assms
proof (induction n arbitrary: p q)
  case (Suc n)
  from Suc.prems [of 0] have hd: "m' p = m q" by simp
  show ?case
  proof (cases "m q = 0")
    case False
    have "cstr n m' (p + 1) = cstr n m (q + 1)"
    proof (rule Suc.IH)
      fix i assume "i < n"
      then have "m' (p + of_nat (Suc i))
          = (if \<exists>j \<le> Suc i. m (q + of_nat j) = 0 then 0 else m (q + of_nat (Suc i)))"
        by (intro Suc.prems) simp
      then show "m' (p + 1 + of_nat i)
          = (if \<exists>j \<le> i. m (q + 1 + of_nat j) = 0 then 0 else m (q + 1 + of_nat i))"
        using False unfolding ex_le_Suc_iff [of i] by (simp add: add.assoc)
    qed
    with hd show ?thesis by simp
  qed (simp add: hd)
qed simp

lemma strncpy_cstr:
  assumes "regions_disjoint s t n" "n < 2 ^ 32"
  shows "cstr n (strncpy m s t (int n)) s = cstr n m t"
  by (rule cstr_cong0) (simp add: strncpy_nth [OF assms])

lemma safestrcpy_loop_outside:
  "\<not> in_region s (Suc k) x \<Longrightarrow> safestrcpy_loop k m s t x = m x"
proof (induction k arbitrary: m s t)
  case (Suc k)
  then have "x \<noteq> s" "x \<noteq> s + 1" "\<not> in_region (s + 1) (Suc k) x"
    by (auto simp: in_region_Suc)
  with Suc.IH show ?case by (simp add: Let_def)
qed (simp add: in_region_Suc)

lemma safestrcpy_loop_cstr:
  assumes "regions_disjoint s t (Suc k)" "Suc k < 2 ^ 32"
  shows "cstr (Suc k) (safestrcpy_loop k m s t) s = cstr k m t"
  using assms
proof (induction k arbitrary: m s t)
  case (Suc k)
  show ?case
  proof (cases "m t = 0")
    case False
    let ?m = "m(s := m t)"
    have "cstr (Suc k) (safestrcpy_loop k ?m (s + 1) (t + 1)) (s + 1) = cstr k ?m (t + 1)"
      using Suc.prems by (intro Suc.IH regions_disjoint_step) auto
    also have "\<dots> = cstr k m (t + 1)"
    proof (rule cstr_cong)
      fix i assume "i < k"
      then have "s + of_nat 0 \<noteq> t + of_nat (Suc i)"
        using Suc.prems(1) by (intro regions_disjointD) auto
      then show "?m (t + 1 + of_nat i) = m (t + 1 + of_nat i)" by (auto simp: add.assoc)
    qed
    moreover have "safestrcpy_loop k ?m (s + 1) (t + 1) s = m t"
      using Suc.prems(2) by (simp add: safestrcpy_loop_outside not_in_region_before)
    ultimately show ?thesis
      using False by (simp add: Let_def)
  qed (simp add: Let_def)
qed simp

text \<open>\<open>safestrcpy\<close>: a NUL-terminated prefix of the source, inside the destination field.\<close>

lemma safestrcpy_correct:
  assumes "0 < n" "n < 2 ^ 31" "regions_disjoint s t (nat n)"
  shows "cstr (nat n) (safestrcpy m s t n) s = cstr (nat n - 1) m t"
    and "\<not> in_region s (nat n) x \<Longrightarrow> safestrcpy m s t n x = m x"
proof -
  obtain k where k: "nat n = Suc k" using assms(1) by (cases "nat n") auto
  then have "n = int (Suc k)" by simp
  with assms(2) have "Suc k < 2 ^ 32" by simp
  then show "cstr (nat n) (safestrcpy m s t n) s = cstr (nat n - 1) m t"
    using assms(1,3) k safestrcpy_loop_cstr by (simp add: safestrcpy_def)
  show "\<not> in_region s (nat n) x \<Longrightarrow> safestrcpy m s t n x = m x"
    using k by (simp add: safestrcpy_def safestrcpy_loop_outside)
qed

lemma strlen_from_Some:
  assumes "m (s + of_nat (n + k)) = 0" and "\<And>i. i < k \<Longrightarrow> m (s + of_nat (n + i)) \<noteq> 0"
  shows "strlen_from m s n = Some (n + k)"
  using assms
proof (induction k arbitrary: n)
  case 0
  then show ?case by (subst strlen_from.simps) simp
next
  case (Suc k)
  have "strlen_from m s (Suc n) = Some (Suc n + k)"
    using Suc.prems by (intro Suc.IH) (metis add_Suc_shift, metis Suc_mono add_Suc_shift)
  moreover have "m (s + of_nat n) \<noteq> 0" using Suc.prems(2) [of 0] by simp
  ultimately show ?case by (subst strlen_from.simps) simp
qed

text \<open>\<open>strlen\<close> returns on every terminated string, with the offset of the first NUL.\<close>

lemma strlen_terminated:
  "m (s + of_nat k) = 0 \<Longrightarrow> (\<And>i. i < k \<Longrightarrow> m (s + of_nat i) \<noteq> 0) \<Longrightarrow> strlen m s = Some k"
  using strlen_from_Some [of m s 0 k] by (simp add: strlen_def)

subsection \<open>Properties\<close>

text \<open>
  C19: \<open>memmove\<close> copies also when the regions overlap: when neither region runs past the end of
  the address space, every byte of the destination gets what the byte of the source held
  before the call, and no other byte changes.
\<close>

theorem memmove_correct:
  assumes "unat dst + unat n \<le> 2 ^ 32" "unat src + unat n < 2 ^ 32"
  shows "memmove m dst src n = (\<lambda>x. if in_region dst (unat n) x then m (src + (x - dst)) else m x)"
  by (rule ext) (rule memmove_eq [OF assms])

theorem memmove_correct_witness:
  "memmove (\<lambda>a. ucast a) 101 100 2 = (\<lambda>x. if in_region 101 2 x then ucast (100 + (x - 101)) else ucast x)
     \<and> memmove (\<lambda>a. ucast a) 101 100 2 102 = 101"
  using memmove_correct [of 101 2 100 "\<lambda>a. ucast a"] by (simp add: in_region_def)

text \<open>
  C20: \<open>safestrcpy\<close> terminates its result: with room for \<open>n\<close> bytes it leaves the first \<open>n - 1\<close>
  bytes of the source string at most, with a zero byte after them, and writes nothing outside
  those \<open>n\<close> bytes.
\<close>

theorem safestrcpy_bounded:
  assumes "0 < n" "n < 2 ^ 31" "regions_disjoint s t (nat n)"
  shows "cstr (nat n) (safestrcpy m s t n) s = cstr (nat n - 1) m t
    \<and> (\<forall>x. in_region s (nat n) x \<or> safestrcpy m s t n x = m x)"
  using safestrcpy_correct [OF assms] by blast

theorem safestrcpy_bounded_witness:
  "cstr 3 (safestrcpy (\<lambda>a. if a < 104 then 97 else 0) 200 100 3) 200 = [97, 97]"
proof -
  have "regions_disjoint 200 100 3"
    by (auto simp: regions_disjoint_def numeral_3_eq_3 less_Suc_eq)
  moreover have "cstr (Suc (Suc 0)) (\<lambda>a. if a < 104 then 97 else 0) 100 = [97, 97]"
    by simp
  ultimately show ?thesis
    using safestrcpy_bounded [of 3 200 100 "\<lambda>a. if a < 104 then 97 else 0"]
    by (simp flip: numeral_2_eq_2)
qed

end
