(* ===== verification/Layout.thy ===== *)
theory Layout
  imports Prelude
begin

section \<open>Constants and layout: param.h, fs.h, mmu.h, memlayout.h, stat.h, fcntl.h\<close>

text \<open>
  The parameters of the kernel and of the on-disk format, with the macros the code computes
  addresses with. Sizes that index tables are natural numbers; addresses and file-system block
  numbers, which the code keeps in \<open>uint\<close>, are 32-bit words.
\<close>

subsection \<open>param.h\<close>

definition NPROC :: nat where "NPROC = 64"
definition KSTACKSIZE :: u32 where "KSTACKSIZE = 4096"
definition NCPU :: nat where "NCPU = 8"
definition NOFILE :: nat where "NOFILE = 16"
definition NFILE :: nat where "NFILE = 100"
definition NBUF :: nat where "NBUF = 10"
definition NINODE :: nat where "NINODE = 50"
definition NDEV :: nat where "NDEV = 10"
definition ROOTDEV :: u32 where "ROOTDEV = 1"
definition MAXARG :: nat where "MAXARG = 32"
definition LOGSIZE :: nat where "LOGSIZE = 10"

lemmas param_defs = NPROC_def KSTACKSIZE_def NCPU_def NOFILE_def NFILE_def NBUF_def NINODE_def
  NDEV_def ROOTDEV_def MAXARG_def LOGSIZE_def

subsection \<open>fs.h and stat.h\<close>

definition ROOTINO :: u32 where "ROOTINO = 1"
definition BSIZE :: nat where "BSIZE = 512"
definition NDIRECT :: nat where "NDIRECT = 10"
definition NUM_INDIRECT :: nat where "NUM_INDIRECT = 2"
definition NUM_DOUBLE_INDIRECT :: nat where "NUM_DOUBLE_INDIRECT = 1"
definition PTRS_PER_BLOCK :: nat where "PTRS_PER_BLOCK = BSIZE div 4"
definition NINDIRECT :: nat where "NINDIRECT = NUM_INDIRECT * PTRS_PER_BLOCK"
definition NDOUBLE :: nat where
  "NDOUBLE = NUM_DOUBLE_INDIRECT * PTRS_PER_BLOCK * PTRS_PER_BLOCK"
definition MAXFILE :: nat where "MAXFILE = NDIRECT + NINDIRECT + NDOUBLE"

text \<open>The size of \<open>struct dinode\<close>: four shorts, the size word and the block addresses.\<close>

definition DINODE_SIZE :: nat where
  "DINODE_SIZE = 4 * 2 + 4 + 4 * (NDIRECT + NUM_INDIRECT + NUM_DOUBLE_INDIRECT)"
definition IPB :: nat where "IPB = BSIZE div DINODE_SIZE"
definition IBLOCK :: "u32 \<Rightarrow> u32" where "IBLOCK i = i div of_nat IPB + 2"
definition BPB :: nat where "BPB = BSIZE * 8"
definition BBLOCK :: "u32 \<Rightarrow> u32 \<Rightarrow> u32" where
  "BBLOCK b ninodes = b div of_nat BPB + ninodes div of_nat IPB + 3"
definition DIRSIZ :: nat where "DIRSIZ = 14"
definition DIRENT_SIZE :: nat where "DIRENT_SIZE = 2 + DIRSIZ"

definition T_DIR :: u16 where "T_DIR = 1"
definition T_FILE :: u16 where "T_FILE = 2"
definition T_DEV :: u16 where "T_DEV = 3"

definition O_RDONLY :: u32 where "O_RDONLY = 0x000"
definition O_WRONLY :: u32 where "O_WRONLY = 0x001"
definition O_RDWR :: u32 where "O_RDWR = 0x002"
definition O_CREATE :: u32 where "O_CREATE = 0x200"

lemmas fs_defs = ROOTINO_def BSIZE_def NDIRECT_def NUM_INDIRECT_def NUM_DOUBLE_INDIRECT_def
  PTRS_PER_BLOCK_def NINDIRECT_def NDOUBLE_def MAXFILE_def DINODE_SIZE_def IPB_def BPB_def
  DIRSIZ_def DIRENT_SIZE_def

lemma MAXFILE_value: "MAXFILE = 16650"
  by (simp add: fs_defs)

lemma IPB_value: "IPB = 8"
  by (simp add: fs_defs)

lemma MAXFILE_bytes: "MAXFILE * BSIZE = 8524800"
  by (simp add: fs_defs)

subsection \<open>mmu.h and memlayout.h\<close>

definition EXTMEM :: u32 where "EXTMEM = 0x100000"
definition PHYSTOP :: u32 where "PHYSTOP = 0xE000000"
definition DEVSPACE :: u32 where "DEVSPACE = 0xFE000000"
definition KERNBASE :: u32 where "KERNBASE = 0x80000000"
definition KERNLINK :: u32 where "KERNLINK = KERNBASE + EXTMEM"

definition v2p :: "u32 \<Rightarrow> u32" where "v2p a = a - KERNBASE"
definition p2v :: "u32 \<Rightarrow> u32" where "p2v a = a + KERNBASE"

definition PGSIZE :: u32 where "PGSIZE = 4096"
definition NPDENTRIES :: nat where "NPDENTRIES = 1024"
definition NPTENTRIES :: nat where "NPTENTRIES = 1024"

definition PDX :: "u32 \<Rightarrow> u32" where "PDX va = drop_bit 22 va AND 0x3FF"
definition PTX :: "u32 \<Rightarrow> u32" where "PTX va = drop_bit 12 va AND 0x3FF"
definition PGADDR :: "u32 \<Rightarrow> u32 \<Rightarrow> u32 \<Rightarrow> u32" where
  "PGADDR d t k = push_bit 22 d OR push_bit 12 t OR k"
definition PGROUNDUP :: "u32 \<Rightarrow> u32" where
  "PGROUNDUP sz = (sz + PGSIZE - 1) AND NOT (PGSIZE - 1)"
definition PGROUNDDOWN :: "u32 \<Rightarrow> u32" where
  "PGROUNDDOWN a = a AND NOT (PGSIZE - 1)"

definition PTE_P :: u32 where "PTE_P = 0x001"
definition PTE_W :: u32 where "PTE_W = 0x002"
definition PTE_U :: u32 where "PTE_U = 0x004"
definition PTE_ADDR :: "u32 \<Rightarrow> u32" where "PTE_ADDR pte = pte AND NOT 0xFFF"
definition PTE_FLAGS :: "u32 \<Rightarrow> u32" where "PTE_FLAGS pte = pte AND 0xFFF"

lemma v2p_p2v [simp]: "v2p (p2v a) = a" and p2v_v2p [simp]: "p2v (v2p a) = a"
  by (simp_all add: v2p_def p2v_def)

lemma drop_bit_eq_div_word: "drop_bit n (w :: u32) = w div 2 ^ n"
  by (simp add: drop_bit_eq_div)

lemma PTE_split: "PTE_ADDR pte OR PTE_FLAGS pte = pte"
  by (rule bit_eqI) (auto simp: PTE_ADDR_def PTE_FLAGS_def bit_simps)

subsection \<open>Traps and interrupt lines\<close>

text \<open>Of \<^verbatim>\<open>src/traps.h\<close>.\<close>

definition T_SYSCALL :: u32 where "T_SYSCALL = 64"
definition T_IRQ0 :: u32 where "T_IRQ0 = 32"
definition IRQ_TIMER :: u32 where "IRQ_TIMER = 0"
definition IRQ_KBD :: u32 where "IRQ_KBD = 1"
definition IRQ_COM1 :: u32 where "IRQ_COM1 = 4"
definition IRQ_IDE :: u32 where "IRQ_IDE = 14"
definition IRQ_SPURIOUS :: u32 where "IRQ_SPURIOUS = 31"
definition IRQ_ERROR :: u32 where "IRQ_ERROR = 19"

end
