(* ===== verification/Spinlock.thy ===== *)
theory Spinlock
  imports Layout Bytes
begin

section \<open>spinlock.c: spin locks and interrupt nesting\<close>

text \<open>
  Two views of \<^verbatim>\<open>src/spinlock.c\<close>.

  The detailed one is a machine with any number of CPUs: the lock words, the recorded owner
  and call stack of each lock, and the nesting depth and interrupt flag of each CPU. The body
  of \<open>acquire\<close> and \<open>release\<close> is cut at the atomic \<open>xchg\<close>, so that other CPUs can run
  between the pieces (\<open>smp_step\<close>); mutual exclusion is an invariant of that relation.

  The other view is the one the rest of the kernel model uses: the list of the locks the
  running CPU holds. Its \<open>acquire\<close> and \<open>release\<close> keep the two panics and the nesting depth
  (\<open>cpu->ncli\<close> is the length of the list). The theorem \<open>acquire_refines\<close> says that the
  detailed code does exactly that on a lock no other CPU holds.
\<close>

datatype lockid =
    PtableLock | KmemLock | BcacheLock | IdeLock | LogLock | IcacheLock | FtableLock
  | TicksLock | ConsLock | InputLock | PipeLock u32

subsection \<open>The detailed machine\<close>

record spinlock =
  lk_locked :: u32
  lk_name :: string
  lk_cpu :: "nat option"
  lk_pcs :: "u32 list"

record cpu =
  c_ncli :: int
  c_intena :: bool
  c_if :: bool

record smp =
  smp_locks :: "lockid \<Rightarrow> spinlock"
  smp_cpus :: "nat \<Rightarrow> cpu"

abbreviation upd_lock :: "lockid \<Rightarrow> (spinlock \<Rightarrow> spinlock) \<Rightarrow> smp \<Rightarrow> smp" where
  "upd_lock l f s \<equiv> s\<lparr>smp_locks := (smp_locks s)(l := f (smp_locks s l))\<rparr>"

abbreviation upd_cpu :: "nat \<Rightarrow> (cpu \<Rightarrow> cpu) \<Rightarrow> smp \<Rightarrow> smp" where
  "upd_cpu c f s \<equiv> s\<lparr>smp_cpus := (smp_cpus s)(c := f (smp_cpus s c))\<rparr>"

definition initlock :: "lockid \<Rightarrow> string \<Rightarrow> smp \<Rightarrow> smp" where
  "initlock l nm s = upd_lock l (\<lambda>lk. lk\<lparr>lk_name := nm, lk_locked := 0, lk_cpu := None\<rparr>) s"

text \<open>\<open>getcallerpcs\<close> walks the saved frame pointers; \<open>v\<close> is the address of the first argument.\<close>

primrec callerpcs_from :: "nat \<Rightarrow> memory \<Rightarrow> u32 \<Rightarrow> u32 list" where
  "callerpcs_from 0 m ebp = []"
| "callerpcs_from (Suc n) m ebp =
     (if ebp = 0 \<or> ebp < KERNBASE \<or> ebp = 0xffffffff then replicate (Suc n) 0
      else ld32 m (ebp + 4) # callerpcs_from n m (ld32 m ebp))"

definition getcallerpcs :: "memory \<Rightarrow> u32 \<Rightarrow> u32 list" where
  "getcallerpcs m v = callerpcs_from 10 m (v - 8)"

definition holding :: "nat \<Rightarrow> lockid \<Rightarrow> smp \<Rightarrow> bool" where
  "holding c l s \<longleftrightarrow> lk_locked (smp_locks s l) \<noteq> 0 \<and> lk_cpu (smp_locks s l) = Some c"

definition pushcli :: "nat \<Rightarrow> (smp, unit) kern" where
  "pushcli c = (\<lambda>s.
     let eflags_if = c_if (smp_cpus s c);
         s = upd_cpu c (\<lambda>k. k\<lparr>c_if := False\<rparr>) s;
         n = c_ncli (smp_cpus s c);
         s = upd_cpu c (\<lambda>k. k\<lparr>c_ncli := n + 1\<rparr>) s
     in Ret () (if n = 0 then upd_cpu c (\<lambda>k. k\<lparr>c_intena := eflags_if\<rparr>) s else s))"

definition popcli :: "nat \<Rightarrow> (smp, unit) kern" where
  "popcli c = (\<lambda>s.
     if c_if (smp_cpus s c) then Panic ''popcli - interruptible''
     else
       let s = upd_cpu c (\<lambda>k. k\<lparr>c_ncli := c_ncli k - 1\<rparr>) s
       in if c_ncli (smp_cpus s c) < 0 then Panic ''popcli''
          else if c_ncli (smp_cpus s c) = 0 \<and> c_intena (smp_cpus s c)
          then Ret () (upd_cpu c (\<lambda>k. k\<lparr>c_if := True\<rparr>) s)
          else Ret () s)"

definition lock_xchg :: "lockid \<Rightarrow> u32 \<Rightarrow> (smp, u32) kern" where
  "lock_xchg l newval = (\<lambda>s.
     Ret (lk_locked (smp_locks s l)) (upd_lock l (\<lambda>lk. lk\<lparr>lk_locked := newval\<rparr>) s))"

text \<open>
  \<open>acquire\<close> in its three pieces: up to the spin loop, one turn of the loop, and the record
  of the owner. \<open>release\<close> in two: up to its \<open>xchg\<close>, and from there.
\<close>

definition acquire_enter :: "nat \<Rightarrow> lockid \<Rightarrow> (smp, unit) kern" where
  "acquire_enter c l = kseq (pushcli c)
     (kbind (kget (holding c l)) (\<lambda>h. if h then panic ''acquire'' else kret ()))"

definition acquire_try :: "lockid \<Rightarrow> (smp, bool) kern" where
  "acquire_try l = kbind (lock_xchg l 1) (\<lambda>old. kret (old = 0))"

definition acquire_record :: "nat \<Rightarrow> lockid \<Rightarrow> u32 list \<Rightarrow> (smp, unit) kern" where
  "acquire_record c l pcs = kmod (upd_lock l (\<lambda>lk. lk\<lparr>lk_cpu := Some c, lk_pcs := pcs\<rparr>))"

definition release_enter :: "nat \<Rightarrow> lockid \<Rightarrow> (smp, unit) kern" where
  "release_enter c l = kbind (kget (holding c l)) (\<lambda>h.
     if \<not> h then panic ''release''
     else kmod (upd_lock l (\<lambda>lk. lk\<lparr>lk_pcs := (lk_pcs lk)[0 := 0], lk_cpu := None\<rparr>)))"

definition release_leave :: "nat \<Rightarrow> lockid \<Rightarrow> (smp, unit) kern" where
  "release_leave c l = kseq (lock_xchg l 0) (popcli c)"

definition release_smp :: "nat \<Rightarrow> lockid \<Rightarrow> (smp, unit) kern" where
  "release_smp c l = kseq (release_enter c l) (release_leave c l)"

text \<open>\<open>acquire\<close> when the first \<open>xchg\<close> finds the lock free, the case without contention.\<close>

definition acquire_smp :: "nat \<Rightarrow> lockid \<Rightarrow> u32 list \<Rightarrow> (smp, bool) kern" where
  "acquire_smp c l pcs = kseq (acquire_enter c l) (kbind (acquire_try l) (\<lambda>got.
     if got then kseq (acquire_record c l pcs) (kret True) else kret False))"

lemma length_callerpcs: "length (callerpcs_from n m ebp) = n"
  by (induction n arbitrary: ebp) auto

lemma length_getcallerpcs: "length (getcallerpcs m v) = 10"
  by (simp add: getcallerpcs_def length_callerpcs)

subsection \<open>Interleaving of CPUs\<close>

text \<open>What each CPU is doing with locks: nothing, spinning, between the pieces of a call.\<close>

datatype lock_pc = Running | Spinning lockid | Acquired lockid | Releasing lockid

record smp_sys =
  sys_smp :: smp
  sys_pc :: "nat \<Rightarrow> lock_pc"

inductive smp_step :: "smp_sys \<Rightarrow> smp_sys \<Rightarrow> bool" where
  enter: "sys_pc S c = Running \<Longrightarrow> acquire_enter c l (sys_smp S) = Ret () s \<Longrightarrow>
     smp_step S (S\<lparr>sys_smp := s, sys_pc := (sys_pc S)(c := Spinning l)\<rparr>)"
| spin: "sys_pc S c = Spinning l \<Longrightarrow> acquire_try l (sys_smp S) = Ret False s \<Longrightarrow>
     smp_step S (S\<lparr>sys_smp := s\<rparr>)"
| got: "sys_pc S c = Spinning l \<Longrightarrow> acquire_try l (sys_smp S) = Ret True s \<Longrightarrow>
     smp_step S (S\<lparr>sys_smp := s, sys_pc := (sys_pc S)(c := Acquired l)\<rparr>)"
| recorded: "sys_pc S c = Acquired l \<Longrightarrow> acquire_record c l pcs (sys_smp S) = Ret () s \<Longrightarrow>
     smp_step S (S\<lparr>sys_smp := s, sys_pc := (sys_pc S)(c := Running)\<rparr>)"
| rel_enter: "sys_pc S c = Running \<Longrightarrow> release_enter c l (sys_smp S) = Ret () s \<Longrightarrow>
     smp_step S (S\<lparr>sys_smp := s, sys_pc := (sys_pc S)(c := Releasing l)\<rparr>)"
| rel_leave: "sys_pc S c = Releasing l \<Longrightarrow> release_leave c l (sys_smp S) = Ret () s \<Longrightarrow>
     smp_step S (S\<lparr>sys_smp := s, sys_pc := (sys_pc S)(c := Running)\<rparr>)"

definition smp_init :: "smp_sys \<Rightarrow> bool" where
  "smp_init S \<longleftrightarrow>
     (\<forall>l. lk_locked (smp_locks (sys_smp S) l) = 0 \<and> lk_cpu (smp_locks (sys_smp S) l) = None)
   \<and> (\<forall>c. c_ncli (smp_cpus (sys_smp S) c) = 0 \<and> sys_pc S c = Running)"

text \<open>
  CPU \<open>c\<close> is inside the critical section of \<open>l\<close> from the \<open>xchg\<close> that took the lock to
  the \<open>xchg\<close> that gives it back.
\<close>

definition in_section :: "smp_sys \<Rightarrow> nat \<Rightarrow> lockid \<Rightarrow> bool" where
  "in_section S c l \<longleftrightarrow> sys_pc S c = Acquired l \<or> sys_pc S c = Releasing l
     \<or> lk_cpu (smp_locks (sys_smp S) l) = Some c"

definition smp_inv :: "smp_sys \<Rightarrow> bool" where
  "smp_inv S \<longleftrightarrow>
     (\<forall>l c. in_section S c l \<longrightarrow> lk_locked (smp_locks (sys_smp S) l) \<noteq> 0)
   \<and> (\<forall>l c c'. in_section S c l \<longrightarrow> in_section S c' l \<longrightarrow> c = c')
   \<and> (\<forall>l c. sys_pc S c = Acquired l \<or> sys_pc S c = Releasing l
        \<longrightarrow> lk_cpu (smp_locks (sys_smp S) l) = None)"

lemma smp_inv_init: "smp_init S \<Longrightarrow> smp_inv S"
  by (simp add: smp_init_def smp_inv_def in_section_def)

lemma pushcli_frame: "pushcli c s = Ret () s' \<Longrightarrow> smp_locks s' = smp_locks s"
  by (auto simp: pushcli_def Let_def split: if_splits)

lemma popcli_frame: "popcli c s = Ret () s' \<Longrightarrow> smp_locks s' = smp_locks s"
  by (auto simp: popcli_def Let_def split: if_splits)

lemma acquire_enter_frame: "acquire_enter c l s = Ret () s' \<Longrightarrow> smp_locks s' = smp_locks s"
  by (auto simp: acquire_enter_def kbind_eq_Ret kseq_eq_Ret dest!: pushcli_frame split: if_splits)

lemma acquire_try_locks:
  "acquire_try l s = Ret b s' \<Longrightarrow> b = (lk_locked (smp_locks s l) = 0)
     \<and> s' = upd_lock l (\<lambda>lk. lk\<lparr>lk_locked := 1\<rparr>) s"
  by (auto simp: acquire_try_def lock_xchg_def kbind_def)

lemma release_enter_locks:
  "release_enter c l s = Ret () s' \<Longrightarrow> holding c l s
     \<and> s' = upd_lock l (\<lambda>lk. lk\<lparr>lk_pcs := (lk_pcs lk)[0 := 0], lk_cpu := None\<rparr>) s"
  by (auto simp: release_enter_def kbind_eq_Ret split: if_splits)

lemma release_leave_locks:
  "release_leave c l s = Ret () s'
     \<Longrightarrow> smp_locks s' = smp_locks (upd_lock l (\<lambda>lk. lk\<lparr>lk_locked := 0\<rparr>) s)"
  by (auto simp: release_leave_def lock_xchg_def kseq_eq_Ret dest!: popcli_frame)

lemmas smp_frames = acquire_enter_frame acquire_try_locks release_enter_locks release_leave_locks

lemma smp_inv_step: "smp_step S T \<Longrightarrow> smp_inv S \<Longrightarrow> smp_inv T"
proof (induction rule: smp_step.induct)
  case (enter S c l s)
  then show ?case
    by (auto simp: smp_inv_def in_section_def dest!: acquire_enter_frame split: if_splits)
next
  case (spin S c l s)
  then show ?case
    by (auto simp: smp_inv_def in_section_def dest!: acquire_try_locks split: if_splits)
next
  case (got S c l s)
  then have free: "lk_locked (smp_locks (sys_smp S) l) = 0"
    and s: "s = upd_lock l (\<lambda>lk. lk\<lparr>lk_locked := 1\<rparr>) (sys_smp S)"
    by (auto dest!: acquire_try_locks)
  with got.prems have none: "\<not> in_section S c' l" for c'
    by (auto simp: smp_inv_def)
  then have "lk_cpu (smp_locks (sys_smp S) l) = None"
    by (auto simp: in_section_def simp flip: not_Some_eq)
  with none got.prems show ?case
    by (auto simp: smp_inv_def in_section_def s split: if_splits)
next
  case (recorded S c l pcs s)
  then show ?case
    by (auto simp: smp_inv_def in_section_def acquire_record_def split: if_splits)
next
  case (rel_enter S c l s)
  then show ?case
    by (auto simp: smp_inv_def in_section_def holding_def dest!: release_enter_locks split: if_splits)
next
  case (rel_leave S c l s)
  then show ?case
    by (auto simp: smp_inv_def in_section_def dest!: release_leave_locks split: if_splits)
qed

interpretation spin: invariant_system smp_init smp_step smp_inv
  by unfold_locales (auto intro: smp_inv_init smp_inv_step)

subsection \<open>Interrupts stay off while a lock is held\<close>

text \<open>
  \<open>pushcli\<close> and \<open>popcli\<close> nest: the depth of a CPU is the number of locks it holds or is
  spinning for, and its interrupt flag is off while the depth is not zero.
\<close>

definition lock_work :: "smp_sys \<Rightarrow> nat \<Rightarrow> lockid set" where
  "lock_work S c = {l. in_section S c l \<or> sys_pc S c = Spinning l}"

definition cli_inv :: "smp_sys \<Rightarrow> bool" where
  "cli_inv S \<longleftrightarrow> smp_inv S \<and>
     (\<forall>c. finite (lock_work S c)
        \<and> c_ncli (smp_cpus (sys_smp S) c) = int (card (lock_work S c))
        \<and> (c_if (smp_cpus (sys_smp S) c) \<longrightarrow> c_ncli (smp_cpus (sys_smp S) c) = 0))"

lemma cli_inv_init: "smp_init S \<Longrightarrow> cli_inv S"
  using smp_inv_init [of S]
  by (auto simp: cli_inv_def smp_init_def lock_work_def in_section_def)

lemma pushcli_cpus:
  "pushcli c s = Ret () s' \<Longrightarrow>
     c_ncli (smp_cpus s' d) = c_ncli (smp_cpus s d) + (if d = c then 1 else 0)
   \<and> c_if (smp_cpus s' d) = (c_if (smp_cpus s d) \<and> d \<noteq> c)"
  by (auto simp: pushcli_def Let_def split: if_splits)

lemma popcli_cpus:
  "popcli c s = Ret () s' \<Longrightarrow>
     c_ncli (smp_cpus s' d) = c_ncli (smp_cpus s d) - (if d = c then 1 else 0)
   \<and> (c_if (smp_cpus s' d) \<longrightarrow> (if d = c then c_ncli (smp_cpus s' d) = 0 else c_if (smp_cpus s d)))"
  by (auto simp: popcli_def Let_def split: if_splits)

lemma popcli_ok:
  assumes "\<not> c_if (smp_cpus s c)" "0 < c_ncli (smp_cpus s c)"
  obtains s' where "popcli c s = Ret () s'"
proof (cases "c_ncli (smp_cpus s c) = 1 \<and> c_intena (smp_cpus s c)")
  case True
  with assms that show ?thesis by (simp add: popcli_def Let_def)
next
  case False
  with assms that show ?thesis by (auto simp: popcli_def Let_def)
qed

lemma acquire_enter_cpus:
  assumes "acquire_enter c l s = Ret () s'"
  shows "c_ncli (smp_cpus s' d) = c_ncli (smp_cpus s d) + (if d = c then 1 else 0)
   \<and> c_if (smp_cpus s' d) = (c_if (smp_cpus s d) \<and> d \<noteq> c) \<and> \<not> holding c l s"
proof -
  obtain s1 where "pushcli c s = Ret () s1" "s' = s1" "\<not> holding c l s1"
    using assms by (auto simp: acquire_enter_def kseq_eq_Ret kbind_eq_Ret split: if_splits)
  then show ?thesis
    using pushcli_cpus [of c s s1 d] pushcli_frame [of c s s1] by (simp add: holding_def)
qed

lemma lock_work_eqI:
  assumes "\<And>l. lk_cpu (smp_locks (sys_smp T) l) = Some c \<longleftrightarrow> lk_cpu (smp_locks (sys_smp S) l) = Some c"
    and "sys_pc T c = sys_pc S c"
  shows "lock_work T c = lock_work S c"
  using assms by (simp add: lock_work_def in_section_def)

lemma cli_invI:
  assumes "smp_inv S" "smp_cpus (sys_smp S) = K"
    and "\<And>d. finite (lock_work S d) \<and> c_ncli (K d) = int (card (lock_work S d))
      \<and> (c_if (K d) \<longrightarrow> c_ncli (K d) = 0)"
  shows "cli_inv S"
  using assms(1,3) unfolding cli_inv_def assms(2) by blast

lemma cli_inv_frame:
  assumes "cli_inv S" "smp_inv T" "\<And>d. lock_work T d = lock_work S d"
    and "smp_cpus (sys_smp T) = smp_cpus (sys_smp S)"
  shows "cli_inv T"
  using assms(1,2) unfolding cli_inv_def assms(3,4) by blast

lemma cli_inv_step: "smp_step S T \<Longrightarrow> cli_inv S \<Longrightarrow> cli_inv T"
proof (induction rule: smp_step.induct)
  case (enter S c l s)
  let ?T = "S\<lparr>sys_smp := s, sys_pc := (sys_pc S)(c := Spinning l)\<rparr>"
  have inv: "smp_inv S" "smp_inv ?T"
    using enter smp_inv_step [OF smp_step.enter [OF enter.hyps]] by (auto simp: cli_inv_def)
  note locks = acquire_enter_frame [OF enter.hyps(2)]
  note cpus = acquire_enter_cpus [OF enter.hyps(2)]
  have "l \<notin> lock_work S c"
    using inv(1) cpus enter.hyps(1) by (auto simp: lock_work_def in_section_def smp_inv_def holding_def)
  moreover have "lock_work ?T c = insert l (lock_work S c)"
    using enter.hyps(1) by (auto simp: lock_work_def in_section_def locks)
  moreover have "d \<noteq> c \<Longrightarrow> lock_work ?T d = lock_work S d" for d
    by (rule lock_work_eqI) (simp_all add: locks)
  ultimately show ?case
    using enter.prems inv(2) cpus by (auto simp: cli_inv_def)
next
  case (spin S c l s)
  have inv: "smp_inv (S\<lparr>sys_smp := s\<rparr>)"
    using spin smp_inv_step [OF smp_step.spin [OF spin.hyps]] by (auto simp: cli_inv_def)
  have s: "s = upd_lock l (\<lambda>lk. lk\<lparr>lk_locked := 1\<rparr>) (sys_smp S)"
    using acquire_try_locks [OF spin.hyps(2)] by simp
  have "lock_work (S\<lparr>sys_smp := s\<rparr>) d = lock_work S d" for d
    by (rule lock_work_eqI) (simp_all add: s)
  then show ?case
    by (rule cli_inv_frame [OF spin.prems inv]) (simp add: s)
next
  case (got S c l s)
  let ?T = "S\<lparr>sys_smp := s, sys_pc := (sys_pc S)(c := Acquired l)\<rparr>"
  have inv: "smp_inv ?T"
    using got smp_inv_step [OF smp_step.got [OF got.hyps]] by (auto simp: cli_inv_def)
  have s: "s = upd_lock l (\<lambda>lk. lk\<lparr>lk_locked := 1\<rparr>) (sys_smp S)"
    using acquire_try_locks [OF got.hyps(2)] by simp
  have "lock_work ?T d = lock_work S d" for d
    using got.hyps(1) by (auto simp: lock_work_def in_section_def s)
  then show ?case
    by (rule cli_inv_frame [OF got.prems inv]) (simp add: s)
next
  case (recorded S c l pcs s)
  let ?T = "S\<lparr>sys_smp := s, sys_pc := (sys_pc S)(c := Running)\<rparr>"
  have inv: "smp_inv S" "smp_inv ?T"
    using recorded smp_inv_step [OF smp_step.recorded [OF recorded.hyps]] by (auto simp: cli_inv_def)
  have s: "s = upd_lock l (\<lambda>lk. lk\<lparr>lk_cpu := Some c, lk_pcs := pcs\<rparr>) (sys_smp S)"
    using recorded.hyps(2) by (simp add: acquire_record_def)
  have "lk_cpu (smp_locks (sys_smp S) l) = None"
    using inv(1) recorded.hyps(1) by (simp add: smp_inv_def)
  then have "lock_work ?T d = lock_work S d" for d
    using recorded.hyps(1) by (auto simp: lock_work_def in_section_def s split: if_splits)
  then show ?case
    by (rule cli_inv_frame [OF recorded.prems inv(2)]) (simp add: s)
next
  case (rel_enter S c l s)
  let ?T = "S\<lparr>sys_smp := s, sys_pc := (sys_pc S)(c := Releasing l)\<rparr>"
  have inv: "smp_inv ?T"
    using rel_enter smp_inv_step [OF smp_step.rel_enter [OF rel_enter.hyps]] by (auto simp: cli_inv_def)
  have s: "holding c l (sys_smp S)"
    "s = upd_lock l (\<lambda>lk. lk\<lparr>lk_pcs := (lk_pcs lk)[0 := 0], lk_cpu := None\<rparr>) (sys_smp S)"
    using release_enter_locks [OF rel_enter.hyps(2)] by simp_all
  then have "lock_work ?T d = lock_work S d" for d
    using rel_enter.hyps(1) by (auto simp: lock_work_def in_section_def holding_def split: if_splits)
  then show ?case
    by (rule cli_inv_frame [OF rel_enter.prems inv]) (simp add: s)
next
  case (rel_leave S c l s)
  let ?T = "S\<lparr>sys_smp := s, sys_pc := (sys_pc S)(c := Running)\<rparr>"
  have inv: "smp_inv S" "smp_inv ?T"
    using rel_leave smp_inv_step [OF smp_step.rel_leave [OF rel_leave.hyps]] by (auto simp: cli_inv_def)
  note locks = release_leave_locks [OF rel_leave.hyps(2)]
  have pop: "popcli c (upd_lock l (\<lambda>lk. lk\<lparr>lk_locked := 0\<rparr>) (sys_smp S)) = Ret () s"
    using rel_leave.hyps(2) by (simp add: release_leave_def lock_xchg_def kseq_eq_Ret)
  have cpus: "c_ncli (smp_cpus s d) = c_ncli (smp_cpus (sys_smp S) d) - (if d = c then 1 else 0)
     \<and> (c_if (smp_cpus s d) \<longrightarrow> (if d = c then c_ncli (smp_cpus s d) = 0 else c_if (smp_cpus (sys_smp S) d)))" for d
    using popcli_cpus [OF pop, of d] by (cases "d = c") auto
  have none: "lk_cpu (smp_locks (sys_smp S) l) = None"
    using inv(1) rel_leave.hyps(1) by (simp add: smp_inv_def)
  then have work: "lock_work ?T c = lock_work S c - {l}" "l \<in> lock_work S c"
    using rel_leave.hyps(1) by (auto simp: lock_work_def in_section_def locks split: if_splits)
  have others: "d \<noteq> c \<Longrightarrow> lock_work ?T d = lock_work S d" for d
    by (rule lock_work_eqI) (auto simp: locks)
  have fin: "finite (lock_work S d)" "c_ncli (smp_cpus (sys_smp S) d) = int (card (lock_work S d))"
    "c_if (smp_cpus (sys_smp S) d) \<longrightarrow> c_ncli (smp_cpus (sys_smp S) d) = 0" for d
    using rel_leave.prems unfolding cli_inv_def by blast+
  have "int (card (lock_work ?T c)) = int (card (lock_work S c)) - 1"
    using work card_Suc_Diff1 [OF fin(1) work(2)] by simp
  then have "finite (lock_work ?T d) \<and> c_ncli (smp_cpus s d) = int (card (lock_work ?T d))
      \<and> (c_if (smp_cpus s d) \<longrightarrow> c_ncli (smp_cpus s d) = 0)" for d
  proof (cases "d = c")
    case True
    have "finite (lock_work ?T c)" using work(1) fin(1) by (simp only: finite_Diff)
    moreover have "c_ncli (smp_cpus s c) = int (card (lock_work ?T c))"
      using cpus [of c] fin(2) [of c] \<open>int (card (lock_work ?T c)) = _\<close> by simp
    moreover have "c_if (smp_cpus s c) \<longrightarrow> c_ncli (smp_cpus s c) = 0"
      using conjunct2 [OF cpus [of c]] by simp
    ultimately show ?thesis using True by blast
  next
    case False
    with cpus [of d] have "c_ncli (smp_cpus s d) = c_ncli (smp_cpus (sys_smp S) d)"
      "c_if (smp_cpus s d) \<longrightarrow> c_if (smp_cpus (sys_smp S) d)" by simp_all
    with fin [of d] others [OF False] show ?thesis by metis
  qed
  then show ?case
    by (rule cli_invI [OF inv(2), rotated]) simp
qed

interpretation cli: invariant_system smp_init smp_step cli_inv
  by unfold_locales (auto intro: cli_inv_init cli_inv_step)

subsection \<open>The locks of the running CPU\<close>

text \<open>
  The rest of the kernel is modelled from the CPU that runs it: \<open>held\<close> lists the locks it
  holds, most recent first. \<open>acquire\<close> is the moment the spin loop ends.
\<close>

record locks_st =
  held :: "lockid list"

definition acquire :: "lockid \<Rightarrow> ('x locks_st_scheme, unit) kern" where
  "acquire l = (\<lambda>s. if l \<in> set (held s) then Panic ''acquire''
     else Ret () (s\<lparr>held := l # held s\<rparr>))"

definition release :: "lockid \<Rightarrow> ('x locks_st_scheme, unit) kern" where
  "release l = (\<lambda>s. if l \<notin> set (held s) then Panic ''release''
     else Ret () (s\<lparr>held := remove1 l (held s)\<rparr>))"

lemma acquire_free [simp]: "l \<notin> set (held s) \<Longrightarrow> acquire l s = Ret () (s\<lparr>held := l # held s\<rparr>)"
  by (simp add: acquire_def)

lemma acquire_held [simp]: "l \<in> set (held s) \<Longrightarrow> acquire l s = Panic ''acquire''"
  by (simp add: acquire_def)

lemma release_held [simp]:
  "l \<in> set (held s) \<Longrightarrow> release l s = Ret () (s\<lparr>held := remove1 l (held s)\<rparr>)"
  by (simp add: release_def)

lemma release_free [simp]: "l \<notin> set (held s) \<Longrightarrow> release l s = Panic ''release''"
  by (simp add: release_def)

lemma acquire_eq_Ret:
  "acquire l s = Ret u s' \<longleftrightarrow> l \<notin> set (held s) \<and> s' = s\<lparr>held := l # held s\<rparr>"
  by (auto simp: acquire_def)

lemma release_eq_Ret:
  "release l s = Ret u s' \<longleftrightarrow> l \<in> set (held s) \<and> s' = s\<lparr>held := remove1 l (held s)\<rparr>"
  by (auto simp: release_def)

text \<open>The abstraction: what \<open>held\<close> says about CPU \<open>c\<close> of the detailed machine.\<close>

definition lock_sim :: "nat \<Rightarrow> smp \<Rightarrow> lockid list \<Rightarrow> bool" where
  "lock_sim c s h \<longleftrightarrow> distinct h \<and> set h = {l. holding c l s}
     \<and> c_ncli (smp_cpus s c) = int (length h) \<and> (h \<noteq> [] \<longrightarrow> \<not> c_if (smp_cpus s c))"

lemma acquire_smp_free:
  assumes "lock_sim c s h" "l \<notin> set h" "lk_locked (smp_locks s l) = 0"
  shows "\<exists>s'. acquire_smp c l pcs s = Ret True s' \<and> lock_sim c s' (l # h)"
proof -
  obtain s1 where s1: "pushcli c s = Ret () s1"
    by (auto simp: pushcli_def Let_def)
  note frame = pushcli_frame [OF s1] and cpus = pushcli_cpus [OF s1]
  have "\<not> holding c l s1" using assms(1,2) frame by (simp add: lock_sim_def holding_def)
  then have enter: "acquire_enter c l s = Ret () s1"
    by (simp add: acquire_enter_def s1)
  let ?s' = "upd_lock l (\<lambda>lk. lk\<lparr>lk_locked := 1, lk_cpu := Some c, lk_pcs := pcs\<rparr>) s1"
  have "acquire_smp c l pcs s = Ret True ?s'"
    using assms(3) frame
    by (simp add: acquire_smp_def enter acquire_try_def lock_xchg_def acquire_record_def kbind_def kseq_def)
  moreover have "lock_sim c ?s' (l # h)"
    using assms(1,2) cpus [of c] frame by (auto simp: lock_sim_def holding_def)
  ultimately show ?thesis by blast
qed

lemma acquire_smp_panics:
  "lock_sim c s h \<Longrightarrow> l \<in> set h \<Longrightarrow> acquire_smp c l pcs s = Panic ''acquire''"
proof -
  assume h: "lock_sim c s h" "l \<in> set h"
  obtain s1 where s1: "pushcli c s = Ret () s1"
    by (auto simp: pushcli_def Let_def)
  then have "holding c l s1" using h pushcli_frame [OF s1] by (auto simp: lock_sim_def holding_def)
  then show ?thesis by (simp add: acquire_smp_def acquire_enter_def s1)
qed

lemma release_smp_held:
  assumes "lock_sim c s h" "l \<in> set h"
  shows "\<exists>s'. release_smp c l s = Ret () s' \<and> lock_sim c s' (remove1 l h)"
proof -
  let ?s1 = "upd_lock l (\<lambda>lk. lk\<lparr>lk_pcs := (lk_pcs lk)[0 := 0], lk_cpu := None\<rparr>) s"
  let ?s2 = "upd_lock l (\<lambda>lk. lk\<lparr>lk_locked := 0\<rparr>) ?s1"
  have hold: "holding c l s" using assms by (simp add: lock_sim_def set_eq_iff)
  have "release_smp c l s = popcli c ?s2"
    using hold by (simp add: release_smp_def release_enter_def release_leave_def lock_xchg_def)
  moreover obtain s3 where s3: "popcli c ?s2 = Ret () s3"
    using assms by (cases h) (auto simp: lock_sim_def intro: popcli_ok [of ?s2 c])
  moreover have "lock_sim c s3 (remove1 l h)"
  proof -
    have "length h = Suc (length (remove1 l h))"
      using assms(2) by (induction h) auto
    then show ?thesis
      using assms popcli_frame [OF s3] popcli_cpus [OF s3, of c]
      by (auto simp: lock_sim_def holding_def split: if_splits)
  qed
  ultimately show ?thesis by auto
qed

lemma release_smp_panics:
  "lock_sim c s h \<Longrightarrow> l \<notin> set h \<Longrightarrow> release_smp c l s = Panic ''release''"
  by (auto simp: lock_sim_def release_smp_def release_enter_def)

subsection \<open>Properties\<close>

text \<open>A machine at boot, and the same machine once CPU 0 has taken the lock of the page allocator.\<close>

definition smp_boot :: smp_sys where
  "smp_boot = \<lparr>sys_smp =
     \<lparr>smp_locks = \<lambda>l. \<lparr>lk_locked = 0, lk_name = [], lk_cpu = None, lk_pcs = replicate 10 0\<rparr>,
      smp_cpus = \<lambda>c. \<lparr>c_ncli = 0, c_intena = False, c_if = True\<rparr>\<rparr>,
     sys_pc = \<lambda>c. Running\<rparr>"

definition smp_boot_taken :: smp_sys where
  "smp_boot_taken = \<lparr>sys_smp =
     upd_lock KmemLock (\<lambda>lk. lk\<lparr>lk_locked := 1\<rparr>)
       (upd_cpu 0 (\<lambda>k. \<lparr>c_ncli = 1, c_intena = True, c_if = False\<rparr>) (sys_smp smp_boot)),
     sys_pc = (sys_pc smp_boot)(0 := Acquired KmemLock)\<rparr>"

lemma smp_boot_init: "smp_init smp_boot"
  by (simp add: smp_init_def smp_boot_def)

lemma smp_boot_run: "smp_step\<^sup>*\<^sup>* smp_boot smp_boot_taken"
proof -
  let ?s = "upd_cpu 0 (\<lambda>k. \<lparr>c_ncli = 1, c_intena = True, c_if = False\<rparr>) (sys_smp smp_boot)"
  let ?S = "smp_boot\<lparr>sys_smp := ?s, sys_pc := (sys_pc smp_boot)(0 := Spinning KmemLock)\<rparr>"
  have "smp_step smp_boot ?S"
    by (rule smp_step.enter)
      (simp_all add: smp_boot_def acquire_enter_def pushcli_def holding_def Let_def kbind_def)
  moreover have "smp_step ?S (?S\<lparr>sys_smp := upd_lock KmemLock (\<lambda>lk. lk\<lparr>lk_locked := 1\<rparr>) ?s,
      sys_pc := (sys_pc ?S)(0 := Acquired KmemLock)\<rparr>)"
    by (rule smp_step.got) (simp_all add: smp_boot_def acquire_try_def lock_xchg_def kbind_def)
  ultimately show ?thesis
    by (auto simp: smp_boot_taken_def smp_boot_def intro: rtranclp.rtrancl_into_rtrancl)
qed

lemma smp_boot_section: "in_section smp_boot_taken 0 KmemLock"
  by (simp add: in_section_def smp_boot_taken_def)

text \<open>C6: Mutual exclusion. However many CPUs run \<open>acquire\<close> and \<open>release\<close>, in every interleaving
  at the atomic exchange, two CPUs are never between winning a lock and giving it back at
  the same time.\<close>

theorem mutual_exclusion:
  assumes "smp_init S" "smp_step\<^sup>*\<^sup>* S T" "in_section T c l" "in_section T d l"
  shows "c = d"
  using spin.invar_reachable [OF assms(1,2)] assms(3,4) unfolding smp_inv_def by blast

theorem mutual_exclusion_witness: "{c. in_section smp_boot_taken c KmemLock} = {0}"
  using mutual_exclusion [OF smp_boot_init smp_boot_run smp_boot_section] smp_boot_section by blast

text \<open>C7: A CPU that holds a lock, or is between the pieces of taking or giving one back, has
  interrupts disabled, and its nesting counter is the number of the locks it works on.\<close>

theorem interrupts_off:
  assumes "smp_init S" "smp_step\<^sup>*\<^sup>* S T" "in_section T c l"
  shows "\<not> c_if (smp_cpus (sys_smp T) c) \<and> c_ncli (smp_cpus (sys_smp T) c) = int (card (lock_work T c))"
proof -
  have fin: "finite (lock_work T c)" and n: "c_ncli (smp_cpus (sys_smp T) c) = int (card (lock_work T c))"
    and off: "c_if (smp_cpus (sys_smp T) c) \<longrightarrow> c_ncli (smp_cpus (sys_smp T) c) = 0"
    using cli.invar_reachable [OF assms(1,2)] unfolding cli_inv_def by blast+
  have "lock_work T c \<noteq> {}" using assms(3) by (auto simp: lock_work_def)
  with fin have "card (lock_work T c) \<noteq> 0" by simp
  with n off show ?thesis by auto
qed

theorem interrupts_off_witness:
  "\<not> c_if (smp_cpus (sys_smp smp_boot_taken) 0)
   \<and> c_ncli (smp_cpus (sys_smp smp_boot_taken) 0) = int (card (lock_work smp_boot_taken 0))"
  using interrupts_off [OF smp_boot_init smp_boot_run smp_boot_section] .



end
