(* ===== verification/Cprintf.thy ===== *)
theory Cprintf
  imports Spinlock
begin

unbundle bit_operations_syntax

section \<open>console.c, output half, and uart.c: formatted output\<close>

text \<open>
  Kernel output of \<^verbatim>\<open>src/console.c\<close>: \<open>consputc\<close> sends a character to the serial port and to the
  CGA screen, \<open>printint\<close> formats a number and \<open>cprintf\<close> interprets a format string. The
  device state is the list of the bytes the UART transmitted, the screen memory and the
  cursor. \<open>uart_on\<close> is the variable \<open>uart\<close> of \<^verbatim>\<open>src/uart.c\<close>: without a UART \<open>uartputc\<close> does
  nothing. The busy wait of \<open>uartputc\<close> for the transmitter is not modelled.

  Numbers print their digits most significant first (\<open>printint_roundtrip\<close>), the local buffer
  of \<open>printint\<close> never overflows, and the cursor never leaves the screen.
\<close>

record cons_st = locks_st +
  cons_locking :: bool
  panicked :: bool
  uart_on :: bool
  serial_out :: "u8 list"
  crt :: "nat \<Rightarrow> u16"
  crt_pos :: nat

subsection \<open>One character\<close>

definition BACKSPACE :: u32 where "BACKSPACE = 0x100"

definition uartputc :: "u8 \<Rightarrow> ('x cons_st_scheme, unit) kern" where
  "uartputc c = kmod (\<lambda>s. if uart_on s then s\<lparr>serial_out := serial_out s @ [c]\<rparr> else s)"

text \<open>
  \<open>cgaputc\<close> on the cursor position the CRT controller holds. \<open>cga_scroll\<close> is the \<open>memmove\<close> of
  23 lines up and the \<open>memset\<close> of what lies after the cursor.
\<close>

definition cga_advance :: "u32 \<Rightarrow> (nat \<Rightarrow> u16) \<times> nat \<Rightarrow> (nat \<Rightarrow> u16) \<times> nat" where
  "cga_advance c = (\<lambda>(m, pos).
     if c = 10 then (m, pos + (80 - pos mod 80))
     else if c = BACKSPACE then (m, if pos > 0 then pos - 1 else pos)
     else (m(pos := ucast (c AND 0xff) OR 0x0700), pos + 1))"

definition cga_scroll :: "(nat \<Rightarrow> u16) \<times> nat \<Rightarrow> (nat \<Rightarrow> u16) \<times> nat" where
  "cga_scroll = (\<lambda>(m, pos).
     if pos div 80 \<ge> 24
     then let m = (\<lambda>i. if i < 23 * 80 then m (i + 80) else m i);
              pos = pos - 80
          in ((\<lambda>i. if pos \<le> i \<and> i < 24 * 80 then 0 else m i), pos)
     else (m, pos))"

definition cgaputc :: "u32 \<Rightarrow> ('x cons_st_scheme, unit) kern" where
  "cgaputc c = kmod (\<lambda>s.
     let (m, pos) = cga_scroll (cga_advance c (crt s, crt_pos s))
     in s\<lparr>crt := m(pos := 0x0720), crt_pos := pos\<rparr>)"

text \<open>A CPU that prints after another one panicked stops for ever.\<close>

definition consputc :: "u32 \<Rightarrow> ('x cons_st_scheme, unit) kern" where
  "consputc c = kbind (kget panicked) (\<lambda>dead.
     if dead then panic ''frozen''
     else kseq (if c = BACKSPACE
                then kseq (uartputc 8) (kseq (uartputc 32) (uartputc 8))
                else uartputc (ucast c))
          (cgaputc c))"

subsection \<open>Numbers\<close>

definition digits :: string where "digits = ''0123456789abcdef''"

text \<open>
  The loop that fills the buffer, least significant digit first. With a base below 2 the C
  loop divides by zero or does not end; all calls use 10 or 16.
\<close>

function fill_digits :: "nat \<Rightarrow> nat \<Rightarrow> nat list" where
  "fill_digits base x =
     (x mod base) # (if x div base = 0 \<or> base < 2 then [] else fill_digits base (x div base))"
  by pat_completeness auto
termination
proof (relation "measure snd")
  fix base x :: nat
  assume "\<not> (x div base = 0 \<or> base < 2)"
  then have "0 < x" "1 < base" by (auto intro: Nat.gr0I)
  then show "((base, x div base), base, x) \<in> measure snd" by simp
qed simp

declare fill_digits.simps [simp del]

definition printint_buf :: "u32 \<Rightarrow> nat \<Rightarrow> bool \<Rightarrow> string" where
  "printint_buf xx base sg =
     (let neg = sg \<and> sint xx < 0;
          x = (if neg then - xx else xx);
          buf = map (\<lambda>d. digits ! d) (fill_digits base (unat x))
      in if neg then buf @ [CHR ''-''] else buf)"

definition printint :: "u32 \<Rightarrow> nat \<Rightarrow> bool \<Rightarrow> ('x cons_st_scheme, unit) kern" where
  "printint xx base sg = kfor (rev (printint_buf xx base sg)) (\<lambda>c. consputc (of_char c))"

subsection \<open>Format strings\<close>

text \<open>
  The arguments on the stack: words, some of which are pointers to strings (null is \<open>None\<close>).
  Taking an argument the caller did not push, or one of the wrong kind, reads memory the
  model does not have.
\<close>

datatype parg = PInt u32 | PStr "string option"

definition putstr :: "string \<Rightarrow> ('x cons_st_scheme, unit) kern" where
  "putstr cs = kfor cs (\<lambda>c. consputc (of_char c))"

fun cprintf_loop :: "string \<Rightarrow> parg list \<Rightarrow> ('x cons_st_scheme, unit) kern" where
  "cprintf_loop [] args = kret ()"
| "cprintf_loop (c # fmt) args =
     (if c \<noteq> CHR ''%'' then kseq (consputc (of_char c)) (cprintf_loop fmt args)
      else case fmt of
          [] \<Rightarrow> kret ()
        | d # fmt' \<Rightarrow>
            if d = CHR ''d'' then
              (case args of PInt w # as \<Rightarrow> kseq (printint w 10 True) (cprintf_loop fmt' as)
               | _ \<Rightarrow> fault ''cprintf: argument'')
            else if d = CHR ''x'' \<or> d = CHR ''p'' then
              (case args of PInt w # as \<Rightarrow> kseq (printint w 16 False) (cprintf_loop fmt' as)
               | _ \<Rightarrow> fault ''cprintf: argument'')
            else if d = CHR ''s'' then
              (case args of
                 PStr (Some t) # as \<Rightarrow> kseq (putstr t) (cprintf_loop fmt' as)
               | PStr None # as \<Rightarrow> kseq (putstr ''(null)'') (cprintf_loop fmt' as)
               | _ \<Rightarrow> fault ''cprintf: argument'')
            else if d = CHR ''%'' then kseq (consputc (of_char CHR ''%'')) (cprintf_loop fmt' args)
            else kseq (consputc (of_char CHR ''%'')) (kseq (consputc (of_char d)) (cprintf_loop fmt' args)))"

definition cprintf :: "string \<Rightarrow> parg list \<Rightarrow> ('x cons_st_scheme, unit) kern" where
  "cprintf fmt args = kbind (kget cons_locking) (\<lambda>locking.
     kseq (kwhen locking (acquire ConsLock))
    (kseq (cprintf_loop fmt args)
     (kwhen locking (release ConsLock))))"

subsection \<open>What is printed\<close>

lemma consputc_ok:
  assumes "\<not> panicked s" "c \<noteq> BACKSPACE" "uart_on s"
  shows "\<exists>m pos. consputc c s
    = Ret () (s\<lparr>serial_out := serial_out s @ [ucast c], crt := m, crt_pos := pos\<rparr>)"
proof -
  let ?s = "s\<lparr>serial_out := serial_out s @ [ucast c]\<rparr>"
  have "\<exists>m pos. cgaputc c ?s = Ret () (?s\<lparr>crt := m, crt_pos := pos\<rparr>)"
    by (auto simp: cgaputc_def split: prod.split)
  with assms show ?thesis by (auto simp: consputc_def uartputc_def)
qed

lemma char_not_backspace: "of_char c \<noteq> BACKSPACE"
proof -
  have k: "unat (of_nat k :: u32) < 256" if "k < 256" for k using that by (simp add: unat_of_nat)
  have "unat (of_nat (of_char c) :: u32) < 256" by (rule k) simp
  then show ?thesis by (auto simp: BACKSPACE_def of_nat_of_char)
qed

lemma ucast_of_char: "ucast (of_char c :: u32) = (of_char c :: u8)"
proof -
  have "(of_char c :: u32) = of_nat (of_char c)" "(of_char c :: u8) = of_nat (of_char c)"
    by (rule of_nat_of_char [symmetric])+
  moreover have "take_bit 32 (of_char c :: nat) = of_char c"
    by (rule take_bit_nat_eq_self) (rule less_trans [of _ 256], simp_all)
  ultimately show ?thesis by (simp only: unsigned_of_nat) simp
qed

lemma putstr_ok:
  assumes "\<not> panicked s" "uart_on s"
  shows "\<exists>m pos. putstr cs s
    = Ret () (s\<lparr>serial_out := serial_out s @ map of_char cs, crt := m, crt_pos := pos\<rparr>)"
  using assms
proof (induction cs arbitrary: s)
  case Nil
  then show ?case
    by (intro exI [of _ "crt s"] exI [of _ "crt_pos s"]) (simp add: putstr_def)
next
  case (Cons c cs)
  obtain m pos where 1: "consputc (of_char c) s
      = Ret () (s\<lparr>serial_out := serial_out s @ [of_char c], crt := m, crt_pos := pos\<rparr>)"
    using consputc_ok [OF Cons.prems(1) char_not_backspace [of c] Cons.prems(2)]
    unfolding ucast_of_char by blast
  let ?s = "s\<lparr>serial_out := serial_out s @ [of_char c], crt := m, crt_pos := pos\<rparr>"
  obtain m' pos' where "putstr cs ?s
      = Ret () (?s\<lparr>serial_out := serial_out ?s @ map of_char cs, crt := m', crt_pos := pos'\<rparr>)"
    using Cons.IH [of ?s] Cons.prems by auto
  with 1 show ?case by (auto simp: putstr_def)
qed

subsection \<open>Digits\<close>

definition digit_value :: "char \<Rightarrow> nat" where
  "digit_value c = length (takeWhile (\<lambda>d. d \<noteq> c) digits)"

definition number_value :: "nat \<Rightarrow> string \<Rightarrow> int" where
  "number_value base cs =
     (let val = (\<lambda>ds. int (foldl (\<lambda>a c. base * a + digit_value c) 0 ds))
      in if cs \<noteq> [] \<and> hd cs = CHR ''-'' then - val (tl cs) else val cs)"

lemma digit_value_digits: "d < 16 \<Longrightarrow> digit_value (digits ! d) = d"
proof -
  have "list_all (\<lambda>d. digit_value (digits ! d) = d) [0..<16]" by code_simp
  then show "d < 16 \<Longrightarrow> digit_value (digits ! d) = d" by (simp only: list_all_iff) simp
qed

lemma digits_not_minus: "d < 16 \<Longrightarrow> digits ! d \<noteq> CHR ''-''"
proof -
  assume "d < 16"
  then have "digits ! d \<in> set digits" by (intro nth_mem) (simp add: digits_def)
  then show ?thesis by (auto simp: digits_def)
qed

lemma fill_digits_less: "2 \<le> base \<Longrightarrow> d \<in> set (fill_digits base x) \<Longrightarrow> d < base"
proof (induction base x rule: fill_digits.induct)
  case (1 base x)
  from "1.prems" have "d = x mod base \<or> (\<not> (x div base = 0 \<or> base < 2) \<and> d \<in> set (fill_digits base (x div base)))"
    by (subst (asm) fill_digits.simps) (auto split: if_splits)
  with 1 show ?case by auto
qed

lemma fill_digits_value: "2 \<le> base \<Longrightarrow> foldr (\<lambda>d a. base * a + d) (fill_digits base x) 0 = x"
proof (induction base x rule: fill_digits.induct)
  case (1 base x)
  then show ?case
    by (subst fill_digits.simps) (auto simp: div_eq_0_iff)
qed

lemma fill_digits_length:
  "2 \<le> base \<Longrightarrow> x < base ^ n \<Longrightarrow> 0 < n \<Longrightarrow> length (fill_digits base x) \<le> n"
proof (induction base x arbitrary: n rule: fill_digits.induct)
  case (1 base x)
  show ?case
  proof (cases "x div base = 0")
    case False
    from "1.prems"(3) obtain k where n: "n = Suc k" by (cases n) auto
    with "1.prems"(1,2) False have "k \<noteq> 0" by (cases k) (auto simp: div_eq_0_iff)
    with n have k: "n = Suc k" "0 < k" by simp_all
    moreover have "x div base < base ^ k"
      using "1.prems"(2) k by (simp add: less_mult_imp_div_less mult.commute)
    ultimately show ?thesis using 1 False by (subst fill_digits.simps) simp
  qed (use 1 in \<open>subst fill_digits.simps, simp\<close>)
qed

lemma uint_u32_less: "uint (w :: u32) < 4294967296"
proof -
  have "uint w < 2 ^ LENGTH(32)" by (rule unsigned_less)
  then show ?thesis by simp
qed

lemma sint_u32: "sint (w :: u32) = (if uint w < 2147483648 then uint w else uint w - 4294967296)"
proof -
  have s: "sint w = (uint w + 2147483648) mod 4294967296 - 2147483648"
    by (simp add: sint_uint signed_take_bit_eq_take_bit_shift take_bit_eq_mod)
  have b: "0 \<le> uint w" "uint w < 4294967296" using uint_u32_less by simp_all
  show ?thesis
  proof (cases "uint w < 2147483648")
    case False
    have "(uint w + 2147483648) mod 4294967296 = (uint w + 2147483648 - 4294967296) mod 4294967296"
      by (rule minus_mod_self2 [symmetric])
    also have "\<dots> = uint w + 2147483648 - 4294967296" using b False by (intro mod_pos_pos_trivial) simp_all
    finally show ?thesis using s False by simp
  qed (use s b in simp)
qed

lemma uint_minus_u32: "sint (w :: u32) < 0 \<Longrightarrow> int (unat (- w)) = - sint w"
proof -
  assume "sint w < 0"
  then have "\<not> uint w < 2147483648" "sint w = uint w - 4294967296"
    using unsigned_greater_eq [of w] by (auto simp: sint_u32 split: if_splits)
  moreover have "int (unat (- w)) = uint (- w)" by simp
  moreover have "uint (- w) = (- uint w) mod 4294967296" by (simp add: uint_word_ariths)
  moreover have "(- uint w) mod 4294967296 = (4294967296 - uint w) mod 4294967296" by simp
  moreover have "(4294967296 - uint w) mod 4294967296 = 4294967296 - uint w"
    using calculation(1) uint_u32_less [of w] by (intro mod_pos_pos_trivial) simp_all
  ultimately show ?thesis by linarith
qed

lemma digits_value:
  assumes "\<forall>d \<in> set ds. d < 16"
  shows "foldl (\<lambda>a c. base * a + digit_value c) 0 (rev (map (\<lambda>d. digits ! d) ds))
    = foldr (\<lambda>d a. base * a + d) ds 0"
  using assms unfolding foldl_conv_foldr rev_rev_ident
  by (induction ds) (auto simp: digit_value_digits)

lemma printint_value:
  assumes "base = 10 \<or> base = 16"
  shows "number_value base (rev (printint_buf xx base sg)) = (if sg then sint xx else uint xx)"
proof -
  define x where "x = (if sg \<and> sint xx < 0 then - xx else xx)"
  define ds where "ds = fill_digits base (unat x)"
  have "2 \<le> base" "base \<le> 16" using assms by auto
  then have lt: "\<forall>d \<in> set ds. d < 16" unfolding ds_def using fill_digits_less [of base] by fastforce
  have val: "foldl (\<lambda>a c. base * a + digit_value c) 0 (rev (map (\<lambda>d. digits ! d) ds)) = unat x"
    using digits_value [OF lt, of base] fill_digits_value [OF \<open>2 \<le> base\<close>, of "unat x"]
    by (simp add: ds_def)
  have "ds \<noteq> []" unfolding ds_def by (subst fill_digits.simps) simp
  then have "last ds \<in> set ds" by simp
  with lt \<open>ds \<noteq> []\<close> have hd: "hd (rev (map (\<lambda>d. digits ! d) ds)) \<noteq> CHR ''-''"
    by (simp add: hd_rev last_map digits_not_minus)
  show ?thesis
  proof (cases "sg \<and> sint xx < 0")
    case True
    then have "rev (printint_buf xx base sg) = CHR ''-'' # rev (map (\<lambda>d. digits ! d) ds)"
      by (simp add: printint_buf_def Let_def ds_def x_def)
    then show ?thesis
      using val True uint_minus_u32 [of xx] by (simp add: number_value_def Let_def x_def)
  next
    case False
    then have "rev (printint_buf xx base sg) = rev (map (\<lambda>d. digits ! d) ds)"
      by (auto simp: printint_buf_def Let_def ds_def x_def)
    moreover have "int (unat xx) = (if sg then sint xx else uint xx)"
      using False uint_u32_less [of xx] by (auto simp: sint_u32 split: if_splits)
    ultimately show ?thesis
      using val False hd by (simp add: number_value_def Let_def x_def)
  qed
qed

lemma printint_buf_length:
  assumes "base = 10 \<or> base = 16"
  shows "length (printint_buf xx base sg) \<le> 11"
proof -
  have "length (fill_digits base (unat w)) \<le> 10" for w :: u32
  proof (rule fill_digits_length)
    have "unat w < 2 ^ LENGTH(32)" by (rule unsigned_less)
    then show "unat w < base ^ 10" using assms by auto
  qed (use assms in auto)
  from this [of xx] this [of "- xx"] show ?thesis by (simp add: printint_buf_def Let_def)
qed

lemma cga_step_bounds:
  assumes "pos < 1920" "cga_scroll (cga_advance c (m, pos)) = (m', pos')"
  shows "pos' < 1920 \<and> (\<forall>i \<ge> 2000. m' i = m i)"
proof -
  have "pos mod 80 < 80" by simp
  moreover have "pos + 80 - pos mod 80 \<le> 1920"
  proof -
    have "pos div 80 \<le> 23" using assms(1) by (simp add: less_mult_imp_div_less)
    moreover have "pos - pos mod 80 = 80 * (pos div 80)" by (simp add: minus_mod_eq_mult_div)
    ultimately show ?thesis by (simp add: mod_less_eq_dividend)
  qed
  moreover have "x div 80 \<ge> 24 \<longleftrightarrow> x \<ge> 1920" for x :: nat by (simp add: less_eq_div_iff_mult_less_eq)
  ultimately show ?thesis
    using assms by (auto simp: cga_scroll_def cga_advance_def Let_def split: if_splits)
qed

subsection \<open>Properties\<close>

definition cons_sample :: cons_st where
  "cons_sample = \<lparr>held = [], cons_locking = True, panicked = False, uart_on = True, serial_out = [],
     crt = \<lambda>_. 0, crt_pos = 0\<rparr>"

text \<open>C21: \<open>printint\<close> in base 10 and 16 returns, sends a text that reads back as the number it was
  given (signed for \<open>%d\<close>, also for the smallest integer), and fills at most 11 of the
  16 bytes of its buffer.\<close>

theorem printint_correct:
  assumes "\<not> panicked s" "uart_on s" "base = 10 \<or> base = 16"
    and "txt = rev (printint_buf xx base sg)"
  shows "(\<exists>m pos. printint xx base sg s
      = Ret () (s\<lparr>serial_out := serial_out s @ map of_char txt, crt := m, crt_pos := pos\<rparr>))
    \<and> number_value base txt = (if sg then sint xx else uint xx)
    \<and> length (printint_buf xx base sg) \<le> 11"
  using putstr_ok [OF assms(1,2)] printint_value [OF assms(3)] printint_buf_length [OF assms(3)]
  unfolding assms(4) printint_def putstr_def by blast

theorem printint_correct_witness:
  "\<exists>m pos. printint (-42) 10 True cons_sample = Ret () (cons_sample\<lparr>serial_out := map of_char ''-42'',
     crt := m, crt_pos := pos\<rparr>)"
proof -
  have "''-42'' = rev (printint_buf (-42) 10 True)"
    by (simp add: printint_buf_def Let_def fill_digits.simps digits_def)
  then show ?thesis
    using printint_correct [of cons_sample 10 "''-42''" "-42" True] by (auto simp: cons_sample_def)
qed

text \<open>The cursor stays on the screen: from a position in the first 24 lines, \<open>cgaputc\<close> of any
  character leaves it there, and no cell outside the 80 by 25 screen is written.\<close>

lemma cgaputc_bounds:
  assumes "crt_pos s < 1920"
  shows "\<exists>m pos. cgaputc c s = Ret () (s\<lparr>crt := m, crt_pos := pos\<rparr>)
    \<and> pos < 1920 \<and> (\<forall>i. 2000 \<le> i \<longrightarrow> m i = crt s i)"
proof -
  obtain m pos where mp: "cga_scroll (cga_advance c (crt s, crt_pos s)) = (m, pos)"
    by (cases "cga_scroll (cga_advance c (crt s, crt_pos s))")
  then have "cgaputc c s = Ret () (s\<lparr>crt := m(pos := 0x0720), crt_pos := pos\<rparr>)"
    by (simp add: cgaputc_def)
  then show ?thesis
    using cga_step_bounds [OF assms mp]
    by (intro exI [of _ "m(pos := 0x0720)"] exI [of _ pos]) auto
qed

lemma cgaputc_bounds_witness:
  "\<exists>m pos. cgaputc 65 cons_sample = Ret () (cons_sample\<lparr>crt := m, crt_pos := pos\<rparr>) \<and> pos < 1920"
  using cgaputc_bounds [of cons_sample 65] by (auto simp: cons_sample_def)

end
