(* ===== verification/Kalloc.thy ===== *)
theory Kalloc
  imports Kstring Cprintf
begin

unbundle bit_operations_syntax

section \<open>kalloc.c: the physical page allocator\<close>

text \<open>
  The allocator of \<^verbatim>\<open>src/kalloc.c\<close>. Free pages form a linked list: the first word of a free
  page holds the address of the next one, \<open>freelist\<close> the address of the first. The state is
  kernel memory itself, so the list is read and written in the bytes of the pages. \<open>k_end\<close> is
  the linker's symbol \<open>end\<close>, the first address after the kernel image.

  The specification is a stack of pages: \<open>kfree\<close> pushes, \<open>kalloc\<close> pops, and the pages of
  the stack are distinct, aligned and inside physical memory. The locale \<open>page_allocator\<close>
  states that contract.
\<close>

declare mod_0_imp_dvd [rule del]

record kmem_st = cons_st +
  k_mem :: memory
  k_freelist :: u32
  k_use_lock :: bool
  k_end :: u32

definition kfree :: "u32 \<Rightarrow> ('x kmem_st_scheme, unit) kern" where
  "kfree v = kbind (kget k_end) (\<lambda>kend.
     if v mod PGSIZE \<noteq> 0 \<or> v < kend \<or> PHYSTOP \<le> v2p v then panic ''kfree''
     else
       kseq (kmod (\<lambda>s. s\<lparr>k_mem := memset (k_mem s) v 1 PGSIZE\<rparr>))
      (kbind (kget k_use_lock) (\<lambda>ul.
       kseq (kwhen ul (acquire KmemLock))
      (kseq (kmod (\<lambda>s. s\<lparr>k_mem := st32 (k_mem s) v (k_freelist s)\<rparr>))
      (kseq (kmod (\<lambda>s. s\<lparr>k_freelist := v\<rparr>))
       (kwhen ul (release KmemLock)))))))"

definition kalloc :: "('x kmem_st_scheme, u32) kern" where
  "kalloc = kbind (kget k_use_lock) (\<lambda>ul.
     kseq (kwhen ul (acquire KmemLock))
    (kbind (kget k_freelist) (\<lambda>r.
     kseq (kwhen (r \<noteq> 0) (kmod (\<lambda>s. s\<lparr>k_freelist := ld32 (k_mem s) r\<rparr>)))
    (kseq (kwhen ul (release KmemLock))
     (kret r)))))"

text \<open>
  The loop of \<open>freerange\<close>. A pointer that runs past the end of the address space is outside
  what C defines; up to there the loop ends because the pointer grows.
\<close>

function freerange_from :: "u32 \<Rightarrow> u32 \<Rightarrow> ('x kmem_st_scheme, unit) kern" where
  "freerange_from p vend =
     (if 2 ^ 32 \<le> unat p + unat PGSIZE then fault ''freerange: pointer overflow''
      else if p + PGSIZE \<le> vend then kseq (kfree p) (freerange_from (p + PGSIZE) vend)
      else kret ())"
  by pat_completeness auto
termination
proof (relation "measure (\<lambda>(p, vend). unat vend - unat p)")
  fix p vend :: u32
  assume "\<not> 2 ^ 32 \<le> unat p + unat PGSIZE" "p + PGSIZE \<le> vend"
  then have "unat (p + PGSIZE) = unat p + unat PGSIZE" "unat (p + PGSIZE) \<le> unat vend"
    by (simp_all add: unat_word_ariths word_le_nat_alt)
  then show "((p + PGSIZE, vend), p, vend) \<in> measure (\<lambda>(p, vend). unat vend - unat p)"
    by (simp add: PGSIZE_def)
qed simp

declare freerange_from.simps [simp del]

definition freerange :: "u32 \<Rightarrow> u32 \<Rightarrow> ('x kmem_st_scheme, unit) kern" where
  "freerange vstart vend = freerange_from (PGROUNDUP vstart) vend"

definition kinit1 :: "u32 \<Rightarrow> u32 \<Rightarrow> ('x kmem_st_scheme, unit) kern" where
  "kinit1 vstart vend = kseq (kmod (\<lambda>s. s\<lparr>held := removeAll KmemLock (held s)\<rparr>))
     (kseq (kmod (\<lambda>s. s\<lparr>k_use_lock := False\<rparr>)) (freerange vstart vend))"

definition kinit2 :: "u32 \<Rightarrow> u32 \<Rightarrow> ('x kmem_st_scheme, unit) kern" where
  "kinit2 vstart vend =
     kseq (freerange vstart vend) (kmod (\<lambda>s. s\<lparr>k_use_lock := True\<rparr>))"

subsection \<open>The free list as a list of pages\<close>

definition valid_page :: "'x kmem_st_scheme \<Rightarrow> u32 \<Rightarrow> bool" where
  "valid_page s v \<longleftrightarrow> v mod PGSIZE = 0 \<and> \<not> v < k_end s \<and> v2p v < PHYSTOP"

primrec chain :: "memory \<Rightarrow> u32 \<Rightarrow> u32 list \<Rightarrow> bool" where
  "chain m p [] \<longleftrightarrow> p = 0"
| "chain m p (q # qs) \<longleftrightarrow> p = q \<and> q \<noteq> 0 \<and> chain m (ld32 m q) qs"

definition kmem_inv :: "'x kmem_st_scheme \<Rightarrow> u32 list \<Rightarrow> bool" where
  "kmem_inv s ps \<longleftrightarrow> chain (k_mem s) (k_freelist s) ps \<and> distinct ps
     \<and> (\<forall>p \<in> set ps. valid_page s p)"

lemma valid_page_nonzero: "valid_page s v \<Longrightarrow> v \<noteq> 0"
  by (auto simp: valid_page_def v2p_def KERNBASE_def PHYSTOP_def)

lemma mod_eq_0_unat: "(v :: u32) mod n = 0 \<longleftrightarrow> unat v mod unat n = 0"
  by (metis unat_0 unat_eq_zero unat_mod)

lemma page_mod4:
  assumes "v mod PGSIZE = 0"
  shows "(v :: u32) mod 4 = 0"
proof -
  have "unat v mod 4096 = 0"
    using assms by (simp only: mod_eq_0_unat PGSIZE_def) simp
  then have "unat v mod 4 = 0"
    using mod_mod_cancel [of 4 4096 "unat v"] by simp
  then show ?thesis by (simp add: mod_eq_0_unat)
qed

lemma chain_unique: "chain m p ps \<Longrightarrow> chain m p qs \<Longrightarrow> ps = qs"
proof (induction ps arbitrary: p qs)
  case Nil
  then show ?case by (cases qs) auto
next
  case (Cons a ps)
  then show ?case by (cases qs) auto
qed

lemma chain_cong: "(\<And>q. q \<in> set ps \<Longrightarrow> ld32 m q = ld32 m' q) \<Longrightarrow> chain m p ps = chain m' p ps"
  by (induction ps arbitrary: p) auto

text \<open>Two different pages share no byte, and the first word of a page lies inside it.\<close>

lemma pages_disjoint:
  assumes "v mod PGSIZE = 0" "w mod PGSIZE = 0" "v \<noteq> w" "in_region v 4096 x"
  shows "\<not> in_region w 4096 x"
proof
  assume "in_region w 4096 x"
  with assms(4) obtain i j where ij: "i < 4096" "j < 4096" "v + of_nat i = w + of_nat j"
    by (metis in_regionE)
  have m: "unat (a + of_nat k) mod 4096 = k" if "a mod PGSIZE = 0" "k < 4096" for a :: u32 and k
  proof -
    have "unat a mod 4096 = 0" using that(1) by (simp only: mod_eq_0_unat PGSIZE_def) simp
    moreover have "unat (a + of_nat k) mod 4096 = (unat a + k) mod 4096"
      by (simp add: unat_word_ariths unat_of_nat mod_mod_cancel mod_simps)
    ultimately show ?thesis
      using that(2) by (simp add: mod_add_left_eq [of "unat a", symmetric])
  qed
  from m [OF assms(1) ij(1)] m [OF assms(2) ij(2)] ij(3) have "i = j" by simp
  with ij(3) assms(3) show False by simp
qed

lemma first_word_in_page: "i < 4 \<Longrightarrow> in_region v 4096 (v + of_nat i)"
  by (simp add: in_region_offset)

lemma unat_PGSIZE [simp]: "unat PGSIZE = 4096"
  by (simp add: PGSIZE_def)

text \<open>What \<open>kfree\<close> does to memory: junk in the page, the link in its first word.\<close>

definition kfree_mem :: "memory \<Rightarrow> u32 \<Rightarrow> u32 \<Rightarrow> memory" where
  "kfree_mem m v next = st32 (memset m v 1 PGSIZE) v next"

lemma kfree_mem_outside: "\<not> in_region v 4096 x \<Longrightarrow> kfree_mem m v n x = m x"
  unfolding kfree_mem_def
  by (subst st32_outside) (auto simp: memset_eq dest: first_word_in_page)

lemma kfree_mem_link [simp]: "ld32 (kfree_mem m v n) v = n"
  by (simp add: kfree_mem_def)

lemma ld32_kfree_mem_other:
  assumes "v mod PGSIZE = 0" "w mod PGSIZE = 0" "v \<noteq> w"
  shows "ld32 (kfree_mem m v n) w = ld32 m w"
proof (rule ld32_cong)
  fix i :: nat assume "i < 4"
  then have "in_region w 4096 (w + of_nat i)" by (rule first_word_in_page)
  then have "\<not> in_region v 4096 (w + of_nat i)"
    using assms pages_disjoint [of w v] by simp
  then show "kfree_mem m v n (w + of_nat i) = m (w + of_nat i)"
    by (rule kfree_mem_outside)
qed

lemma kfree_eq:
  assumes "valid_page s v" "KmemLock \<notin> set (held s)"
  shows "kfree v s = Ret () (s\<lparr>k_mem := kfree_mem (k_mem s) v (k_freelist s), k_freelist := v\<rparr>)"
  using assms by (cases "k_use_lock s") (auto simp: kfree_def valid_page_def kfree_mem_def)

lemma kfree_panics: "\<not> valid_page s v \<Longrightarrow> kfree v s = Panic ''kfree''"
  by (auto simp: kfree_def valid_page_def not_less)

lemma kalloc_eq:
  assumes "KmemLock \<notin> set (held s)"
  shows "kalloc s = Ret (k_freelist s)
    (if k_freelist s \<noteq> 0 then s\<lparr>k_freelist := ld32 (k_mem s) (k_freelist s)\<rparr> else s)"
  using assms by (cases "k_use_lock s"; cases "k_freelist s = 0") (simp_all add: kalloc_def)

lemma kmem_inv_kfree:
  assumes "kmem_inv s ps" "valid_page s v" "v \<notin> set ps"
  shows "kmem_inv (s\<lparr>k_mem := kfree_mem (k_mem s) v (k_freelist s), k_freelist := v\<rparr>) (v # ps)"
proof -
  have "chain (kfree_mem (k_mem s) v (k_freelist s)) (k_freelist s) ps"
    using assms by (subst chain_cong [where m' = "k_mem s"])
      (auto simp: kmem_inv_def valid_page_def intro!: ld32_kfree_mem_other)
  then show ?thesis
    using assms valid_page_nonzero [OF assms(2)] by (auto simp: kmem_inv_def valid_page_def)
qed

lemma kmem_inv_kalloc:
  assumes "kmem_inv s (p # ps)"
  shows "k_freelist s = p" "p \<noteq> 0" "kmem_inv (s\<lparr>k_freelist := ld32 (k_mem s) p\<rparr>) ps"
  using assms by (auto simp: kmem_inv_def valid_page_def)

lemma kmem_inv_Nil: "kmem_inv s [] \<longleftrightarrow> k_freelist s = 0"
  by (simp add: kmem_inv_def)

subsection \<open>The contract of a page allocator\<close>

text \<open>
  What \<open>vm.c\<close>, \<open>proc.c\<close> and \<open>pipe.c\<close> rely on. \<open>pages s ps\<close> says that \<open>ps\<close> are the
  free pages of \<open>s\<close> in allocation order; \<open>ready\<close> that the allocator may be called.
\<close>

locale page_allocator =
  fixes alloc :: "('s, u32) kern"
    and free :: "u32 \<Rightarrow> ('s, unit) kern"
    and pages :: "'s \<Rightarrow> u32 list \<Rightarrow> bool"
    and page_ok :: "'s \<Rightarrow> u32 \<Rightarrow> bool"
    and ready :: "'s \<Rightarrow> bool"
  assumes alloc_none: "ready s \<Longrightarrow> pages s [] \<Longrightarrow> alloc s = Ret 0 s"
    and alloc_some: "ready s \<Longrightarrow> pages s (p # ps)
      \<Longrightarrow> \<exists>t. alloc s = Ret p t \<and> pages t ps \<and> ready t \<and> (\<forall>q. page_ok t q = page_ok s q)"
    and free_push: "ready s \<Longrightarrow> pages s ps \<Longrightarrow> page_ok s p \<Longrightarrow> p \<notin> set ps
      \<Longrightarrow> \<exists>t. free p s = Ret () t \<and> pages t (p # ps) \<and> ready t \<and> (\<forall>q. page_ok t q = page_ok s q)"
    and pages_ok: "pages s ps \<Longrightarrow> distinct ps \<and> 0 \<notin> set ps \<and> (\<forall>p \<in> set ps. page_ok s p)"
begin

lemma alloc_result:
  assumes "ready s" "pages s ps" "alloc s = Ret p t"
  shows "if ps = [] then p = 0 else p = hd ps \<and> p \<noteq> 0 \<and> page_ok s p \<and> p \<notin> set (tl ps)"
proof (cases ps)
  case Nil
  with assms alloc_none show ?thesis by simp
next
  case (Cons q qs)
  with assms obtain u where "alloc s = Ret q u" using alloc_some by blast
  with assms Cons pages_ok [of s ps] show ?thesis by auto
qed

lemma alloc_twice_distinct:
  assumes "ready s" "pages s ps" "kbind alloc (\<lambda>p. kbind alloc (\<lambda>q. kret (p, q))) s = Ret (p, q) t"
    and "p \<noteq> 0"
  shows "p \<noteq> q"
proof (cases ps)
  case Nil
  with assms alloc_none show ?thesis by (auto simp: kbind_eq_Ret)
next
  case (Cons p' ps')
  with assms(1,2) obtain u where u: "alloc s = Ret p' u" "pages u ps'" "ready u"
    using alloc_some by blast
  with assms(3) have "p = p'" "alloc u = Ret q t" by (auto simp: kbind_eq_Ret)
  moreover have "p' \<notin> set ps'" "0 \<notin> set ps" using pages_ok [OF assms(2)] Cons by auto
  ultimately show ?thesis
    using alloc_result [OF u(3) u(2)] assms(4) by (cases ps') auto
qed

lemma free_alloc:
  assumes "ready s" "pages s ps" "page_ok s p" "p \<notin> set ps"
  shows "\<exists>t. kseq (free p) alloc s = Ret p t \<and> pages t ps \<and> ready t"
proof -
  obtain u where u: "free p s = Ret () u" "pages u (p # ps)" "ready u"
    using free_push [OF assms] by blast
  then obtain t where "alloc u = Ret p t" "pages t ps" "ready t" using alloc_some by blast
  with u show ?thesis by auto
qed

end

interpretation kpages: page_allocator kalloc kfree kmem_inv valid_page "\<lambda>s. KmemLock \<notin> set (held s)"
proof
  fix s :: "'a kmem_st_scheme" and p ps
  assume ready: "KmemLock \<notin> set (held s)"
  show "kmem_inv s [] \<Longrightarrow> kalloc s = Ret 0 s"
    using ready by (simp add: kalloc_eq kmem_inv_Nil)
  show "kmem_inv s (p # ps) \<Longrightarrow> \<exists>t. kalloc s = Ret p t \<and> kmem_inv t ps
      \<and> KmemLock \<notin> set (held t) \<and> (\<forall>q. valid_page t q = valid_page s q)"
    using ready kmem_inv_kalloc [of s p ps] by (simp add: kalloc_eq) (auto simp: valid_page_def)
  show "kmem_inv s ps \<Longrightarrow> valid_page s p \<Longrightarrow> p \<notin> set ps \<Longrightarrow>
      \<exists>t. kfree p s = Ret () t \<and> kmem_inv t (p # ps)
      \<and> KmemLock \<notin> set (held t) \<and> (\<forall>q. valid_page t q = valid_page s q)"
    using ready kmem_inv_kfree [of s ps p] by (simp add: kfree_eq) (auto simp: valid_page_def)
next
  fix s :: "'a kmem_st_scheme" and ps
  assume "kmem_inv s ps"
  then show "distinct ps \<and> 0 \<notin> set ps \<and> (\<forall>p\<in>set ps. valid_page s p)"
    using valid_page_nonzero by (auto simp: kmem_inv_def)
qed

subsection \<open>Filling the free list at boot\<close>

definition page_range :: "u32 \<Rightarrow> nat \<Rightarrow> u32 list" where
  "page_range p n = map (\<lambda>i. p + of_nat i * PGSIZE) [0..<n]"

lemma page_range_Suc: "page_range p (Suc n) = p # page_range (p + PGSIZE) n"
proof -
  have "map (\<lambda>i. p + of_nat i * PGSIZE) [1..<Suc n] = map (\<lambda>i. p + PGSIZE + of_nat i * PGSIZE) [0..<n]"
    by (simp add: map_Suc_upt [symmetric] algebra_simps del: upt_Suc)
  then show ?thesis
    unfolding page_range_def by (subst upt_conv_Cons) simp_all
qed

lemma page_range_0 [simp]: "page_range p 0 = []"
  by (simp add: page_range_def)

lemma valid_page_next:
  assumes "unat p + 4096 < 2 ^ 32" "p mod PGSIZE = 0"
  shows "(p + PGSIZE) mod PGSIZE = 0"
proof -
  have "unat (p + PGSIZE) = unat p + 4096" using assms(1) by (simp add: unat_word_ariths PGSIZE_def)
  moreover have "unat p mod 4096 = 0" using assms(2) by (simp only: mod_eq_0_unat PGSIZE_def) simp
  ultimately show ?thesis by (simp only: mod_eq_0_unat unat_PGSIZE mod_add_self2)
qed

lemma valid_page_below:
  assumes "p mod PGSIZE = 0" "\<not> p < k_end s" "KERNBASE \<le> k_end s" "unat p + 4096 \<le> 0x8E000000"
  shows "valid_page s p"
proof -
  have "unat KERNBASE \<le> unat p" using assms(2,3) by (simp add: word_less_nat_alt word_le_nat_alt)
  then have "unat (v2p p) = unat p - unat KERNBASE"
    unfolding v2p_def by (simp add: unat_sub_if')
  then have "unat (v2p p) < unat PHYSTOP" using assms(4) by (simp add: KERNBASE_def PHYSTOP_def)
  then show ?thesis using assms by (simp add: valid_page_def word_less_nat_alt)
qed

lemma div_step: "Suc n = (a - b) div 4096 \<Longrightarrow> b + 4096 \<le> a \<Longrightarrow> n = (a - (b + 4096)) div (4096 :: nat)"
  by (simp add: le_div_geq diff_diff_eq [symmetric] del: diff_diff_left)

lemma freerange_from_pages:
  assumes "p mod PGSIZE = 0" "\<not> p < k_end s" "KERNBASE \<le> k_end s"
    and "unat vend \<le> 0x8E000000" "n = (unat vend - unat p) div 4096"
    and "kmem_inv s ps" "\<forall>q \<in> set ps. q < p" "KmemLock \<notin> set (held s)" "unat p \<le> 0x8E000000"
  shows "\<exists>m f. freerange_from p vend s = Ret () (s\<lparr>k_mem := m, k_freelist := f\<rparr>)
    \<and> kmem_inv (s\<lparr>k_mem := m, k_freelist := f\<rparr>) (rev (page_range p n) @ ps)"
  using assms
proof (induction n arbitrary: p s ps)
  case 0
  then have "unat vend < unat p + 4096" by (simp add: div_eq_0_iff)
  moreover have "unat (p + PGSIZE) = unat p + 4096" using 0(9) by (simp add: unat_word_ariths PGSIZE_def)
  ultimately have "\<not> p + PGSIZE \<le> vend" by (simp add: word_le_nat_alt)
  then have "freerange_from p vend s = Ret () s"
    using 0(9) by (subst freerange_from.simps) (simp add: PGSIZE_def)
  then show ?case using 0(6) by (intro exI [of _ "k_mem s"] exI [of _ "k_freelist s"]) simp
next
  case (Suc n)
  then have le: "unat p + 4096 \<le> unat vend" by (cases "unat p + 4096 \<le> unat vend") auto
  have un: "unat (p + PGSIZE) = unat p + 4096"
    using Suc.prems(9) by (simp add: unat_word_ariths PGSIZE_def)
  have vp: "valid_page s p" using Suc.prems(1-4) le by (intro valid_page_below) simp_all
  let ?s = "s\<lparr>k_mem := kfree_mem (k_mem s) p (k_freelist s), k_freelist := p\<rparr>"
  have inv: "kmem_inv ?s (p # ps)"
    using Suc.prems(6,7) vp by (intro kmem_inv_kfree) auto
  have "freerange_from p vend s = freerange_from (p + PGSIZE) vend ?s"
    using le un Suc.prems(4,8) vp
    by (subst freerange_from.simps) (simp add: kfree_eq word_le_nat_alt)
  moreover have "\<exists>m f. freerange_from (p + PGSIZE) vend ?s = Ret () (?s\<lparr>k_mem := m, k_freelist := f\<rparr>)
    \<and> kmem_inv (?s\<lparr>k_mem := m, k_freelist := f\<rparr>) (rev (page_range (p + PGSIZE) n) @ p # ps)"
  proof (rule Suc.IH)
    show "(p + PGSIZE) mod PGSIZE = 0" using Suc.prems(1,9) by (intro valid_page_next) simp_all
    show "n = (unat vend - unat (p + PGSIZE)) div 4096"
      unfolding un by (rule div_step) (use Suc.prems(5) le in simp_all)
    show "\<forall>q \<in> set (p # ps). q < p + PGSIZE"
      using Suc.prems(7) un by (auto simp: word_less_nat_alt)
    show "\<not> p + PGSIZE < k_end ?s" using Suc.prems(2) un by (simp add: word_less_nat_alt)
    show "unat (p + PGSIZE) \<le> 0x8E000000" using le un Suc.prems(4) by simp
  qed (use Suc.prems inv in simp_all)
  ultimately show ?case by (simp add: page_range_Suc)
qed

lemma aligned_low_bits:
  assumes "(x :: u32) mod PGSIZE = 0" "n < 12"
  shows "\<not> bit x n"
proof -
  have e: "(2 :: u32) ^ 12 = PGSIZE" by (simp add: PGSIZE_def)
  have "take_bit 12 x = 0" unfolding take_bit_eq_mod e by (rule assms(1))
  then have "\<not> bit (take_bit 12 x) n" by simp
  with assms(2) show ?thesis by (simp add: bit_simps)
qed

lemma page_mask: "PGSIZE - 1 = mask 12" "(0xFFF :: u32) = mask 12"
  by (simp_all add: PGSIZE_def mask_eq_exp_minus_1)

lemma PGROUNDUP_aligned:
  assumes "v mod PGSIZE = 0"
  shows "PGROUNDUP v = v"
proof -
  have "v AND mask 12 = 0"
    by (rule bit_word_eqI) (use aligned_low_bits [OF assms] in \<open>auto simp: bit_simps\<close>)
  then have "v + mask 12 = v OR mask 12"
    by (simp add: disjunctive_add_eq_or)
  moreover have "v + PGSIZE - 1 = v + mask 12" using page_mask(1) by (simp add: add_diff_eq [symmetric])
  ultimately have "PGROUNDUP v = (v OR mask 12) AND NOT (mask 12)"
    by (simp only: PGROUNDUP_def page_mask(1))
  also have "\<dots> = v"
  proof (rule bit_word_eqI)
    fix n show "bit ((v OR mask 12) AND NOT (mask 12)) n = bit v n" if "n < LENGTH(32)"
      using that aligned_low_bits [OF assms, of n] by (cases "n < 12") (auto simp: bit_simps)
  qed
  finally show ?thesis .
qed

subsection \<open>Properties\<close>

text \<open>A kernel image that ends at 4 MB with no free page yet.\<close>

definition kmem_sample :: kmem_st where
  "kmem_sample = \<lparr>held = [], cons_locking = True, panicked = False, uart_on = True, serial_out = [],
     crt = \<lambda>_. 0, crt_pos = 0, k_mem = \<lambda>_. 0, k_freelist = 0, k_use_lock = False,
     k_end = 0x80400000\<rparr>"

text \<open>C9: Page allocation is a stack of distinct pages: the page given by a successful \<open>kfree\<close>
  is the next one \<open>kalloc\<close> returns, with the pages below it still free in their order, and
  two allocations in a row never return the same page.\<close>

theorem kalloc_stack:
  assumes "KmemLock \<notin> set (held s)" "kmem_inv s ps" "valid_page s p" "p \<notin> set ps"
  shows "(\<exists>t. kseq (kfree p) kalloc s = Ret p t \<and> kmem_inv t ps)
    \<and> (\<forall>q r t. kbind kalloc (\<lambda>q. kbind kalloc (\<lambda>r. kret (q, r))) s = Ret (q, r) t \<longrightarrow> q = 0 \<or> q \<noteq> r)"
  using kpages.free_alloc [OF assms] kpages.alloc_twice_distinct [OF assms(1,2)] by blast

theorem kalloc_stack_witness:
  "\<exists>t. kseq (kfree 0x80500000) kalloc kmem_sample = Ret 0x80500000 t \<and> kmem_inv t []"
proof -
  have "valid_page kmem_sample 0x80500000"
    by (simp add: valid_page_def kmem_sample_def PGSIZE_def v2p_def KERNBASE_def PHYSTOP_def)
  moreover have "kmem_inv kmem_sample []" "KmemLock \<notin> set (held kmem_sample)"
    by (simp_all add: kmem_inv_def kmem_sample_def)
  ultimately show ?thesis using kalloc_stack [of kmem_sample "[]" "0x80500000"] by simp
qed



end
