(* ===== verification/Vm.thy ===== *)
theory Vm
  imports Kalloc
begin

unbundle bit_operations_syntax

section \<open>vm.c: page tables\<close>

text \<open>
  The page table code of \<^verbatim>\<open>src/vm.c\<close> on the bytes of kernel memory. A page directory is a page of
  1024 words, each of which may point to a page table of 1024 words, and the operations read
  and write those words. \<open>pt_lookup\<close> reads a table the way the hardware does and is what the
  specifications speak about: \<open>mappages\<close> extends the map it defines, \<open>walkpgdir\<close> never
  changes it. \<open>vm_data\<close> is the linker's symbol \<open>data\<close>; \<open>cr3\<close> is the page table register and
  \<open>ts_esp0\<close> the stack of the task state segment.

  The parts of \<^verbatim>\<open>src/vm.c\<close> that take a process (\<open>switchuvm\<close>) or an inode (\<open>loaduvm\<close>) are in the
  theories of those components.
\<close>

record vm_st = kmem_st +
  vm_data :: u32
  kpgdir :: u32
  cr3 :: u32
  ts_esp0 :: u32
  ts_ss0 :: u16

definition kload32 :: "u32 \<Rightarrow> ('x kmem_st_scheme, u32) kern" where
  "kload32 a = kget (\<lambda>s. ld32 (k_mem s) a)"

definition kstore32 :: "u32 \<Rightarrow> u32 \<Rightarrow> ('x kmem_st_scheme, unit) kern" where
  "kstore32 a v = kmod (\<lambda>s. s\<lparr>k_mem := st32 (k_mem s) a v\<rparr>)"

definition kmemset :: "u32 \<Rightarrow> u32 \<Rightarrow> u32 \<Rightarrow> ('x kmem_st_scheme, unit) kern" where
  "kmemset dst c n = kmod (\<lambda>s. s\<lparr>k_mem := memset (k_mem s) dst c n\<rparr>)"

definition kmemmove :: "u32 \<Rightarrow> u32 \<Rightarrow> u32 \<Rightarrow> ('x kmem_st_scheme, unit) kern" where
  "kmemmove dst src n = kmod (\<lambda>s. s\<lparr>k_mem := memmove (k_mem s) dst src n\<rparr>)"

lemmas kaccess_defs = kload32_def kstore32_def kmemset_def kmemmove_def

lemma kaccess_apply [simp]:
  "kload32 a s = Ret (ld32 (k_mem s) a) s"
  "kstore32 a v s = Ret () (s\<lparr>k_mem := st32 (k_mem s) a v\<rparr>)"
  "kmemset dst c n s = Ret () (s\<lparr>k_mem := memset (k_mem s) dst c n\<rparr>)"
  "kmemmove dst src n s = Ret () (s\<lparr>k_mem := memmove (k_mem s) dst src n\<rparr>)"
  by (simp_all add: kaccess_defs)

subsection \<open>Page arithmetic\<close>

lemma PGROUNDDOWN_shift: "PGROUNDDOWN va = push_bit 12 (drop_bit 12 va)"
  unfolding PGROUNDDOWN_def page_mask by (rule bit_word_eqI) (auto simp: bit_simps)

lemma page_split: "PGROUNDDOWN va + take_bit 12 va = va"
  by (simp add: PGROUNDDOWN_shift bits_ident)

lemma page_offset: "va - PGROUNDDOWN va = take_bit 12 va"
  using page_split [of va] by (simp add: diff_eq_eq add.commute)

lemma page_offset_less: "va - PGROUNDDOWN va < PGSIZE"
proof -
  have "unat (take_bit 12 va) = unat va mod 4096"
    by (simp add: take_bit_eq_mod unat_mod)
  then show ?thesis
    unfolding page_offset word_less_nat_alt by (simp add: PGSIZE_def)
qed

lemma shrink_len:
  assumes "n \<noteq> 0" "n \<le> len"
  shows "unat (len - n) < unat (len :: u32)"
proof -
  have "0 < unat n" using assms(1) by (simp add: unat_gt_0)
  moreover have "unat n \<le> unat len" using assms(2) by (simp add: word_le_nat_alt)
  ultimately show ?thesis using assms(2) by (simp only: unat_sub)
qed
subsection \<open>Walking and extending a table\<close>

text \<open>A null result of \<open>walkpgdir\<close> is the address 0.\<close>

definition walkpgdir :: "u32 \<Rightarrow> u32 \<Rightarrow> bool \<Rightarrow> ('x kmem_st_scheme, u32) kern" where
  "walkpgdir pgdir va alloc =
     (let pde = pgdir + 4 * PDX va in
      kbind (kload32 pde) (\<lambda>e.
      if e AND PTE_P \<noteq> 0 then kret (p2v (PTE_ADDR e) + 4 * PTX va)
      else if \<not> alloc then kret 0
      else kbind kalloc (\<lambda>pgtab.
        if pgtab = 0 then kret 0
        else kseq (kmemset pgtab 0 PGSIZE)
            (kseq (kstore32 pde (v2p pgtab OR PTE_P OR PTE_W OR PTE_U))
             (kret (pgtab + 4 * PTX va))))))"

text \<open>
  The loop of \<open>mappages\<close>. The first argument bounds the number of further turns; from \<open>a\<close> the
  loop reaches \<open>last\<close> after \<open>(last - a) / PGSIZE\<close> turns because both are multiples of the
  page size, so the bound is never reached.
\<close>

fun mappages_from :: "nat \<Rightarrow> u32 \<Rightarrow> u32 \<Rightarrow> u32 \<Rightarrow> u32 \<Rightarrow> u32 \<Rightarrow> ('x kmem_st_scheme, int) kern" where
  "mappages_from fuel pgdir a lst pa perm =
     kbind (walkpgdir pgdir a True) (\<lambda>pte.
       if pte = 0 then kret (-1)
       else kbind (kload32 pte) (\<lambda>e.
         if e AND PTE_P \<noteq> 0 then panic ''remap''
         else kseq (kstore32 pte (pa OR perm OR PTE_P))
           (if a = lst then kret 0
            else case fuel of
                0 \<Rightarrow> fault ''mappages: bound''
              | Suc n \<Rightarrow> mappages_from n pgdir (a + PGSIZE) lst (pa + PGSIZE) perm)))"

declare mappages_from.simps [simp del]

definition mappages :: "u32 \<Rightarrow> u32 \<Rightarrow> u32 \<Rightarrow> u32 \<Rightarrow> u32 \<Rightarrow> ('x kmem_st_scheme, int) kern" where
  "mappages pgdir va siz pa perm =
     (let a = PGROUNDDOWN va; lst = PGROUNDDOWN (va + siz - 1)
      in mappages_from (unat (lst - a) div 4096) pgdir a lst pa perm)"

subsection \<open>Kernel page tables\<close>

record kmap_entry =
  km_virt :: u32
  km_phys_start :: u32
  km_phys_end :: u32
  km_perm :: u32

definition kmap :: "u32 \<Rightarrow> kmap_entry list" where
  "kmap data =
    [\<lparr>km_virt = KERNBASE, km_phys_start = 0, km_phys_end = EXTMEM, km_perm = PTE_W\<rparr>,
     \<lparr>km_virt = KERNLINK, km_phys_start = v2p KERNLINK, km_phys_end = v2p data, km_perm = 0\<rparr>,
     \<lparr>km_virt = data, km_phys_start = v2p data, km_phys_end = PHYSTOP, km_perm = PTE_W\<rparr>,
     \<lparr>km_virt = DEVSPACE, km_phys_start = DEVSPACE, km_phys_end = 0, km_perm = PTE_W\<rparr>]"

fun map_kernel :: "kmap_entry list \<Rightarrow> u32 \<Rightarrow> ('x kmem_st_scheme, u32) kern" where
  "map_kernel [] pgdir = kret pgdir"
| "map_kernel (k # ks) pgdir =
     kbind (mappages pgdir (km_virt k) (km_phys_end k - km_phys_start k) (km_phys_start k) (km_perm k))
       (\<lambda>r. if r < 0 then kret 0 else map_kernel ks pgdir)"

definition setupkvm :: "('x vm_st_scheme, u32) kern" where
  "setupkvm = kbind kalloc (\<lambda>pgdir.
     if pgdir = 0 then kret 0
     else kseq (kmemset pgdir 0 PGSIZE)
       (if p2v PHYSTOP > DEVSPACE then panic ''PHYSTOP too high''
        else kbind (kget vm_data) (\<lambda>d. map_kernel (kmap d) pgdir)))"

definition switchkvm :: "('x vm_st_scheme, unit) kern" where
  "switchkvm = kmod (\<lambda>s. s\<lparr>cr3 := v2p (kpgdir s)\<rparr>)"

definition kvmalloc :: "('x vm_st_scheme, unit) kern" where
  "kvmalloc = kbind setupkvm (\<lambda>d. kseq (kmod (\<lambda>s. s\<lparr>kpgdir := d\<rparr>)) switchkvm)"

subsection \<open>User page tables\<close>

definition inituvm :: "u32 \<Rightarrow> u32 \<Rightarrow> u32 \<Rightarrow> ('x vm_st_scheme, unit) kern" where
  "inituvm pgdir init sz =
     (if sz \<ge> PGSIZE then panic ''inituvm: more than a page''
      else kbind kalloc (\<lambda>mem.
        if mem = 0 then fault ''inituvm: null page''
        else kseq (kmemset mem 0 PGSIZE)
            (kseq (mappages pgdir 0 PGSIZE (v2p mem) (PTE_W OR PTE_U))
             (kmemmove mem init sz))))"

text \<open>
  \<open>deallocuvm\<close>. The counter \<open>a\<close> is a \<open>uint\<close>; the loop ends because it grows, as long as it
  does not pass the end of the address space (\<open>oldsz\<close> is at most \<open>KERNBASE\<close> in all callers).
\<close>

function deallocuvm_from :: "u32 \<Rightarrow> u32 \<Rightarrow> u32 \<Rightarrow> ('x kmem_st_scheme, unit) kern" where
  "deallocuvm_from pgdir a oldsz =
     (if \<not> a < oldsz then kret ()
      else kbind (walkpgdir pgdir a False) (\<lambda>pte.
        if pte = 0
        then (let b = a + 1023 * PGSIZE + PGSIZE
              in if b \<le> a then fault ''deallocuvm: wrap'' else deallocuvm_from pgdir b oldsz)
        else kbind (kload32 pte) (\<lambda>e.
          kseq (if e AND PTE_P \<noteq> 0
                then (let pa = PTE_ADDR e
                      in if pa = 0 then panic ''kfree''
                         else kseq (kfree (p2v pa)) (kstore32 pte 0))
                else kret ())
            (let b = a + PGSIZE
             in if b \<le> a then fault ''deallocuvm: wrap'' else deallocuvm_from pgdir b oldsz))))"
  by pat_completeness auto
termination
  by (relation "measure (\<lambda>(_, a, oldsz). unat oldsz - unat a)")
    (auto simp: word_less_nat_alt word_le_nat_alt not_le intro!: diff_less_mono2)

declare deallocuvm_from.simps [simp del]

definition deallocuvm :: "u32 \<Rightarrow> u32 \<Rightarrow> u32 \<Rightarrow> ('x kmem_st_scheme, u32) kern" where
  "deallocuvm pgdir oldsz newsz =
     (if newsz \<ge> oldsz then kret oldsz
      else kseq (deallocuvm_from pgdir (PGROUNDUP newsz) oldsz) (kret newsz))"

text \<open>
  The loop of \<open>allocuvm\<close>. The result of \<open>mappages\<close> is dropped, as in the source.
\<close>

function allocuvm_from :: "u32 \<Rightarrow> u32 \<Rightarrow> u32 \<Rightarrow> u32 \<Rightarrow> ('x vm_st_scheme, u32) kern" where
  "allocuvm_from pgdir a oldsz newsz =
     (if \<not> a < newsz then kret newsz
      else kbind kalloc (\<lambda>mem.
        if mem = 0
        then kseq (cprintf (''allocuvm out of memory'' @ [CHR 0x0A]) [])
            (kseq (deallocuvm pgdir newsz oldsz) (kret 0))
        else kseq (kmemset mem 0 PGSIZE)
            (kseq (mappages pgdir a PGSIZE (v2p mem) (PTE_W OR PTE_U))
             (if a + PGSIZE \<le> a then fault ''allocuvm: wrap''
              else allocuvm_from pgdir (a + PGSIZE) oldsz newsz))))"
  by pat_completeness auto
termination
  by (relation "measure (\<lambda>(_, a, _, newsz). unat newsz - unat a)")
    (auto simp: word_less_nat_alt word_le_nat_alt not_le intro!: diff_less_mono2)

declare allocuvm_from.simps [simp del]

definition allocuvm :: "u32 \<Rightarrow> u32 \<Rightarrow> u32 \<Rightarrow> ('x vm_st_scheme, u32) kern" where
  "allocuvm pgdir oldsz newsz =
     (if newsz \<ge> KERNBASE then kret 0
      else if newsz < oldsz then kret oldsz
      else allocuvm_from pgdir (PGROUNDUP oldsz) oldsz newsz)"

definition freevm :: "u32 \<Rightarrow> ('x kmem_st_scheme, unit) kern" where
  "freevm pgdir =
     (if pgdir = 0 then panic ''freevm: no pgdir''
      else kseq (deallocuvm pgdir KERNBASE 0)
          (kseq (kfor [0..<NPDENTRIES] (\<lambda>i.
              kbind (kload32 (pgdir + 4 * of_nat i)) (\<lambda>e.
                kwhen (e AND PTE_P \<noteq> 0) (kfree (p2v (PTE_ADDR e))))))
           (kfree pgdir)))"

definition clearpteu :: "u32 \<Rightarrow> u32 \<Rightarrow> ('x kmem_st_scheme, unit) kern" where
  "clearpteu pgdir uva = kbind (walkpgdir pgdir uva False) (\<lambda>pte.
     if pte = 0 then panic ''clearpteu''
     else kbind (kload32 pte) (\<lambda>e. kstore32 pte (e AND NOT PTE_U)))"

text \<open>\<open>copyuvm\<close>: the loop copies one page per turn and answers whether it came to the end.\<close>

function copyuvm_from :: "u32 \<Rightarrow> u32 \<Rightarrow> u32 \<Rightarrow> u32 \<Rightarrow> ('x kmem_st_scheme, bool) kern" where
  "copyuvm_from pgdir d i sz =
     (if \<not> i < sz then kret True
      else kbind (walkpgdir pgdir i False) (\<lambda>pte.
        if pte = 0 then panic ''copyuvm: pte should exist''
        else kbind (kload32 pte) (\<lambda>e.
          if e AND PTE_P = 0 then panic ''copyuvm: page not present''
          else kbind kalloc (\<lambda>mem.
            if mem = 0 then kret False
            else kseq (kmemmove mem (p2v (PTE_ADDR e)) PGSIZE)
                (kbind (mappages d i PGSIZE (v2p mem) (PTE_FLAGS e)) (\<lambda>r.
                   if r < 0 then kret False
                   else if i + PGSIZE \<le> i then fault ''copyuvm: wrap''
                   else copyuvm_from pgdir d (i + PGSIZE) sz))))))"
  by pat_completeness auto
termination
  by (relation "measure (\<lambda>(_, _, i, sz). unat sz - unat i)")
    (auto simp: word_less_nat_alt word_le_nat_alt not_le intro!: diff_less_mono2)

declare copyuvm_from.simps [simp del]

definition copyuvm :: "u32 \<Rightarrow> u32 \<Rightarrow> ('x vm_st_scheme, u32) kern" where
  "copyuvm pgdir sz = kbind setupkvm (\<lambda>d.
     if d = 0 then kret 0
     else kbind (copyuvm_from pgdir d 0 sz) (\<lambda>ok.
       if ok then kret d else kseq (freevm d) (kret 0)))"

definition uva2ka :: "u32 \<Rightarrow> u32 \<Rightarrow> ('x kmem_st_scheme, u32) kern" where
  "uva2ka pgdir uva = kbind (walkpgdir pgdir uva False) (\<lambda>pte.
     if pte = 0 then fault ''uva2ka: null pte''
     else kbind (kload32 pte) (\<lambda>e.
       kret (if e AND PTE_P = 0 then 0 else if e AND PTE_U = 0 then 0 else p2v (PTE_ADDR e))))"

text \<open>
  \<open>copyout\<close>: \<open>rd k n\<close> reads \<open>n\<close> bytes of the source from offset \<open>k\<close>, from a variable of the
  caller or from its address space; \<open>r\<close> bytes are left and every turn copies at least one.
\<close>

definition mem_write :: "memory \<Rightarrow> u32 \<Rightarrow> u8 list \<Rightarrow> memory" where
  "mem_write m a bs = (\<lambda>x. if in_region a (length bs) x then bs ! unat (x - a) else m x)"

definition kwrite :: "u32 \<Rightarrow> u8 list \<Rightarrow> ('x kmem_st_scheme, unit) kern" where
  "kwrite a bs = kmod (\<lambda>s. s\<lparr>k_mem := mem_write (k_mem s) a bs\<rparr>)"

function copyout :: "u32 \<Rightarrow> u32 \<Rightarrow> (nat \<Rightarrow> nat \<Rightarrow> ('x kmem_st_scheme, u8 list) kern) \<Rightarrow> nat \<Rightarrow> nat \<Rightarrow> ('x kmem_st_scheme, int) kern" where
  "copyout pgdir va rd k r =
     (if r = 0 then kret 0
      else let va0 = PGROUNDDOWN va in
        kbind (uva2ka pgdir va0) (\<lambda>pa0.
          if pa0 = 0 then kret (-1)
          else let n = min (unat (PGSIZE - (va - va0))) r in
            kbind (rd k n) (\<lambda>bs.
            kseq (kwrite (pa0 + (va - va0)) bs)
              (copyout pgdir (va0 + PGSIZE) rd (k + n) (r - n)))))"
  by pat_completeness auto
termination
proof (relation "measure (\<lambda>(_, _, _, _, r). r)")
  fix pgdir va va0 pa0 :: u32 and rd :: "nat \<Rightarrow> nat \<Rightarrow> ('x kmem_st_scheme, u8 list) kern" and n k r bs
  assume "r \<noteq> 0" "va0 = PGROUNDDOWN va" "n = min (unat (PGSIZE - (va - va0))) r"
  moreover have "unat (PGSIZE - (va - PGROUNDDOWN va)) \<noteq> 0"
    using page_offset_less [of va] by (auto simp: unat_eq_0)
  ultimately show "((pgdir, va0 + PGSIZE, rd, k + n, r - n), pgdir, va, rd, k, r) \<in> measure (\<lambda>(_, _, _, _, r). r)"
    by auto
qed simp

declare copyout.simps [simp del]

subsection \<open>Entries of table pages\<close>

text \<open>Entry \<open>i\<close> of the table page \<open>p\<close>. Entries of aligned pages are words that never overlap.\<close>

abbreviation entry_addr :: "u32 \<Rightarrow> u32 \<Rightarrow> u32" where
  "entry_addr p i \<equiv> p + 4 * i"

lemma unat_entry_offset: "i < 1024 \<Longrightarrow> unat (4 * i :: u32) = 4 * unat i"
  by (simp add: word_less_nat_alt unat_word_ariths)

lemma entry_in_page:
  assumes "i < 1024" "k < 4"
  shows "in_region p 4096 (entry_addr p i + of_nat k)"
proof -
  have eq: "entry_addr p i + of_nat k = p + of_nat (4 * unat i + k)" by simp
  have "4 * unat i + k < 4096" using assms by (simp add: word_less_nat_alt)
  then show ?thesis unfolding eq by (subst in_region_offset) simp_all
qed

lemma entry_in_page0: "i < 1024 \<Longrightarrow> in_region p 4096 (entry_addr p i)"
  using entry_in_page [of i 0 p] by simp

lemma entry_aligned:
  assumes "p mod PGSIZE = 0"
  shows "entry_addr p i mod 4 = 0"
proof -
  have c: "(x :: nat) mod 4294967296 mod 4 = x mod 4" for x by (rule mod_mod_cancel) simp
  have p: "unat p mod 4 = 0" using page_mod4 [OF assms] by (simp only: mod_eq_0_unat) simp
  have "unat (entry_addr p i) mod 4 = (unat p + (4 * unat i) mod 4294967296) mod 4294967296 mod 4"
    by (simp only: unat_word_ariths) simp
  also have "\<dots> = (unat p + (4 * unat i) mod 4294967296) mod 4" by (rule c)
  also have "\<dots> = (unat p mod 4 + (4 * unat i) mod 4294967296 mod 4) mod 4"
    by (rule mod_add_eq [symmetric])
  also have "\<dots> = 0" unfolding c p by simp
  finally show ?thesis by (simp only: mod_eq_0_unat) simp
qed

lemma entry_eq_iff:
  assumes "p mod PGSIZE = 0" "q mod PGSIZE = 0" "i < 1024" "j < 1024"
  shows "entry_addr p i = entry_addr q j \<longleftrightarrow> p = q \<and> i = j"
proof
  assume eq: "entry_addr p i = entry_addr q j"
  then have "p = q"
    using pages_disjoint [OF assms(1,2), of "entry_addr p i"] entry_in_page0 assms(3,4) by metis
  with eq have "unat (4 * i) = unat (4 * j)" by simp
  then have "unat i = unat j" using assms(3,4) by (simp add: unat_entry_offset)
  then have "i = j" by (rule unsigned_word_eqI)
  with \<open>p = q\<close> show "p = q \<and> i = j" by simp
qed simp

lemma ld32_st32_entry:
  assumes "p mod PGSIZE = 0" "q mod PGSIZE = 0" "i < 1024" "j < 1024"
  shows "ld32 (st32 m (entry_addr p i) w) (entry_addr q j)
    = (if p = q \<and> i = j then w else ld32 m (entry_addr q j))"
  using entry_eq_iff [OF assms] assms
  by (auto simp: ld32_st32_other entry_aligned)

lemma ld32_memset_entry:
  assumes "p mod PGSIZE = 0" "q mod PGSIZE = 0" "j < 1024"
  shows "ld32 (memset m p 0 PGSIZE) (entry_addr q j) = (if p = q then 0 else ld32 m (entry_addr q j))"
proof (cases "p = q")
  case True
  have "ld32 (memset m p 0 PGSIZE) (entry_addr q j) = ld32 (\<lambda>_. 0) (entry_addr q j)"
    using True assms(3) by (intro ld32_cong) (simp add: memset_eq entry_in_page)
  then show ?thesis using True by (simp add: ld32_def le32_def)
next
  case False
  have "\<not> in_region p 4096 (entry_addr q j + of_nat k)" if "k < 4" for k
    using pages_disjoint [OF assms(2,1)] entry_in_page [OF assms(3) that] False by blast
  then have "ld32 (memset m p 0 PGSIZE) (entry_addr q j) = ld32 m (entry_addr q j)"
    by (intro ld32_cong) (simp add: memset_eq)
  then show ?thesis using False by simp
qed

lemma PDX_less [simp]: "PDX va < 1024" and PTX_less [simp]: "PTX va < 1024"
proof -
  have "w AND 0x3FF < 1024" for w :: u32
  proof -
    have "w AND 0x3FF = take_bit 10 w" by (simp add: take_bit_eq_mask mask_eq_exp_minus_1)
    then show ?thesis by (simp add: take_bit_eq_mod word_less_nat_alt unat_mod)
  qed
  then show "PDX va < 1024" "PTX va < 1024" by (simp_all add: PDX_def PTX_def)
qed

lemma same_page_iff: "PDX va = PDX vb \<and> PTX va = PTX vb \<longleftrightarrow> PGROUNDDOWN va = PGROUNDDOWN vb"
proof
  assume *: "PDX va = PDX vb \<and> PTX va = PTX vb"
  have m: "(0x3FF :: u32) = mask 10" by (simp add: mask_eq_exp_minus_1)
  have P: "bit (PDX w) n \<longleftrightarrow> bit w (n + 22) \<and> n < 10" "bit (PTX w) n \<longleftrightarrow> bit w (n + 12) \<and> n < 10" for w n
    unfolding PDX_def PTX_def m by (auto simp: bit_simps add.commute)
  show "PGROUNDDOWN va = PGROUNDDOWN vb"
  proof (rule bit_word_eqI)
    fix n assume "n < LENGTH(32)"
    have "bit va k = bit vb k" if "12 \<le> k" "k < 32" for k
    proof (cases "k < 22")
      case True
      with that have "k - 12 < 10" "k - 12 + 12 = k" by simp_all
      then show ?thesis using * P(2) [of va "k - 12"] P(2) [of vb "k - 12"] by simp
    next
      case False
      with that have "k - 22 < 10" "k - 22 + 22 = k" by simp_all
      then show ?thesis using * P(1) [of va "k - 22"] P(1) [of vb "k - 22"] by simp
    qed
    with \<open>n < LENGTH(32)\<close> show "bit (PGROUNDDOWN va) n = bit (PGROUNDDOWN vb) n"
      by (auto simp: PGROUNDDOWN_shift bit_simps)
  qed
next
  assume "PGROUNDDOWN va = PGROUNDDOWN vb"
  then have "drop_bit 12 (PGROUNDDOWN va) = drop_bit 12 (PGROUNDDOWN vb)" by simp
  moreover have "drop_bit 12 (PGROUNDDOWN w) = drop_bit 12 w" for w
    unfolding PGROUNDDOWN_shift by (rule bit_word_eqI) (auto simp: bit_simps dest: bit_imp_le_length)
  ultimately have d: "drop_bit 12 va = drop_bit 12 vb" by simp
  moreover have "drop_bit 22 w = drop_bit 10 (drop_bit 12 w)" for w :: u32
    by (simp add: drop_bit_drop_bit)
  ultimately show "PDX va = PDX vb \<and> PTX va = PTX vb" unfolding PDX_def PTX_def by metis
qed

subsection \<open>A page table as a map\<close>

definition pt_lookup :: "memory \<Rightarrow> u32 \<Rightarrow> u32 \<Rightarrow> u32 option" where
  "pt_lookup m pgdir va =
     (let e = ld32 m (entry_addr pgdir (PDX va)) in
      if e AND PTE_P = 0 then None
      else let f = ld32 m (entry_addr (p2v (PTE_ADDR e)) (PTX va)) in
           if f AND PTE_P = 0 then None else Some f)"

text \<open>
  A well-formed page directory: the tables it points to are pages of their own, none of them
  free and no two the same.
\<close>

abbreviation pd_entry :: "memory \<Rightarrow> u32 \<Rightarrow> u32 \<Rightarrow> u32" where
  "pd_entry m pgdir i \<equiv> ld32 m (entry_addr pgdir i)"

abbreviation pd_table :: "memory \<Rightarrow> u32 \<Rightarrow> u32 \<Rightarrow> u32" where
  "pd_table m pgdir i \<equiv> p2v (PTE_ADDR (pd_entry m pgdir i))"

definition pd_present :: "memory \<Rightarrow> u32 \<Rightarrow> u32 \<Rightarrow> bool" where
  "pd_present m pgdir i \<longleftrightarrow> i < 1024 \<and> pd_entry m pgdir i AND PTE_P \<noteq> 0"

definition pt_wf :: "'x kmem_st_scheme \<Rightarrow> u32 \<Rightarrow> u32 list \<Rightarrow> bool" where
  "pt_wf s pgdir ps \<longleftrightarrow> kmem_inv s ps \<and> KmemLock \<notin> set (held s)
     \<and> valid_page s pgdir \<and> pgdir \<notin> set ps
     \<and> (\<forall>i. pd_present (k_mem s) pgdir i \<longrightarrow> valid_page s (pd_table (k_mem s) pgdir i)
          \<and> pd_table (k_mem s) pgdir i \<noteq> pgdir \<and> pd_table (k_mem s) pgdir i \<notin> set ps)
     \<and> (\<forall>i j. pd_present (k_mem s) pgdir i \<longrightarrow> pd_present (k_mem s) pgdir j \<longrightarrow>
          pd_table (k_mem s) pgdir i = pd_table (k_mem s) pgdir j \<longrightarrow> i = j)"

lemma pt_wf_pgdir: "pt_wf s pgdir ps \<Longrightarrow> pgdir mod PGSIZE = 0"
  by (simp add: pt_wf_def valid_page_def)

lemma pt_wf_table:
  assumes "pt_wf s pgdir ps" "pd_present (k_mem s) pgdir i"
  shows "pd_table (k_mem s) pgdir i mod PGSIZE = 0"
    and "pd_table (k_mem s) pgdir i \<noteq> pgdir" and "pd_table (k_mem s) pgdir i \<notin> set ps"
    and "valid_page s (pd_table (k_mem s) pgdir i)"
  using assms unfolding pt_wf_def valid_page_def by blast+

text \<open>Composing an entry: the flags do not touch the address of an aligned page.\<close>

lemma PTE_ADDR_compose:
  assumes "(x :: u32) mod PGSIZE = 0" "f AND NOT 0xFFF = 0"
  shows "PTE_ADDR (x OR f) = x"
proof (rule bit_word_eqI)
  fix n assume "n < LENGTH(32)"
  have "\<not> bit (f AND NOT 0xFFF) n" unfolding assms(2) by simp
  with \<open>n < LENGTH(32)\<close> show "bit (PTE_ADDR (x OR f)) n = bit x n"
    using aligned_low_bits [OF assms(1), of n] unfolding PTE_ADDR_def page_mask
    by (auto simp: bit_simps)
qed

lemma v2p_aligned:
  assumes "p mod PGSIZE = 0" shows "v2p p mod PGSIZE = 0"
proof -
  have "unat p mod 4096 = 0" using assms by (simp only: mod_eq_0_unat PGSIZE_def) simp
  moreover have "(x + 2147483648) mod 4294967296 mod 4096 = 0" if "(x :: nat) mod 4096 = 0" for x
  proof -
    have "(x + 2147483648) mod 4294967296 mod 4096 = (x + 2147483648) mod 4096"
      by (rule mod_mod_cancel) simp
    also have "\<dots> = (x mod 4096 + 2147483648) mod 4096" by (rule mod_add_left_eq [symmetric])
    finally show ?thesis using that by simp
  qed
  ultimately have "unat (p + 0x80000000) mod 4096 = 0"
    by (simp only: unat_word_ariths) simp
  moreover have "v2p p = p + 0x80000000" by (simp add: v2p_def KERNBASE_def)
  ultimately show ?thesis by (simp only: mod_eq_0_unat PGSIZE_def) simp
qed

lemma present_bit [simp]: "(x OR f OR PTE_P) AND PTE_P \<noteq> 0" "(x OR PTE_P OR g) AND PTE_P \<noteq> 0"
proof -
  have "bit ((x OR f OR PTE_P) AND PTE_P) 0" "bit ((x OR PTE_P OR g) AND PTE_P) 0"
    by (simp_all add: PTE_P_def bit_simps)
  then show "(x OR f OR PTE_P) AND PTE_P \<noteq> 0" "(x OR PTE_P OR g) AND PTE_P \<noteq> 0"
    by (metis bit_0_eq bot_apply zero_neq_one bot_bool_def)+
qed

subsection \<open>What the walk and one mapping do\<close>

lemma kmem_inv_frame:
  assumes "\<And>q. q \<in> set ps \<Longrightarrow> ld32 m q = ld32 (k_mem s) q"
  shows "kmem_inv (s\<lparr>k_mem := m\<rparr>) ps \<longleftrightarrow> kmem_inv s ps"
  using chain_cong [of ps m "k_mem s"] assms by (simp add: kmem_inv_def valid_page_def)

lemma pt_wf_free_page: "pt_wf s pgdir ps \<Longrightarrow> q \<in> set ps \<Longrightarrow> q mod PGSIZE = 0"
  by (simp add: pt_wf_def kmem_inv_def valid_page_def)

lemma pd_present_less: "pd_present m pgdir i \<Longrightarrow> i < 1024"
  by (simp add: pd_present_def)

lemma ld32_entry0: "ld32 m q = ld32 m (entry_addr q 0)"
  by simp

lemma walkpgdir_present:
  "pd_present (k_mem s) pgdir (PDX va) \<Longrightarrow>
   walkpgdir pgdir va alloc s = Ret (entry_addr (pd_table (k_mem s) pgdir (PDX va)) (PTX va)) s"
  by (simp add: walkpgdir_def Let_def pd_present_def)

lemma walkpgdir_absent:
  "\<not> pd_present (k_mem s) pgdir (PDX va) \<Longrightarrow> walkpgdir pgdir va False s = Ret 0 s"
  by (simp add: walkpgdir_def Let_def pd_present_def)

lemma walkpgdir_no_memory:
  "\<not> pd_present (k_mem s) pgdir (PDX va) \<Longrightarrow> pt_wf s pgdir [] \<Longrightarrow> walkpgdir pgdir va True s = Ret 0 s"
  by (simp add: walkpgdir_def Let_def pd_present_def pt_wf_def kalloc_eq kmem_inv_Nil)

definition walk_new :: "u32 \<Rightarrow> u32 \<Rightarrow> u32 \<Rightarrow> 'x kmem_st_scheme \<Rightarrow> 'x kmem_st_scheme" where
  "walk_new pgdir va p s = s\<lparr>k_freelist := ld32 (k_mem s) p,
     k_mem := st32 (memset (k_mem s) p 0 PGSIZE) (entry_addr pgdir (PDX va))
       (v2p p OR PTE_P OR PTE_W OR PTE_U)\<rparr>"

lemma walkpgdir_alloc:
  assumes "\<not> pd_present (k_mem s) pgdir (PDX va)" "pt_wf s pgdir (p # ps)"
  shows "walkpgdir pgdir va True s = Ret (entry_addr p (PTX va)) (walk_new pgdir va p s)"
  using assms kmem_inv_kalloc [of s p ps]
  by (simp add: walkpgdir_def Let_def walk_new_def pd_present_def pt_wf_def kalloc_eq)

lemma pde_flags: "PTE_P OR PTE_W OR PTE_U = 7"
  by (simp add: PTE_P_def PTE_W_def PTE_U_def)

lemma walk_new_entry:
  assumes "pt_wf s pgdir (p # ps)" "i < 1024"
  shows "pd_entry (k_mem (walk_new pgdir va p s)) pgdir i
    = (if i = PDX va then v2p p OR 7 else pd_entry (k_mem s) pgdir i)"
proof -
  have "p mod PGSIZE = 0" "pgdir mod PGSIZE = 0" "p \<noteq> pgdir"
    using pt_wf_free_page [OF assms(1), of p] pt_wf_pgdir [OF assms(1)] assms(1) by (auto simp: pt_wf_def)
  then show ?thesis
    using assms(2) by (auto simp: walk_new_def ld32_st32_entry ld32_memset_entry pde_flags)
qed

lemma new_table_addr: "p mod PGSIZE = 0 \<Longrightarrow> PTE_ADDR (v2p p OR 7) = v2p p"
  by (rule PTE_ADDR_compose) (simp_all add: v2p_aligned)

lemma new_table_present: "(v2p p OR 7) AND PTE_P \<noteq> 0"
  using present_bit(2) [of "v2p p" "PTE_W OR PTE_U"] by (simp only: pde_flags) simp

lemma walk_new_present:
  assumes "pt_wf s pgdir (p # ps)"
  shows "pd_present (k_mem (walk_new pgdir va p s)) pgdir i
    \<longleftrightarrow> i = PDX va \<or> pd_present (k_mem s) pgdir i"
  using walk_new_entry [OF assms] new_table_present by (auto simp: pd_present_def split: if_splits)

lemma walk_new_table:
  assumes "pt_wf s pgdir (p # ps)" "i < 1024"
  shows "pd_table (k_mem (walk_new pgdir va p s)) pgdir i
    = (if i = PDX va then p else pd_table (k_mem s) pgdir i)"
  using walk_new_entry [OF assms] new_table_addr [OF pt_wf_free_page [OF assms(1), of p]] by simp

lemma valid_page_mem [simp]:
  "valid_page (s\<lparr>k_mem := m\<rparr>) q = valid_page s q" "valid_page (walk_new pgdir va p s) q = valid_page s q"
  by (simp_all add: valid_page_def walk_new_def)

lemma pt_wf_walk_new:
  assumes wf: "pt_wf s pgdir (p # ps)" and abs: "\<not> pd_present (k_mem s) pgdir (PDX va)"
  shows "pt_wf (walk_new pgdir va p s) pgdir ps"
proof -
  let ?s = "walk_new pgdir va p s"
  have al: "p mod PGSIZE = 0" "pgdir mod PGSIZE = 0" "p \<noteq> pgdir" "pgdir \<notin> set ps" "p \<notin> set ps"
    "valid_page s p" "valid_page s pgdir"
    using wf by (auto simp: pt_wf_def kmem_inv_def valid_page_def)
  have "kmem_inv (s\<lparr>k_freelist := ld32 (k_mem s) p\<rparr>) ps"
    using wf kmem_inv_kalloc [of s p ps] by (simp add: pt_wf_def)
  then have "kmem_inv ((s\<lparr>k_freelist := ld32 (k_mem s) p\<rparr>)\<lparr>k_mem := k_mem ?s\<rparr>) ps"
  proof (subst kmem_inv_frame)
    fix q assume q: "q \<in> set ps"
    then have "q mod PGSIZE = 0" "q \<noteq> p" "q \<noteq> pgdir" using al pt_wf_free_page [OF wf, of q] by auto
    then show "ld32 (k_mem ?s) q = ld32 (k_mem (s\<lparr>k_freelist := ld32 (k_mem s) p\<rparr>)) q"
      using al by (subst (1 2) ld32_entry0) (simp add: walk_new_def ld32_st32_entry ld32_memset_entry del: mult_zero_right add_0_right)
  qed
  then have inv: "kmem_inv ?s ps" by (simp add: walk_new_def)
  have tabs: "valid_page s (pd_table (k_mem ?s) pgdir i) \<and> pd_table (k_mem ?s) pgdir i \<noteq> pgdir
      \<and> pd_table (k_mem ?s) pgdir i \<notin> set ps" if "pd_present (k_mem ?s) pgdir i" for i
  proof (cases "i = PDX va")
    case True
    then show ?thesis using al by (simp add: walk_new_table [OF wf])
  next
    case False
    with that have pr: "pd_present (k_mem s) pgdir i" "i < 1024"
      by (auto simp: walk_new_present [OF wf] dest: pd_present_less)
    then show ?thesis using False pt_wf_table [OF wf pr(1)] by (simp add: walk_new_table [OF wf])
  qed
  have "i = j" if "pd_present (k_mem ?s) pgdir i" "pd_present (k_mem ?s) pgdir j"
      "pd_table (k_mem ?s) pgdir i = pd_table (k_mem ?s) pgdir j" for i j
  proof -
    have "i < 1024" "j < 1024" using that(1,2) by (auto simp: pd_present_def)
    moreover have "pd_table (k_mem s) pgdir k \<noteq> p" if "pd_present (k_mem s) pgdir k" for k
      using pt_wf_table(3) [OF wf that] by auto
    moreover have "i = j" if "pd_present (k_mem s) pgdir i" "pd_present (k_mem s) pgdir j"
      "pd_table (k_mem s) pgdir i = pd_table (k_mem s) pgdir j"
      using wf that unfolding pt_wf_def by blast
    ultimately show ?thesis
      using that unfolding walk_new_present [OF wf]
      by (auto simp: walk_new_table [OF wf] split: if_splits)
  qed
  moreover have "KmemLock \<notin> set (held ?s)" using wf by (simp add: walk_new_def pt_wf_def)
  ultimately show ?thesis using inv tabs al unfolding pt_wf_def valid_page_mem by blast
qed

lemma pt_lookup_alt:
  "pt_lookup m pgdir va = (if pd_present m pgdir (PDX va)
     then let f = ld32 m (entry_addr (pd_table m pgdir (PDX va)) (PTX va))
          in if f AND PTE_P = 0 then None else Some f
     else None)"
  by (simp add: pt_lookup_def pd_present_def Let_def)

lemma pt_lookup_walk_new:
  assumes wf: "pt_wf s pgdir (p # ps)" and abs: "\<not> pd_present (k_mem s) pgdir (PDX va)"
  shows "pt_lookup (k_mem (walk_new pgdir va p s)) pgdir vb = pt_lookup (k_mem s) pgdir vb"
proof -
  let ?m = "k_mem (walk_new pgdir va p s)"
  have al: "p mod PGSIZE = 0" "pgdir mod PGSIZE = 0" "p \<noteq> pgdir"
    using wf by (auto simp: pt_wf_def kmem_inv_def valid_page_def)
  have new: "ld32 ?m (entry_addr p (PTX vb)) = 0"
    using al by (simp add: walk_new_def ld32_st32_entry ld32_memset_entry)
  have "ld32 ?m (entry_addr (pd_table (k_mem s) pgdir (PDX vb)) (PTX vb))
      = ld32 (k_mem s) (entry_addr (pd_table (k_mem s) pgdir (PDX vb)) (PTX vb))"
    if "pd_present (k_mem s) pgdir (PDX vb)"
  proof -
    have "pd_table (k_mem s) pgdir (PDX vb) \<noteq> p" using pt_wf_table(3) [OF wf that] by auto
    then show ?thesis
      using al pt_wf_table(1,2) [OF wf that]
      by (simp add: walk_new_def ld32_st32_entry ld32_memset_entry)
  qed
  with new abs show ?thesis
    by (cases "PDX vb = PDX va")
      (simp_all add: pt_lookup_alt walk_new_present [OF wf] walk_new_table [OF wf] Let_def)
qed

lemma store_entry:
  assumes wf: "pt_wf s pgdir ps" and pr: "pd_present (k_mem s) pgdir (PDX va)" and w: "w AND PTE_P \<noteq> 0"
  defines "m \<equiv> st32 (k_mem s) (entry_addr (pd_table (k_mem s) pgdir (PDX va)) (PTX va)) w"
  shows "pt_wf (s\<lparr>k_mem := m\<rparr>) pgdir ps"
    and "pt_lookup m pgdir vb = (if PGROUNDDOWN vb = PGROUNDDOWN va then Some w
           else pt_lookup (k_mem s) pgdir vb)"
proof -
  note tab = pt_wf_table [OF wf pr]
  have pde: "pd_entry m pgdir i = pd_entry (k_mem s) pgdir i" if "i < 1024" for i
    using tab that pt_wf_pgdir [OF wf] by (simp add: m_def ld32_st32_entry)
  then have pres: "pd_present m pgdir i \<longleftrightarrow> pd_present (k_mem s) pgdir i" for i
    by (auto simp: pd_present_def)
  have tabs: "pd_table m pgdir i = pd_table (k_mem s) pgdir i" if "pd_present m pgdir i" for i
    using pde pd_present_less [OF that] by simp
  have free: "ld32 m q = ld32 (k_mem s) q" if "q \<in> set ps" for q
  proof -
    have "q mod PGSIZE = 0" "q \<noteq> pd_table (k_mem s) pgdir (PDX va)"
      using pt_wf_free_page [OF wf that] tab(3) that by auto
    then show ?thesis using tab(1) unfolding m_def
      by (subst (1 2) ld32_entry0) (simp add: ld32_st32_entry del: mult_zero_right add_0_right)
  qed
  show "pt_wf (s\<lparr>k_mem := m\<rparr>) pgdir ps"
    using wf kmem_inv_frame [of ps m s, OF free] unfolding pt_wf_def
    by (simp add: pres) (metis pres tabs)
  show "pt_lookup m pgdir vb = (if PGROUNDDOWN vb = PGROUNDDOWN va then Some w
           else pt_lookup (k_mem s) pgdir vb)"
  proof (cases "pd_present (k_mem s) pgdir (PDX vb)")
    case False
    then have "PGROUNDDOWN vb \<noteq> PGROUNDDOWN va" using pr same_page_iff by metis
    with False show ?thesis by (simp add: pt_lookup_alt pres)
  next
    case True
    have "pd_table (k_mem s) pgdir (PDX va) = pd_table (k_mem s) pgdir (PDX vb) \<longleftrightarrow> PDX va = PDX vb"
      using wf pr True unfolding pt_wf_def by metis
    then have "ld32 m (entry_addr (pd_table (k_mem s) pgdir (PDX vb)) (PTX vb))
      = (if PDX va = PDX vb \<and> PTX va = PTX vb then w
         else ld32 (k_mem s) (entry_addr (pd_table (k_mem s) pgdir (PDX vb)) (PTX vb)))"
      using pt_wf_table(1) [OF wf True] tab(1) by (simp add: m_def ld32_st32_entry)
    then show ?thesis
      using True w tabs [of "PDX vb"] same_page_iff [of va vb]
      by (auto simp: pt_lookup_alt pres Let_def)
  qed
qed

text \<open>Pages other than the directory, its tables and the free pages.\<close>

definition foreign_page :: "memory \<Rightarrow> u32 \<Rightarrow> u32 list \<Rightarrow> u32 \<Rightarrow> bool" where
  "foreign_page m pgdir ps q \<longleftrightarrow> q mod PGSIZE = 0 \<and> q \<noteq> pgdir \<and> q \<notin> set ps
     \<and> (\<forall>i. pd_present m pgdir i \<longrightarrow> pd_table m pgdir i \<noteq> q)"

lemma st32_entry_outside:
  assumes "p mod PGSIZE = 0" "q mod PGSIZE = 0" "p \<noteq> q" "i < 1024" "in_region q 4096 x"
  shows "st32 m (entry_addr p i) w x = m x"
proof (rule st32_outside)
  fix k :: nat assume "k < 4"
  then have "in_region p 4096 (entry_addr p i + of_nat k)" using assms(4) by (intro entry_in_page)
  then show "x \<noteq> entry_addr p i + of_nat k" using pages_disjoint [OF assms(1,2,3)] assms(5) by blast
qed

lemma walk_new_foreign:
  assumes "pt_wf s pgdir (p # ps)" "foreign_page (k_mem s) pgdir (p # ps) q" "in_region q 4096 x"
  shows "k_mem (walk_new pgdir va p s) x = k_mem s x"
proof -
  have al: "p mod PGSIZE = 0" "pgdir mod PGSIZE = 0" "q mod PGSIZE = 0" "q \<noteq> p" "q \<noteq> pgdir"
    using assms(1,2) by (auto simp: pt_wf_def kmem_inv_def valid_page_def foreign_page_def)
  have "\<not> in_region p 4096 x" using pages_disjoint [OF al(3,1,4) assms(3)] .
  then show ?thesis
    using al assms(3) by (simp add: walk_new_def st32_entry_outside memset_eq)
qed

lemma walk_new_foreign_page:
  assumes "pt_wf s pgdir (p # ps)" "foreign_page (k_mem s) pgdir (p # ps) q"
  shows "foreign_page (k_mem (walk_new pgdir va p s)) pgdir ps q"
proof -
  have "pd_table (k_mem (walk_new pgdir va p s)) pgdir i \<noteq> q"
    if "pd_present (k_mem (walk_new pgdir va p s)) pgdir i" for i
    using that assms(2) walk_new_table [OF assms(1) pd_present_less [OF that], of va]
    unfolding walk_new_present [OF assms(1)] foreign_page_def by (auto split: if_splits)
  with assms(2) show ?thesis by (simp add: foreign_page_def)
qed

lemma entry_nonzero:
  assumes "valid_page s q" "i < 1024"
  shows "entry_addr q i \<noteq> 0"
proof
  assume "entry_addr q i = 0"
  with entry_in_page0 [OF assms(2), of q] have "in_region q 4096 0" by simp
  moreover have "in_region 0 4096 0" by (simp add: in_region_def)
  moreover have "q \<noteq> 0" "q mod PGSIZE = 0" using assms(1) valid_page_nonzero by (auto simp: valid_page_def)
  ultimately show False using pages_disjoint [of q 0 0] by simp
qed

text \<open>One turn of \<open>mappages\<close> on a page that is not mapped.\<close>

lemma map_turn:
  assumes wf: "pt_wf s pgdir ps" and none: "pt_lookup (k_mem s) pgdir a = None"
    and w: "w AND PTE_P \<noteq> 0" and room: "pd_present (k_mem s) pgdir (PDX a) \<or> ps \<noteq> []"
  obtains pte s1 m f ps' us where
    "walkpgdir pgdir a True s = Ret pte s1" "pte \<noteq> 0" "ld32 (k_mem s1) pte AND PTE_P = 0"
    "s1\<lparr>k_mem := st32 (k_mem s1) pte w\<rparr> = s\<lparr>k_mem := m, k_freelist := f\<rparr>"
    "pt_wf (s\<lparr>k_mem := m, k_freelist := f\<rparr>) pgdir ps'" "ps = us @ ps'"
    "\<And>vb. pt_lookup m pgdir vb = (if PGROUNDDOWN vb = PGROUNDDOWN a then Some w
       else pt_lookup (k_mem s) pgdir vb)"
    "\<And>q. foreign_page (k_mem s) pgdir ps q \<Longrightarrow> foreign_page m pgdir ps' q"
    "\<And>q x. foreign_page (k_mem s) pgdir ps q \<Longrightarrow> in_region q 4096 x \<Longrightarrow> m x = k_mem s x"
proof (cases "pd_present (k_mem s) pgdir (PDX a)")
  case True
  let ?pte = "entry_addr (pd_table (k_mem s) pgdir (PDX a)) (PTX a)"
  let ?m = "st32 (k_mem s) ?pte w"
  note tab = pt_wf_table [OF wf True]
  have "pd_present ?m pgdir i \<longleftrightarrow> pd_present (k_mem s) pgdir i"
    "i < 1024 \<Longrightarrow> pd_table ?m pgdir i = pd_table (k_mem s) pgdir i" for i
    using tab pt_wf_pgdir [OF wf] by (auto simp: pd_present_def ld32_st32_entry)
  then have fp: "foreign_page ?m pgdir ps q = foreign_page (k_mem s) pgdir ps q" for q
    unfolding foreign_page_def by (metis pd_present_less)
  show ?thesis
  proof (rule that [where pte = ?pte and ?s1.0 = s and m = ?m and f = "k_freelist s" and ps' = ps and us = "[]"])
    show "walkpgdir pgdir a True s = Ret ?pte s" by (rule walkpgdir_present [OF True])
    show "?pte \<noteq> 0" using tab(4) by (rule entry_nonzero) simp
    show "ld32 (k_mem s) ?pte AND PTE_P = 0" using none True by (auto simp: pt_lookup_alt Let_def split: if_splits)
    show "pt_wf (s\<lparr>k_mem := ?m, k_freelist := k_freelist s\<rparr>) pgdir ps"
      using store_entry(1) [OF wf True w] by simp
    show "pt_lookup ?m pgdir vb = (if PGROUNDDOWN vb = PGROUNDDOWN a then Some w
        else pt_lookup (k_mem s) pgdir vb)" for vb
      by (rule store_entry(2) [OF wf True w])
    show "?m x = k_mem s x" if "foreign_page (k_mem s) pgdir ps q" "in_region q 4096 x" for q x
      using that True tab(1) by (intro st32_entry_outside [of _ q]) (auto simp: foreign_page_def)
  qed (simp_all add: fp)
next
  case False
  with room obtain p ps' where ps: "ps = p # ps'" by (cases ps) auto
  note wf' = wf [unfolded ps]
  let ?s = "walk_new pgdir a p s"
  let ?m = "st32 (k_mem ?s) (entry_addr p (PTX a)) w"
  have pr: "pd_present (k_mem ?s) pgdir (PDX a)" by (simp add: walk_new_present [OF wf'])
  have tab: "pd_table (k_mem ?s) pgdir (PDX a) = p" by (simp add: walk_new_table [OF wf'])
  have al: "p mod PGSIZE = 0" "p \<noteq> pgdir" "valid_page s p" using wf' by (auto simp: pt_wf_def kmem_inv_def valid_page_def)
  note wfn = pt_wf_walk_new [OF wf' False]
  have eq: "?s\<lparr>k_mem := ?m\<rparr> = s\<lparr>k_mem := ?m, k_freelist := ld32 (k_mem s) p\<rparr>" by (simp add: walk_new_def)
  have "pd_present ?m pgdir i \<longleftrightarrow> pd_present (k_mem ?s) pgdir i"
    "i < 1024 \<Longrightarrow> pd_table ?m pgdir i = pd_table (k_mem ?s) pgdir i" for i
    using al pt_wf_pgdir [OF wf'] by (auto simp: pd_present_def ld32_st32_entry)
  then have fp: "foreign_page ?m pgdir ps' q = foreign_page (k_mem ?s) pgdir ps' q" for q
    unfolding foreign_page_def by (metis pd_present_less)
  show ?thesis
  proof (rule that [where pte = "entry_addr p (PTX a)" and ?s1.0 = ?s and m = ?m and f = "ld32 (k_mem s) p" and ps' = ps' and us = "[p]"])
    show "walkpgdir pgdir a True s = Ret (entry_addr p (PTX a)) ?s" by (rule walkpgdir_alloc [OF False wf'])
    show "entry_addr p (PTX a) \<noteq> 0" using al(3) by (rule entry_nonzero) simp
    have "ld32 (k_mem ?s) (entry_addr p (PTX a)) = 0"
      using al pt_wf_pgdir [OF wf'] by (simp add: walk_new_def ld32_st32_entry ld32_memset_entry)
    then show "ld32 (k_mem ?s) (entry_addr p (PTX a)) AND PTE_P = 0" by simp
    show "pt_wf (s\<lparr>k_mem := ?m, k_freelist := ld32 (k_mem s) p\<rparr>) pgdir ps'"
      using store_entry(1) [OF wfn pr w] unfolding tab eq .
    show "pt_lookup ?m pgdir vb = (if PGROUNDDOWN vb = PGROUNDDOWN a then Some w
        else pt_lookup (k_mem s) pgdir vb)" for vb
      using store_entry(2) [OF wfn pr w, of vb] unfolding tab pt_lookup_walk_new [OF wf' False] .
    show "?m x = k_mem s x" if "foreign_page (k_mem s) pgdir ps q" "in_region q 4096 x" for q x
    proof -
      have "q mod PGSIZE = 0" "p \<noteq> q" using that(1) ps by (auto simp: foreign_page_def)
      then have "?m x = k_mem ?s x" using al(1) that(2) by (intro st32_entry_outside) simp_all
      also have "\<dots> = k_mem s x" using walk_new_foreign [OF wf'] that ps by blast
      finally show ?thesis .
    qed
    show "foreign_page ?m pgdir ps' q" if "foreign_page (k_mem s) pgdir ps q" for q
      unfolding fp using walk_new_foreign_page [OF wf'] that ps by blast
  qed (simp_all add: eq ps)
qed

subsection \<open>Mapping a range\<close>

lemma page_mod_unat: "(x :: u32) mod PGSIZE = 0 \<longleftrightarrow> unat x mod 4096 = 0"
  by (simp only: mod_eq_0_unat unat_PGSIZE)

lemma page_multiple:
  assumes "(x :: u32) mod PGSIZE = 0"
  obtains k where "unat x = 4096 * k"
proof -
  have "4096 dvd unat x" using assms unfolding page_mod_unat by (rule mod_0_imp_dvd)
  then show ?thesis using that by (elim dvdE)
qed

lemma page_diff:
  assumes "a mod PGSIZE = 0" "b mod PGSIZE = 0"
  shows "(a - b :: u32) mod PGSIZE = 0"
proof -
  obtain k l where k: "unat a = 4096 * k" and l: "unat b = 4096 * l"
    using assms by (auto elim!: page_multiple)
  have "unat (a - b) = (if 4096 * l \<le> 4096 * k then 4096 * k - 4096 * l else 4096 * k + 2 ^ 32 - 4096 * l)"
    unfolding unat_sub_if' k l by simp
  also have "\<dots> = 4096 * (if l \<le> k then k - l else k + 1048576 - l)"
    by (simp add: diff_mult_distrib2)
  finally show ?thesis unfolding page_mod_unat by simp
qed

lemma page_add: "a mod PGSIZE = 0 \<Longrightarrow> (a + PGSIZE) mod PGSIZE = 0"
  using page_diff [of a "- PGSIZE"] by (simp add: PGSIZE_def)

lemma PGROUNDDOWN_aligned: "PGROUNDDOWN va mod PGSIZE = 0"
proof -
  have "take_bit 12 (PGROUNDDOWN va) = 0"
    unfolding PGROUNDDOWN_shift by (rule bit_word_eqI) (auto simp: bit_simps)
  moreover have e: "(2 :: u32) ^ 12 = PGSIZE" by (simp add: PGSIZE_def)
  ultimately show ?thesis unfolding take_bit_eq_mod e by simp
qed

lemma PGROUNDDOWN_id: "a mod PGSIZE = 0 \<Longrightarrow> PGROUNDDOWN a = a"
proof -
  assume "a mod PGSIZE = 0"
  moreover have e: "(2 :: u32) ^ 12 = PGSIZE" by (simp add: PGSIZE_def)
  ultimately have "take_bit 12 a = 0" unfolding take_bit_eq_mod e by simp
  with page_split [of a] show ?thesis by simp
qed

lemma page_range_step:
  assumes "x mod PGSIZE = 0" "l mod PGSIZE = 0" "l \<noteq> 0"
  shows "x \<le> l \<longleftrightarrow> x = 0 \<or> x - PGSIZE \<le> l - PGSIZE" and "\<not> 0 - PGSIZE \<le> l - PGSIZE"
    and "unat (l - PGSIZE) div 4096 = unat l div 4096 - 1"
proof -
  obtain j k where j: "unat x = 4096 * j" and k: "unat l = 4096 * k"
    using assms(1,2) by (auto elim!: page_multiple)
  have "unat l < 2 ^ 32" "unat l \<noteq> 0" using assms(3) unat_eq_zero [of l] unsigned_less [of l] by simp_all
  then have k0: "0 < k" "k < 1048576" using k by simp_all
  have l': "unat (l - PGSIZE) = 4096 * (k - 1)"
    using k k0(1) by (simp add: unat_sub_if' diff_mult_distrib2)
  then show "unat (l - PGSIZE) div 4096 = unat l div 4096 - 1" using k by simp
  show "\<not> 0 - PGSIZE \<le> l - PGSIZE"
    using k0 unfolding word_le_nat_alt l' by (simp add: unat_sub_if' PGSIZE_def)
  show "x \<le> l \<longleftrightarrow> x = 0 \<or> x - PGSIZE \<le> l - PGSIZE"
  proof (cases "x = 0")
    case False
    then have j0: "0 < j" using j unat_eq_zero [of x] by auto
    then have "unat (x - PGSIZE) = 4096 * (j - 1)"
      using j by (simp add: unat_sub_if' diff_mult_distrib2)
    then show ?thesis using False j0 k0 unfolding word_le_nat_alt l' j k by auto
  qed simp
qed

text \<open>
  \<open>mappages\<close> on pages that are not mapped yet: it maps exactly the pages of the range, to
  consecutive frames and with the given permissions, or it runs out of memory; it never
  touches another page of memory.
\<close>

definition mapped_range :: "memory \<Rightarrow> memory \<Rightarrow> u32 \<Rightarrow> u32 \<Rightarrow> u32 \<Rightarrow> u32 \<Rightarrow> u32 \<Rightarrow> bool" where
  "mapped_range m m' pgdir a l pa perm \<longleftrightarrow> (\<forall>vb. pt_lookup m' pgdir vb =
     (if PGROUNDDOWN vb - a \<le> l then Some ((pa + (PGROUNDDOWN vb - a)) OR perm OR PTE_P)
      else pt_lookup m pgdir vb))"

definition unmapped_range :: "memory \<Rightarrow> u32 \<Rightarrow> u32 \<Rightarrow> u32 \<Rightarrow> bool" where
  "unmapped_range m pgdir a l \<longleftrightarrow> (\<forall>vb. PGROUNDDOWN vb - a \<le> l \<longrightarrow> pt_lookup m pgdir vb = None)"

definition map_result :: "'x kmem_st_scheme \<Rightarrow> u32 \<Rightarrow> u32 list \<Rightarrow> u32 \<Rightarrow> u32 \<Rightarrow> u32 \<Rightarrow> u32
    \<Rightarrow> int \<Rightarrow> memory \<Rightarrow> u32 \<Rightarrow> u32 list \<Rightarrow> bool" where
  "map_result s pgdir ps a l pa perm r m f ps' \<longleftrightarrow>
     pt_wf (s\<lparr>k_mem := m, k_freelist := f\<rparr>) pgdir ps' \<and> (\<exists>us. ps = us @ ps')
   \<and> (r = 0 \<and> mapped_range (k_mem s) m pgdir a l pa perm
      \<or> r = -1 \<and> ps' = [] \<and> (\<forall>vb. \<not> PGROUNDDOWN vb - a \<le> l \<longrightarrow>
           pt_lookup m pgdir vb = pt_lookup (k_mem s) pgdir vb))
   \<and> (\<forall>q. foreign_page (k_mem s) pgdir ps q \<longrightarrow> foreign_page m pgdir ps' q
        \<and> (\<forall>x. in_region q 4096 x \<longrightarrow> m x = k_mem s x))"

lemma map_first:
  assumes wf: "pt_wf s pgdir ps" and al: "a mod PGSIZE = 0" and none: "pt_lookup (k_mem s) pgdir a = None"
    and room: "pd_present (k_mem s) pgdir (PDX a) \<or> ps \<noteq> []"
  shows "\<exists>pte s1 m f ps'. walkpgdir pgdir a True s = Ret pte s1 \<and> pte \<noteq> 0
    \<and> ld32 (k_mem s1) pte AND PTE_P = 0
    \<and> s1\<lparr>k_mem := st32 (k_mem s1) pte (pa OR perm OR PTE_P)\<rparr> = s\<lparr>k_mem := m, k_freelist := f\<rparr>
    \<and> map_result s pgdir ps a 0 pa perm 0 m f ps'"
proof (rule map_turn [OF wf none present_bit(1) [of pa perm] room], goal_cases)
  case (1 pte s1 m f ps' us)
  have "mapped_range (k_mem s) m pgdir a 0 pa perm"
    unfolding mapped_range_def using 1(7) PGROUNDDOWN_id [OF al] by auto
  moreover have "foreign_page (k_mem s) pgdir ps q \<longrightarrow> foreign_page m pgdir ps' q
      \<and> (\<forall>x. in_region q 4096 x \<longrightarrow> m x = k_mem s x)" for q
    using 1(8,9) by blast
  ultimately have "map_result s pgdir ps a 0 pa perm 0 m f ps'"
    using 1(5,6) unfolding map_result_def by blast
  with 1(1-4) show ?case by blast
qed

lemma map_result_trans:
  assumes al: "a mod PGSIZE = 0" "l mod PGSIZE = 0" "l \<noteq> 0"
    and 1: "map_result s pgdir ps a 0 pa perm 0 m f ps'"
    and 2: "map_result (s\<lparr>k_mem := m, k_freelist := f\<rparr>) pgdir ps' (a + PGSIZE) (l - PGSIZE)
      (pa + PGSIZE) perm r m' f' ps''"
  shows "map_result s pgdir ps a l pa perm r m' f' ps''"
proof -
  have xx: "PGROUNDDOWN vb - (a + PGSIZE) = PGROUNDDOWN vb - a - PGSIZE" for vb by simp
  have pd: "(PGROUNDDOWN vb - a) mod PGSIZE = 0" for vb
    by (rule page_diff [OF PGROUNDDOWN_aligned al(1)])
  note step = page_range_step [OF pd al(2,3)]
  have look: "pt_lookup m pgdir vb = (if PGROUNDDOWN vb - a = 0 then Some (pa OR perm OR PTE_P)
       else pt_lookup (k_mem s) pgdir vb)" for vb
    using 1 unfolding map_result_def mapped_range_def by (cases "PGROUNDDOWN vb - a = 0") auto
  have addr: "pa + PGSIZE + (PGROUNDDOWN vb - a - PGSIZE) = pa + (PGROUNDDOWN vb - a)" for vb by simp
  have A: "mapped_range (k_mem s) m' pgdir a l pa perm"
    if *: "mapped_range m m' pgdir (a + PGSIZE) (l - PGSIZE) (pa + PGSIZE) perm"
    unfolding mapped_range_def
  proof
    fix vb
    show "pt_lookup m' pgdir vb = (if PGROUNDDOWN vb - a \<le> l
        then Some ((pa + (PGROUNDDOWN vb - a)) OR perm OR PTE_P) else pt_lookup (k_mem s) pgdir vb)"
      using * [unfolded mapped_range_def, rule_format, of vb] step(1) [of vb] step(2)
      unfolding xx addr look by (cases "PGROUNDDOWN vb - a = 0") auto
  qed
  have B: "pt_lookup m' pgdir vb = pt_lookup (k_mem s) pgdir vb"
    if "\<forall>vb. \<not> PGROUNDDOWN vb - (a + PGSIZE) \<le> l - PGSIZE \<longrightarrow> pt_lookup m' pgdir vb = pt_lookup m pgdir vb"
      "\<not> PGROUNDDOWN vb - a \<le> l" for vb
    using that look [of vb] step(1) [of vb] unfolding xx by auto
  have wf: "pt_wf (s\<lparr>k_mem := m', k_freelist := f'\<rparr>) pgdir ps''" and suf: "\<exists>us. ps = us @ ps''"
    using 1 2 by (auto simp: map_result_def)
  have fr: "foreign_page (k_mem s) pgdir ps q \<longrightarrow> foreign_page m' pgdir ps'' q
      \<and> (\<forall>x. in_region q 4096 x \<longrightarrow> m' x = k_mem s x)" for q
    using 1 2 by (auto simp: map_result_def)
  have "r = 0 \<and> mapped_range m m' pgdir (a + PGSIZE) (l - PGSIZE) (pa + PGSIZE) perm
      \<or> r = -1 \<and> ps'' = [] \<and> (\<forall>vb. \<not> PGROUNDDOWN vb - (a + PGSIZE) \<le> l - PGSIZE
           \<longrightarrow> pt_lookup m' pgdir vb = pt_lookup m pgdir vb)"
    using 2 by (simp add: map_result_def)
  with A B wf suf fr show ?thesis unfolding map_result_def by blast
qed

lemma mappages_no_memory:
  assumes "pt_wf s pgdir ps" "\<not> (pd_present (k_mem s) pgdir (PDX a) \<or> ps \<noteq> [])"
  shows "\<exists>r m f ps'. mappages_from n pgdir a lst pa perm s = Ret r (s\<lparr>k_mem := m, k_freelist := f\<rparr>)
    \<and> map_result s pgdir ps a l pa perm r m f ps'"
proof -
  have "mappages_from n pgdir a lst pa perm s = Ret (-1) s"
    using walkpgdir_no_memory [of s pgdir a] assms by (simp add: mappages_from.simps)
  with assms show ?thesis
    by (intro exI [of _ "- 1"] exI [of _ "k_mem s"] exI [of _ "k_freelist s"] exI [of _ ps])
      (simp add: map_result_def)
qed

lemma mappages_from_spec:
  assumes "pt_wf s pgdir ps" "a mod PGSIZE = 0" "lst mod PGSIZE = 0"
    and "n = unat (lst - a) div 4096" "unmapped_range (k_mem s) pgdir a (lst - a)"
  shows "\<exists>r m f ps'. mappages_from n pgdir a lst pa perm s = Ret r (s\<lparr>k_mem := m, k_freelist := f\<rparr>)
    \<and> map_result s pgdir ps a (lst - a) pa perm r m f ps'"
  using assms
proof (induction n arbitrary: a pa s ps)
  case (0 a pa s ps)
  have none: "pt_lookup (k_mem s) pgdir a = None"
    using 0(5) PGROUNDDOWN_id [OF 0(2)] by (auto simp: unmapped_range_def)
  have "unat (lst - a) mod 4096 = 0" using page_diff [OF 0(3,2)] page_mod_unat by simp
  with 0(4) have "unat (lst - a) = 0" by (simp add: div_eq_0_iff)
  then have lst: "lst = a" by (simp add: unat_eq_zero)
  show ?case
  proof (cases "pd_present (k_mem s) pgdir (PDX a) \<or> ps \<noteq> []")
    case True
    obtain pte s1 m f ps' where t:
      "walkpgdir pgdir a True s = Ret pte s1" "pte \<noteq> 0" "ld32 (k_mem s1) pte AND PTE_P = 0"
      "s1\<lparr>k_mem := st32 (k_mem s1) pte (pa OR perm OR PTE_P)\<rparr> = s\<lparr>k_mem := m, k_freelist := f\<rparr>"
      "map_result s pgdir ps a 0 pa perm 0 m f ps'"
      using map_first [OF 0(1,2) none True] by blast
    have "mappages_from 0 pgdir a lst pa perm s = Ret 0 (s\<lparr>k_mem := m, k_freelist := f\<rparr>)"
      using t(1-4) lst by (simp add: mappages_from.simps)
    then show ?thesis using t(5) lst by (intro exI conjI) simp_all
  qed (rule mappages_no_memory [OF 0(1)])
next
  case (Suc n a pa s ps)
  have al: "(lst - a) mod PGSIZE = 0" by (rule page_diff [OF Suc.prems(3,2)])
  have ne: "lst - a \<noteq> 0" using Suc.prems(4) by auto
  have dd: "lst - (a + PGSIZE) = lst - a - PGSIZE" by simp
  have xx: "PGROUNDDOWN vb - (a + PGSIZE) = PGROUNDDOWN vb - a - PGSIZE" for vb by simp
  note step = page_range_step [OF page_diff [OF PGROUNDDOWN_aligned Suc.prems(2)] al ne]
  have none: "pt_lookup (k_mem s) pgdir a = None"
    using Suc.prems(5) PGROUNDDOWN_id [OF Suc.prems(2)] by (auto simp: unmapped_range_def)
  show ?case
  proof (cases "pd_present (k_mem s) pgdir (PDX a) \<or> ps \<noteq> []")
    case True
    obtain pte s1 m f ps' where t:
      "walkpgdir pgdir a True s = Ret pte s1" "pte \<noteq> 0" "ld32 (k_mem s1) pte AND PTE_P = 0"
      "s1\<lparr>k_mem := st32 (k_mem s1) pte (pa OR perm OR PTE_P)\<rparr> = s\<lparr>k_mem := m, k_freelist := f\<rparr>"
      "map_result s pgdir ps a 0 pa perm 0 m f ps'"
      using map_first [OF Suc.prems(1,2) none True] by blast
    let ?s = "s\<lparr>k_mem := m, k_freelist := f\<rparr>"
    have wf: "pt_wf ?s pgdir ps'" and look: "mapped_range (k_mem s) m pgdir a 0 pa perm"
      using t(5) by (auto simp: map_result_def)
    have un: "unmapped_range (k_mem ?s) pgdir (a + PGSIZE) (lst - (a + PGSIZE))"
      unfolding unmapped_range_def xx dd
    proof (intro allI impI)
      fix vb assume le: "PGROUNDDOWN vb - a - PGSIZE \<le> lst - a - PGSIZE"
      then have "PGROUNDDOWN vb - a \<noteq> 0" using step(2) by auto
      moreover have "pt_lookup (k_mem s) pgdir vb = None"
        using Suc.prems(5) step(1) [of vb] le unfolding unmapped_range_def by blast
      ultimately show "pt_lookup (k_mem ?s) pgdir vb = None"
        using look by (auto simp: mapped_range_def)
    qed
    have n: "n = unat (lst - (a + PGSIZE)) div 4096"
      unfolding dd step(3) using Suc.prems(4) by simp
    obtain r m' f' ps'' where r:
      "mappages_from n pgdir (a + PGSIZE) lst (pa + PGSIZE) perm ?s = Ret r (?s\<lparr>k_mem := m', k_freelist := f'\<rparr>)"
      "map_result ?s pgdir ps' (a + PGSIZE) (lst - (a + PGSIZE)) (pa + PGSIZE) perm r m' f' ps''"
      using Suc.IH [OF wf page_add [OF Suc.prems(2)] Suc.prems(3) n un] by blast
    have "a \<noteq> lst" using ne by auto
    then have "mappages_from (Suc n) pgdir a lst pa perm s = Ret r (s\<lparr>k_mem := m', k_freelist := f'\<rparr>)"
      using t(1-4) r(1) by (subst mappages_from.simps) simp
    then show ?thesis
      using map_result_trans [OF Suc.prems(2) al ne t(5)] r(2) unfolding dd by blast
  qed (rule mappages_no_memory [OF Suc.prems(1)])
qed

subsection \<open>Properties\<close>

text \<open>A kernel with an empty page directory and one free page.\<close>

definition vm_sample :: vm_st where
  "vm_sample = \<lparr>held = [], cons_locking = True, panicked = False, uart_on = True, serial_out = [],
     crt = \<lambda>_. 0, crt_pos = 0, k_mem = \<lambda>_. 0, k_freelist = 0x80401000, k_use_lock = True,
     k_end = 0x80400000, vm_data = 0x80108000, kpgdir = 0, cr3 = 0, ts_esp0 = 0, ts_ss0 = 0\<rparr>"

lemma vm_sample_wf: "pt_wf vm_sample 0x80400000 [0x80401000]"
  by (simp add: pt_wf_def vm_sample_def kmem_inv_def valid_page_def pd_present_def ld32_def le32_def
      PGSIZE_def v2p_def KERNBASE_def PHYSTOP_def)

lemma vm_sample_unmapped: "pt_lookup (k_mem vm_sample) 0x80400000 va = None"
  by (simp add: pt_lookup_def vm_sample_def ld32_def le32_def)

text \<open>C11: \<open>mappages\<close> extends the address space by exactly the pages that overlap
  \<open>va\<close> to \<open>va + size - 1\<close>: page \<open>k\<close> of the range is mapped to frame \<open>k\<close> from \<open>pa\<close> with the given
  permissions and every other address keeps its mapping. It fails only when no page is free
  for a page table, and then changes no mapping outside the range. The page tables stay
  well-formed and no page of memory other than the directory, its tables and free pages is
  written.\<close>

theorem mappages_correct:
  assumes "pt_wf s pgdir ps" "a = PGROUNDDOWN va" "l = PGROUNDDOWN (va + siz - 1) - a"
    and "unmapped_range (k_mem s) pgdir a l"
  shows "\<exists>r m f ps'. mappages pgdir va siz pa perm s = Ret r (s\<lparr>k_mem := m, k_freelist := f\<rparr>)
    \<and> map_result s pgdir ps a l pa perm r m f ps'"
  using mappages_from_spec [OF assms(1) PGROUNDDOWN_aligned PGROUNDDOWN_aligned refl, of va "va + siz - 1"]
    assms(2-4) by (simp add: mappages_def Let_def)

theorem mappages_correct_witness:
  "\<exists>r m f ps'. mappages 0x80400000 0x1000 4096 0x5000 PTE_W vm_sample
       = Ret r (vm_sample\<lparr>k_mem := m, k_freelist := f\<rparr>)
    \<and> map_result vm_sample 0x80400000 [0x80401000] 0x1000 0 0x5000 PTE_W r m f ps'"
  by (rule mappages_correct [OF vm_sample_wf])
    (simp_all add: PGROUNDDOWN_def PGSIZE_def unmapped_range_def vm_sample_unmapped)

text \<open>\<open>allocuvm\<close> drops the result of \<open>mappages\<close>. With one free page and no page table for the
  address it answers the new size although the page is not mapped, and the page it took
  is neither mapped nor free any more.\<close>

lemma allocuvm_ignores_failure:
  assumes "pt_wf s pgdir [p]" "\<not> pd_present (k_mem s) pgdir 0"
  shows "\<exists>t. allocuvm pgdir 0 4096 s = Ret 4096 t \<and> pt_lookup (k_mem t) pgdir 0 = None
    \<and> pt_wf t pgdir []"
proof -
  have wf: "kmem_inv s [p]" "KmemLock \<notin> set (held s)" "p \<noteq> pgdir" "p mod PGSIZE = 0" "pgdir mod PGSIZE = 0"
    using assms(1) by (auto simp: pt_wf_def kmem_inv_def valid_page_def)
  note ka = kmem_inv_kalloc [OF wf(1)]
  let ?t = "s\<lparr>k_freelist := ld32 (k_mem s) p, k_mem := memset (k_mem s) p 0 PGSIZE\<rparr>"
  have pde: "pd_entry (k_mem ?t) pgdir i = pd_entry (k_mem s) pgdir i" if "i < 1024" for i
    using wf that by (simp add: ld32_memset_entry)
  then have pres: "pd_present (k_mem ?t) pgdir i = pd_present (k_mem s) pgdir i" for i
    by (auto simp: pd_present_def)
  have "kmem_inv ?t []" using ka(3) by (simp add: kmem_inv_Nil)
  moreover have tab: "pd_table (k_mem ?t) pgdir i = pd_table (k_mem s) pgdir i" if "pd_present (k_mem s) pgdir i" for i
    using pde [OF pd_present_less [OF that]] by simp
  moreover have val: "valid_page ?t q = valid_page s q" for q by (simp add: valid_page_def)
  ultimately have t: "pt_wf ?t pgdir []"
    using assms(1) unfolding pt_wf_def pres val by auto
  have idx: "PDX 0 = 0" "PGROUNDUP 0 = 0" "PGROUNDDOWN 0 = 0" "PGROUNDDOWN 4095 = 0"
    by (simp_all add: PDX_def PGROUNDUP_def PGROUNDDOWN_def PGSIZE_def)
  have "mappages pgdir 0 PGSIZE (v2p p) (PTE_W OR PTE_U) ?t = Ret (-1) ?t"
    using walkpgdir_no_memory [of ?t pgdir 0] t pres assms(2)
    by (simp add: mappages_def Let_def mappages_from.simps idx)
  then have "allocuvm pgdir 0 4096 s = Ret 4096 ?t"
    using wf ka by (simp add: allocuvm_def allocuvm_from.simps idx kalloc_eq KERNBASE_def PGSIZE_def)
  moreover have "pt_lookup (k_mem ?t) pgdir 0 = None"
    using pres assms(2) by (simp add: pt_lookup_alt idx)
  ultimately show ?thesis using t by blast
qed

lemma allocuvm_ignores_failure_witness:
  "\<exists>t. allocuvm 0x80400000 0 4096 vm_sample = Ret 4096 t
     \<and> pt_lookup (k_mem t) 0x80400000 0 = None \<and> pt_wf t 0x80400000 []"
  by (rule allocuvm_ignores_failure [OF vm_sample_wf])
    (simp add: pd_present_def vm_sample_def ld32_def le32_def)

end
