(* ===== verification/Proc.thy ===== *)
theory Proc
  imports Vm
begin

unbundle bit_operations_syntax

section \<open>proc.c: the process table, sleeping and scheduling\<close>

text \<open>
  The process table of \<^verbatim>\<open>src/proc.c\<close> and the operations on it that need neither files nor
  inodes: \<open>allocproc\<close>, \<open>growproc\<close>, \<open>wait\<close>, \<open>sched\<close>, \<open>yield\<close>, \<open>sleep\<close>, \<open>wakeup\<close>, \<open>kill\<close>,
  \<open>thread_join\<close> and one pass of \<open>scheduler\<close>. Slots of the table are numbered; a pointer to a
  process is the number of its slot. The trap frame and the saved context, which the code
  keeps at the top of the kernel stack, are fields of the slot.

  Giving up the CPU. \<open>sched\<close> is the only place where a process stops running. What the other
  processes do until process \<open>p\<close> runs again is \<open>env p\<close>, where \<open>env\<close> is an argument of every
  operation that can sleep: the operation goes on in the state \<open>env p\<close> leaves, with the process table lock
  held, the process running again and its address space loaded. \<open>wakeups\<close> bounds how often
  the process is run again; when it is used up, or when the process is a zombie, the outcome
  is \<open>Switch\<close> and the state at that moment. Theorems hold for every \<open>env\<close>, or for every
  \<open>env\<close> that keeps an invariant.
\<close>

datatype procstate = UNUSED | EMBRYO | SLEEPING | RUNNABLE | RUNNING | ZOMBIE

datatype chan =
    ChanProc nat | ChanBuf nat | ChanInode nat | ChanLog | ChanTicks
  | ChanPipeRead u32 | ChanPipeWrite u32 | ChanInput

text \<open>Addresses of kernel code that the model names.\<close>

datatype code_addr = Forkret | Trapret | CodeAt u32

record trapframe =
  tf_edi :: u32
  tf_esi :: u32
  tf_ebp :: u32
  tf_oesp :: u32
  tf_ebx :: u32
  tf_edx :: u32
  tf_ecx :: u32
  tf_eax :: u32
  tf_gs :: u16
  tf_fs :: u16
  tf_es :: u16
  tf_ds :: u16
  tf_trapno :: u32
  tf_err :: u32
  tf_eip :: u32
  tf_cs :: u16
  tf_eflags :: u32
  tf_esp :: u32
  tf_ss :: u16

record kcontext =
  cx_edi :: u32
  cx_esi :: u32
  cx_ebx :: u32
  cx_ebp :: u32
  cx_eip :: code_addr

record proc =
  p_sz :: u32
  p_pgdir :: u32
  p_kstack :: u32
  p_state :: procstate
  p_pid :: int
  p_parent :: "nat option"
  p_tf :: trapframe
  p_ret :: code_addr
  p_context :: kcontext
  p_chan :: "chan option"
  p_killed :: bool
  p_ofile :: "nat option list"
  p_cwd :: "nat option"
  p_name :: "u8 list"
  p_burstarr :: "u32 list"
  p_burst_idx :: u32
  p_sburst :: u32
  p_initial_burst :: u32
  p_turnaround :: u32
  p_thread_stack_top :: u32

record proc_st = vm_st +
  ptable :: "nat \<Rightarrow> proc"
  curproc :: "nat option"
  initproc :: "nat option"
  nextpid :: int
  ticks :: u32
  thread_locks :: "u32 list"
  nextLockId :: int
  fork_first :: bool
  wakeups :: nat

type_synonym 's env = "nat \<Rightarrow> 's \<Rightarrow> 's"

definition MAX_NUM_BURSTS :: nat where "MAX_NUM_BURSTS = 100"
definition MAX_NUM_LOCKS :: nat where "MAX_NUM_LOCKS = 100"
definition INT_MAX :: int where "INT_MAX = 2147483647"

definition SEG_KDATA :: u16 where "SEG_KDATA = 2"
definition SEG_UCODE :: u16 where "SEG_UCODE = 4"
definition SEG_UDATA :: u16 where "SEG_UDATA = 5"
definition DPL_USER :: u16 where "DPL_USER = 3"
definition FL_IF :: u32 where "FL_IF = 0x200"

subsection \<open>Access to the table\<close>

definition upd_proc :: "nat \<Rightarrow> (proc \<Rightarrow> proc) \<Rightarrow> ('x proc_st_scheme, unit) kern" where
  "upd_proc p f = kmod (\<lambda>s. s\<lparr>ptable := (ptable s)(p := f (ptable s p))\<rparr>)"

text \<open>The global \<open>proc\<close>; using it while no process runs reads through a null pointer.\<close>

definition myproc :: "('x proc_st_scheme, nat) kern" where
  "myproc = (\<lambda>s. case curproc s of None \<Rightarrow> Fault ''proc: null pointer'' | Some p \<Rightarrow> Ret p s)"

lemma upd_proc_apply [simp]:
  "upd_proc p f s = Ret () (s\<lparr>ptable := (ptable s)(p := f (ptable s p))\<rparr>)"
  by (simp add: upd_proc_def)

lemma myproc_apply [simp]: "curproc s = Some p \<Longrightarrow> myproc s = Ret p s"
  by (simp add: myproc_def)

lemma myproc_eq_Ret: "myproc s = Ret p s' \<longleftrightarrow> curproc s = Some p \<and> s' = s"
  by (auto simp: myproc_def split: option.splits)

subsection \<open>User memory\<close>

text \<open>
  The kernel reads and writes user addresses through the page table that is loaded. An
  address from \<open>KERNBASE\<close> up is kernel memory. A missing page, or a write to a page without
  \<open>PTE_W\<close>, is a page fault in kernel mode, which \<open>trap\<close> answers with a panic.
\<close>

definition user_pte :: "'x proc_st_scheme \<Rightarrow> u32 \<Rightarrow> u32 option" where
  "user_pte s va = pt_lookup (k_mem s) (p2v (cr3 s)) va"

definition va_read :: "'x proc_st_scheme \<Rightarrow> u32 \<Rightarrow> u32 option" where
  "va_read s va = (if KERNBASE \<le> va then Some va
     else map_option (\<lambda>pte. p2v (PTE_ADDR pte) + (va - PGROUNDDOWN va)) (user_pte s va))"

definition va_write :: "'x proc_st_scheme \<Rightarrow> u32 \<Rightarrow> u32 option" where
  "va_write s va = (if KERNBASE \<le> va then Some va
     else case user_pte s va of
         None \<Rightarrow> None
       | Some pte \<Rightarrow> if pte AND PTE_W = 0 then None else Some (p2v (PTE_ADDR pte) + (va - PGROUNDDOWN va)))"

definition vload8 :: "u32 \<Rightarrow> ('x proc_st_scheme, u8) kern" where
  "vload8 va = (\<lambda>s. case va_read s va of None \<Rightarrow> Panic ''trap'' | Some a \<Rightarrow> Ret (k_mem s a) s)"

definition vstore8 :: "u32 \<Rightarrow> u8 \<Rightarrow> ('x proc_st_scheme, unit) kern" where
  "vstore8 va b = (\<lambda>s. case va_write s va of None \<Rightarrow> Panic ''trap''
     | Some a \<Rightarrow> Ret () (s\<lparr>k_mem := (k_mem s)(a := b)\<rparr>))"

definition vload32 :: "u32 \<Rightarrow> ('x proc_st_scheme, u32) kern" where
  "vload32 va = kbind (vload8 va) (\<lambda>b0. kbind (vload8 (va + 1)) (\<lambda>b1.
     kbind (vload8 (va + 2)) (\<lambda>b2. kbind (vload8 (va + 3)) (\<lambda>b3. kret (le32 b0 b1 b2 b3)))))"

definition vstore32 :: "u32 \<Rightarrow> u32 \<Rightarrow> ('x proc_st_scheme, unit) kern" where
  "vstore32 va w = kseq (vstore8 va (byte_of32 w 0)) (kseq (vstore8 (va + 1) (byte_of32 w 1))
     (kseq (vstore8 (va + 2) (byte_of32 w 2)) (vstore8 (va + 3) (byte_of32 w 3))))"

subsection \<open>Running a process and coming back\<close>

text \<open>\<open>switchuvm\<close>; the stack in the task state is that of the current process, not of \<open>p\<close>.\<close>

definition switchuvm :: "nat \<Rightarrow> ('x proc_st_scheme, unit) kern" where
  "switchuvm p = kbind myproc (\<lambda>c.
     kseq (kmod (\<lambda>s. s\<lparr>ts_ss0 := push_bit 3 SEG_KDATA, ts_esp0 := p_kstack (ptable s c) + KSTACKSIZE\<rparr>))
    (kbind (kget (\<lambda>s. p_pgdir (ptable s p))) (\<lambda>d.
       if d = 0 then panic ''switchuvm: no pgdir''
       else kmod (\<lambda>s. s\<lparr>cr3 := v2p d\<rparr>))))"

text \<open>The scheduler's choice of a process, up to its \<open>swtch\<close>.\<close>

definition run_proc :: "nat \<Rightarrow> ('x proc_st_scheme, unit) kern" where
  "run_proc p = kseq (kmod (\<lambda>s. s\<lparr>curproc := Some p\<rparr>))
     (kseq (switchuvm p) (upd_proc p (\<lambda>q. q\<lparr>p_state := RUNNING\<rparr>)))"

text \<open>
  \<open>swtch\<close> from process \<open>p\<close> to the scheduler and back: the scheduler leaves the address space
  and forgets the process (\<open>leave_proc\<close>), other processes run (\<open>env p\<close>), then it picks \<open>p\<close>.
  A process that is neither runnable nor asleep is never picked again.
\<close>

definition leave_proc :: "'x proc_st_scheme \<Rightarrow> 'x proc_st_scheme" where
  "leave_proc s = s\<lparr>cr3 := v2p (kpgdir s), curproc := None\<rparr>"

definition swtch :: "'x proc_st_scheme env \<Rightarrow> nat \<Rightarrow> ('x proc_st_scheme, unit) kern" where
  "swtch env p = (\<lambda>s.
     if wakeups s = 0 \<or> p_state (ptable s p) \<notin> {SLEEPING, RUNNABLE} then Switch (leave_proc s)
     else kseq (kmod (\<lambda>t. (env p (leave_proc t))\<lparr>held := [PtableLock], wakeups := wakeups s - 1\<rparr>)) (run_proc p) s)"

text \<open>
  \<open>sched\<close>. The depth \<open>cpu->ncli\<close> is the number of locks held. Its last check, that interrupts
  are off, cannot fail here: interrupts are off while a lock is held.
\<close>

definition sched :: "'x proc_st_scheme env \<Rightarrow> ('x proc_st_scheme, unit) kern" where
  "sched env = kbind (kget held) (\<lambda>h.
     if PtableLock \<notin> set h then panic ''sched ptable.lock''
     else if length h \<noteq> 1 then panic ''sched locks''
     else kbind myproc (\<lambda>p. kbind (kget (\<lambda>s. p_state (ptable s p))) (\<lambda>st.
       if st = RUNNING then panic ''sched running'' else swtch env p)))"

definition yield :: "'x proc_st_scheme env \<Rightarrow> ('x proc_st_scheme, unit) kern" where
  "yield env = kseq (acquire PtableLock) (kbind myproc (\<lambda>p.
     kseq (upd_proc p (\<lambda>q. q\<lparr>p_state := RUNNABLE\<rparr>))
    (kseq (sched env) (release PtableLock))))"

text \<open>A null lock pointer cannot be written in the model, so \<open>sleep\<close> has only its first panic.\<close>

definition sleep :: "'x proc_st_scheme env \<Rightarrow> chan \<Rightarrow> lockid \<Rightarrow> ('x proc_st_scheme, unit) kern" where
  "sleep env ch lk = kbind (kget curproc) (\<lambda>c. case c of
       None \<Rightarrow> panic ''sleep''
     | Some p \<Rightarrow>
         kseq (kwhen (lk \<noteq> PtableLock) (kseq (acquire PtableLock) (release lk)))
        (kseq (upd_proc p (\<lambda>q. q\<lparr>p_chan := Some ch\<rparr>))
        (kseq (upd_proc p (\<lambda>q. q\<lparr>p_state := SLEEPING\<rparr>))
        (kseq (sched env)
        (kseq (upd_proc p (\<lambda>q. q\<lparr>p_chan := None\<rparr>))
         (kwhen (lk \<noteq> PtableLock) (kseq (release PtableLock) (acquire lk))))))))"

text \<open>
  A loop that sleeps: \<open>turn\<close> is the body, which answers a result, or nothing after it slept.
  Every sleep uses up one of \<open>wakeups\<close>, so the loop ends; a turn that answers nothing
  without having slept would be an endless loop, which no turn of this model does
  (\<open>turn_sleeps\<close>).
\<close>

function kretry :: "('x proc_st_scheme, 'a option) kern \<Rightarrow> ('x proc_st_scheme, 'a) kern" where
  "kretry turn s = (case turn s of
       Ret (Some x) t \<Rightarrow> Ret x t
     | Ret None t \<Rightarrow> if wakeups t < wakeups s then kretry turn t else Fault ''endless loop''
     | Switch t \<Rightarrow> Switch t | Panic m \<Rightarrow> Panic m | Fault m \<Rightarrow> Fault m)"
  by pat_completeness auto
termination by (relation "measure (\<lambda>(_, s). wakeups s)") auto

declare kretry.simps [simp del]

definition wakeup1 :: "chan \<Rightarrow> ('x proc_st_scheme, unit) kern" where
  "wakeup1 ch = kfor [0..<NPROC] (\<lambda>p. kbind (kget (\<lambda>s. ptable s p)) (\<lambda>q.
     kwhen (p_state q = SLEEPING \<and> p_chan q = Some ch) (upd_proc p (\<lambda>q. q\<lparr>p_state := RUNNABLE\<rparr>))))"

definition wakeup :: "chan \<Rightarrow> ('x proc_st_scheme, unit) kern" where
  "wakeup ch = kseq (acquire PtableLock) (kseq (wakeup1 ch) (release PtableLock))"

text \<open>\<open>kill\<close>: the first slot with the given pid.\<close>

definition kill :: "int \<Rightarrow> ('x proc_st_scheme, int) kern" where
  "kill pid = kseq (acquire PtableLock)
     (kbind (kget (\<lambda>s. first_index (\<lambda>i. p_pid (ptable s i) = pid) NPROC)) (\<lambda>found. case found of
         None \<Rightarrow> kseq (release PtableLock) (kret (-1))
       | Some p \<Rightarrow>
           kseq (upd_proc p (\<lambda>q. q\<lparr>p_killed := True\<rparr>))
          (kseq (upd_proc p (\<lambda>q. if p_state q = SLEEPING then q\<lparr>p_state := RUNNABLE\<rparr> else q))
          (kseq (release PtableLock) (kret 0)))))"

text \<open>One pass of the loop of \<open>scheduler\<close>; \<open>run p\<close> is what process \<open>p\<close> does until it switches back.\<close>

definition scheduler_pass :: "(nat \<Rightarrow> 'x proc_st_scheme \<Rightarrow> 'x proc_st_scheme) \<Rightarrow> ('x proc_st_scheme, unit) kern" where
  "scheduler_pass run = kseq (acquire PtableLock)
     (kseq (kfor [0..<NPROC] (\<lambda>p. kbind (kget (\<lambda>s. p_state (ptable s p))) (\<lambda>st.
          kwhen (st = RUNNABLE)
            (kseq (run_proc p)
            (kseq (kmod (run p))
             (kmod leave_proc))))))
      (release PtableLock))"

subsection \<open>Creating and reaping processes\<close>

definition sys_uptime :: "('x proc_st_scheme, u32) kern" where
  "sys_uptime = kseq (acquire TicksLock) (kbind (kget ticks) (\<lambda>xticks.
     kseq (release TicksLock) (kret xticks)))"

definition zero_context :: kcontext where
  "zero_context = \<lparr>cx_edi = 0, cx_esi = 0, cx_ebx = 0, cx_ebp = 0, cx_eip = CodeAt 0\<rparr>"

text \<open>
  \<open>allocproc\<close>. \<open>nextpid\<close> is a C \<open>int\<close> and its overflow is undefined. The first part takes a
  slot, the second gives it a kernel stack that returns through \<open>forkret\<close> to \<open>trapret\<close>.
\<close>

definition alloc_slot :: "('x proc_st_scheme, nat option) kern" where
  "alloc_slot = kseq (acquire PtableLock)
     (kbind (kget (\<lambda>s. first_index (\<lambda>i. p_state (ptable s i) = UNUSED) NPROC)) (\<lambda>found. case found of
         None \<Rightarrow> kseq (release PtableLock) (kret None)
       | Some p \<Rightarrow> kbind (kget nextpid) (\<lambda>n.
           kseq (upd_proc p (\<lambda>q. q\<lparr>p_state := EMBRYO\<rparr>))
          (if n = INT_MAX then fault ''allocproc: nextpid overflow''
           else kseq (upd_proc p (\<lambda>q. q\<lparr>p_pid := n\<rparr>))
               (kseq (kmod (\<lambda>s. s\<lparr>nextpid := n + 1\<rparr>))
               (kseq (release PtableLock) (kret (Some p))))))))"

definition allocproc :: "('x proc_st_scheme, nat option) kern" where
  "allocproc = kbind alloc_slot (\<lambda>found. case found of None \<Rightarrow> kret None | Some p \<Rightarrow>
     kbind kalloc (\<lambda>ks.
     kseq (upd_proc p (\<lambda>q. q\<lparr>p_kstack := ks\<rparr>))
    (if ks = 0 then kseq (upd_proc p (\<lambda>q. q\<lparr>p_state := UNUSED\<rparr>)) (kret None)
     else kseq (upd_proc p (\<lambda>q. q\<lparr>p_ret := Trapret, p_context := zero_context\<lparr>cx_eip := Forkret\<rparr>\<rparr>))
         (kbind sys_uptime (\<lambda>t.
          kseq (upd_proc p (\<lambda>q. q\<lparr>p_initial_burst := t, p_sburst := t, p_burst_idx := 0,
                 p_burstarr := replicate MAX_NUM_BURSTS 0\<rparr>))
          (kret (Some p)))))))"

definition growproc :: "u32 \<Rightarrow> ('x proc_st_scheme, int) kern" where
  "growproc n = kbind myproc (\<lambda>p. kbind (kget (\<lambda>s. ptable s p)) (\<lambda>q.
     kbind (if sint n > 0 then allocuvm (p_pgdir q) (p_sz q) (p_sz q + n)
            else if sint n < 0 then deallocuvm (p_pgdir q) (p_sz q) (p_sz q + n)
            else kret (p_sz q)) (\<lambda>sz.
       if sint n \<noteq> 0 \<and> sz = 0 then kret (-1)
       else kseq (upd_proc p (\<lambda>q. q\<lparr>p_sz := sz\<rparr>)) (kseq (switchuvm p) (kret 0)))))"

text \<open>What \<open>wait\<close> and \<open>thread_join\<close> do to the slot of the child they found.\<close>

definition clear_slot :: "proc \<Rightarrow> proc" where
  "clear_slot q = q\<lparr>p_state := UNUSED, p_pid := 0, p_parent := None, p_name := [], p_killed := False,
     p_burst_idx := 0, p_sburst := 0, p_burstarr := replicate MAX_NUM_BURSTS 0\<rparr>"

text \<open>
  The scan for a zombie child: the slot found, or whether there are children at all. The
  second argument restricts the children that count (all of them in \<open>wait\<close>, those that
  share the address space in \<open>thread_join\<close>).
\<close>

definition is_child :: "'x proc_st_scheme \<Rightarrow> nat \<Rightarrow> nat \<Rightarrow> bool" where
  "is_child s c i \<longleftrightarrow> p_parent (ptable s i) = Some c"

definition is_thread_child :: "'x proc_st_scheme \<Rightarrow> nat \<Rightarrow> nat \<Rightarrow> bool" where
  "is_thread_child s c i \<longleftrightarrow> is_child s c i \<and> p_pgdir (ptable s i) = p_pgdir (ptable s c)"

definition wait_turn :: "'x proc_st_scheme env \<Rightarrow> nat \<Rightarrow> ('x proc_st_scheme, int option) kern" where
  "wait_turn env c = (\<lambda>s.
     case first_index (\<lambda>i. is_child s c i \<and> p_state (ptable s i) = ZOMBIE) NPROC of
        Some p \<Rightarrow>
          (let pid = p_pid (ptable s p) in
           kseq (kfree (p_kstack (ptable s p)))
          (kseq (upd_proc p (\<lambda>q. q\<lparr>p_kstack := 0\<rparr>))
          (kseq (freevm (p_pgdir (ptable s p)))
          (kseq (upd_proc p clear_slot)
          (kseq (release PtableLock) (kret (Some pid))))))) s
      | None \<Rightarrow>
          if first_index (is_child s c) NPROC = None \<or> p_killed (ptable s c)
          then kseq (release PtableLock) (kret (Some (-1))) s
          else kseq (sleep env (ChanProc c) PtableLock) (kret None) s)"

definition wait :: "'x proc_st_scheme env \<Rightarrow> ('x proc_st_scheme, int) kern" where
  "wait env = kseq (acquire PtableLock) (kbind myproc (\<lambda>c. kretry (wait_turn env c)))"

definition join_turn :: "'x proc_st_scheme env \<Rightarrow> u32 \<Rightarrow> nat \<Rightarrow> ('x proc_st_scheme, int option) kern" where
  "join_turn env stack c = (\<lambda>s.
     case first_index (\<lambda>i. is_thread_child s c i \<and> p_state (ptable s i) = ZOMBIE) NPROC of
        Some p \<Rightarrow>
          (let tid = p_pid (ptable s p) in
           kseq (kfree (p_kstack (ptable s p)))
          (kseq (upd_proc p (\<lambda>q. q\<lparr>p_kstack := 0\<rparr>))
          (kseq (upd_proc p clear_slot)
          (kseq (vstore32 stack (p_thread_stack_top (ptable s p)))
          (kseq (release PtableLock) (kret (Some tid))))))) s
      | None \<Rightarrow>
          if first_index (is_thread_child s c) NPROC = None \<or> p_killed (ptable s c)
          then kseq (release PtableLock) (kret (Some (-1))) s
          else kseq (sleep env (ChanProc c) PtableLock) (kret None) s)"

definition thread_join :: "'x proc_st_scheme env \<Rightarrow> u32 \<Rightarrow> ('x proc_st_scheme, int) kern" where
  "thread_join env stack = kseq (acquire PtableLock) (kbind myproc (\<lambda>c. kretry (join_turn env stack c)))"

subsection \<open>What the scheduling operations do\<close>

definition resumed :: "'x proc_st_scheme env \<Rightarrow> nat \<Rightarrow> 'x proc_st_scheme \<Rightarrow> 'x proc_st_scheme" where
  "resumed env p s =
     (let u = (env p (leave_proc s))\<lparr>held := [PtableLock], wakeups := wakeups s - 1, curproc := Some p\<rparr>
      in u\<lparr>ts_ss0 := push_bit 3 SEG_KDATA, ts_esp0 := p_kstack (ptable u p) + KSTACKSIZE,
           cr3 := v2p (p_pgdir (ptable u p)), ptable := (ptable u)(p := (ptable u p)\<lparr>p_state := RUNNING\<rparr>)\<rparr>)"

lemma resumed_simps [simp]:
  "held (resumed env p s) = [PtableLock]" "wakeups (resumed env p s) = wakeups s - 1"
  "curproc (resumed env p s) = Some p" "nextpid (resumed env p s) = nextpid (env p (leave_proc s))"
  "ptable (resumed env p s) = (ptable (env p (leave_proc s)))
     (p := (ptable (env p (leave_proc s)) p)\<lparr>p_state := RUNNING\<rparr>)"
  by (simp_all add: resumed_def Let_def)

lemma sched_eq:
  assumes "held s = [PtableLock]" "curproc s = Some p" "p_state (ptable s p) \<in> {SLEEPING, RUNNABLE}"
  shows "sched env s = (if wakeups s = 0 then Switch (leave_proc s)
    else if p_pgdir (ptable (env p (leave_proc s)) p) = 0 then Panic ''switchuvm: no pgdir''
    else Ret () (resumed env p s))"
  using assms
  by (auto simp: sched_def swtch_def run_proc_def switchuvm_def resumed_def Let_def)

lemma sched_Ret:
  assumes "sched env s = Ret u t"
  obtains p where "held s = [PtableLock]" "curproc s = Some p" "p_state (ptable s p) \<in> {SLEEPING, RUNNABLE}"
    "0 < wakeups s" "t = resumed env p s"
proof -
  from assms obtain p where p: "PtableLock \<in> set (held s)" "length (held s) = 1" "curproc s = Some p"
    "swtch env p s = Ret u t"
    by (auto simp: sched_def kbind_eq_Ret myproc_eq_Ret split: if_splits)
  then have h: "held s = [PtableLock]" by (cases "held s") auto
  from p(4) have st: "p_state (ptable s p) \<in> {SLEEPING, RUNNABLE}" "wakeups s \<noteq> 0"
    by (auto simp: swtch_def split: if_splits)
  with sched_eq [OF h p(3) st(1)] assms have "t = resumed env p s" by (auto split: if_splits)
  with that [OF h p(3) st(1)] st(2) show ?thesis by simp
qed

lemma sched_Switch:
  assumes "sched env s = Switch t"
  shows "t = leave_proc s \<and> held s = [PtableLock]"
proof -
  have "length (held s) = 1" "PtableLock \<in> set (held s)"
    using assms by (auto simp: sched_def kbind_def split: if_splits outcome.splits)
  then have h: "held s = [PtableLock]" by (cases "held s") auto
  moreover have "t = leave_proc s"
  proof (cases "curproc s")
    case None
    then show ?thesis using assms h by (simp add: sched_def kbind_def myproc_def)
  next
    case (Some p)
    then show ?thesis
      using assms h
      by (auto simp: sched_def swtch_def kbind_def kseq_def run_proc_def switchuvm_def
          split: if_splits outcome.splits)
  qed
  ultimately show ?thesis by simp
qed

text \<open>Going to sleep with a lock: the state in which \<open>sched\<close> is entered.\<close>

definition asleep :: "chan \<Rightarrow> nat \<Rightarrow> 'x proc_st_scheme \<Rightarrow> 'x proc_st_scheme" where
  "asleep ch p s = s\<lparr>held := [PtableLock],
     ptable := (ptable s)(p := (ptable s p)\<lparr>p_chan := Some ch, p_state := SLEEPING\<rparr>)\<rparr>"

lemma asleep_simps [simp]:
  "held (asleep ch p s) = [PtableLock]" "curproc (asleep ch p s) = curproc s"
  "wakeups (asleep ch p s) = wakeups s" "nextpid (asleep ch p s) = nextpid s"
  "ptable (asleep ch p s) = (ptable s)(p := (ptable s p)\<lparr>p_chan := Some ch, p_state := SLEEPING\<rparr>)"
  by (simp_all add: asleep_def)

definition awake :: "'x proc_st_scheme env \<Rightarrow> chan \<Rightarrow> lockid \<Rightarrow> nat \<Rightarrow> 'x proc_st_scheme \<Rightarrow> 'x proc_st_scheme" where
  "awake env ch lk p s = (let u = resumed env p (asleep ch p s)
     in u\<lparr>held := [lk], ptable := (ptable u)(p := (ptable u p)\<lparr>p_chan := None\<rparr>)\<rparr>)"

lemma sleep_eq:
  assumes "held s = [lk]" "curproc s = Some p"
  shows "sleep env ch lk s = (if wakeups s = 0 then Switch (leave_proc (asleep ch p s))
    else if p_pgdir (ptable (env p (leave_proc (asleep ch p s))) p) = 0 then Panic ''switchuvm: no pgdir''
    else Ret () (awake env ch lk p s))"
proof -
  have "sleep env ch lk s = kseq (sched env) (kseq (upd_proc p (\<lambda>q. q\<lparr>p_chan := None\<rparr>))
      (kwhen (lk \<noteq> PtableLock) (kseq (release PtableLock) (acquire lk)))) (asleep ch p s)"
  proof (cases "lk = PtableLock")
    case True
    then have "asleep ch p s = s\<lparr>ptable := (ptable s)(p := (ptable s p)\<lparr>p_chan := Some ch, p_state := SLEEPING\<rparr>)\<rparr>"
      using assms(1) by (cases s) (simp add: asleep_def)
    with True assms show ?thesis by (simp add: sleep_def)
  next
    case False
    with assms show ?thesis by (simp add: sleep_def asleep_def)
  qed
  moreover have "sched env (asleep ch p s) = (if wakeups s = 0 then Switch (leave_proc (asleep ch p s))
      else if p_pgdir (ptable (env p (leave_proc (asleep ch p s))) p) = 0 then Panic ''switchuvm: no pgdir''
      else Ret () (resumed env p (asleep ch p s)))"
    using assms by (subst sched_eq) simp_all
  moreover have "kseq (upd_proc p (\<lambda>q. q\<lparr>p_chan := None\<rparr>))
      (kwhen (lk \<noteq> PtableLock) (kseq (release PtableLock) (acquire lk))) (resumed env p (asleep ch p s))
    = Ret () (awake env ch lk p s)"
    by (cases "lk = PtableLock") (simp_all add: awake_def Let_def resumed_def)
  ultimately show ?thesis by simp
qed

lemma awake_simps [simp]:
  "held (awake env ch lk p s) = [lk]" "wakeups (awake env ch lk p s) = wakeups s - 1"
  "curproc (awake env ch lk p s) = Some p"
  by (simp_all add: awake_def Let_def)

lemma sleep_Ret:
  assumes "sleep env ch lk s = Ret u t"
  obtains p where "held s = [lk]" "curproc s = Some p" "0 < wakeups s" "t = awake env ch lk p s"
proof -
  obtain p where p: "curproc s = Some p"
    using assms by (auto simp: sleep_def kbind_eq_Ret split: option.splits)
  have "held s = [lk]"
  proof (cases "lk = PtableLock")
    case True
    with assms p obtain s' where "sched env (s\<lparr>ptable := (ptable s)(p := (ptable s p)\<lparr>p_chan := Some ch, p_state := SLEEPING\<rparr>)\<rparr>) = Ret () s'"
      by (auto simp: sleep_def kseq_eq_Ret)
    then show ?thesis using True by (auto elim: sched_Ret)
  next
    case False
    with assms p obtain s' where l: "lk \<in> set (held s)" "PtableLock \<notin> set (held s)"
      "sched env (s\<lparr>held := remove1 lk (PtableLock # held s),
          ptable := (ptable s)(p := (ptable s p)\<lparr>p_chan := Some ch, p_state := SLEEPING\<rparr>)\<rparr>) = Ret () s'"
      by (auto simp: sleep_def kseq_eq_Ret acquire_eq_Ret release_eq_Ret kwhen_def)
    then have "remove1 lk (held s) = []" using False by (auto elim: sched_Ret)
    with l(1) show ?thesis by (cases "held s") (auto split: if_splits)
  qed
  moreover note sleep_eq [OF this p, of env ch]
  ultimately show ?thesis using that p assms by (auto split: if_splits)
qed

lemma sleep_Switch:
  assumes "sleep env ch lk s = Switch t" "held s = [lk]"
  obtains p where "curproc s = Some p" "t = leave_proc (asleep ch p s)"
proof (cases "curproc s")
  case None
  with assms show ?thesis by (simp add: sleep_def kbind_def)
next
  case (Some p)
  with assms sleep_eq [OF assms(2) Some, of env ch] that show ?thesis by (auto split: if_splits)
qed

subsection \<open>Loops that sleep\<close>

definition turn_sleeps :: "('x proc_st_scheme, 'a option) kern \<Rightarrow> bool" where
  "turn_sleeps m \<longleftrightarrow> (\<forall>s t. m s = Ret None t \<longrightarrow> wakeups t < wakeups s)"

lemma kretry_step:
  assumes "turn_sleeps m"
  shows "kretry m s = kbind m (\<lambda>r. case r of None \<Rightarrow> kretry m | Some x \<Rightarrow> kret x) s"
proof (cases "m s")
  case (Ret r t)
  then show ?thesis
    using assms by (subst kretry.simps) (cases r; simp add: turn_sleeps_def)
qed (subst kretry.simps; simp)+

lemma kretry_now: "m s = Ret (Some x) t \<Longrightarrow> kretry m s = Ret x t"
  by (subst kretry.simps) simp

lemma kretry_invariant:
  assumes "kretry m s = Ret x t" "I s"
    and "\<And>s t. I s \<Longrightarrow> m s = Ret None t \<Longrightarrow> I t"
    and "\<And>s x t. I s \<Longrightarrow> m s = Ret (Some x) t \<Longrightarrow> Q x t"
  shows "Q x t"
  using assms(1,2)
proof (induction "wakeups s" arbitrary: s rule: less_induct)
  case less
  show ?case
  proof (cases "m s")
    case (Ret r u)
    show ?thesis
    proof (cases r)
      case None
      with less.prems(1) Ret have "wakeups u < wakeups s" "kretry m u = Ret x t"
        by (subst (asm) kretry.simps, simp split: if_splits)+
      then show ?thesis using less.hyps assms(3) [OF less.prems(2)] Ret None by blast
    next
      case (Some y)
      with less.prems(1) Ret have "y = x" "u = t" by (subst (asm) kretry.simps, simp)+
      then show ?thesis using assms(4) [OF less.prems(2)] Ret Some by blast
    qed
  qed (use less.prems(1) in \<open>subst (asm) kretry.simps, simp\<close>)+
qed

text \<open>A scan of the process table that changes the slots with property \<open>c\<close>.\<close>

lemma scan_ptable:
  "kfor [0..<n] (\<lambda>p. kbind (kget (\<lambda>s. ptable s p)) (\<lambda>q. kwhen (c q) (upd_proc p f))) s
     = Ret () (s\<lparr>ptable := (\<lambda>p. if p < n \<and> c (ptable s p) then f (ptable s p) else ptable s p)\<rparr>)"
proof (induction n)
  case (Suc n)
  let ?f = "\<lambda>n p. if p < n \<and> c (ptable s p) then f (ptable s p) else ptable s p"
  have "(?f n)(n := if c (ptable s n) then f (ptable s n) else ptable s n) = ?f (Suc n)"
    by (auto simp: fun_eq_iff less_Suc_eq)
  with Suc show ?case
    by (cases "c (ptable s n)") (simp_all add: kfor_append fun_upd_idem)
qed simp

definition wake_table :: "chan \<Rightarrow> (nat \<Rightarrow> proc) \<Rightarrow> nat \<Rightarrow> proc" where
  "wake_table ch pt = (\<lambda>p. if p < NPROC \<and> p_state (pt p) = SLEEPING \<and> p_chan (pt p) = Some ch
     then (pt p)\<lparr>p_state := RUNNABLE\<rparr> else pt p)"

lemma wakeup1_eq: "wakeup1 ch s = Ret () (s\<lparr>ptable := wake_table ch (ptable s)\<rparr>)"
  unfolding wakeup1_def wake_table_def by (rule scan_ptable)

lemma wakeup_eq:
  "PtableLock \<notin> set (held s) \<Longrightarrow> wakeup ch s = Ret () (s\<lparr>ptable := wake_table ch (ptable s)\<rparr>)"
  by (simp add: wakeup_def wakeup1_eq)

lemma wake_table_fields [simp]:
  "p_pid (wake_table ch pt p) = p_pid (pt p)" "p_parent (wake_table ch pt p) = p_parent (pt p)"
  "p_pgdir (wake_table ch pt p) = p_pgdir (pt p)" "p_killed (wake_table ch pt p) = p_killed (pt p)"
  "p_state (wake_table ch pt p) = UNUSED \<longleftrightarrow> p_state (pt p) = UNUSED"
  "p_state (wake_table ch pt p) = ZOMBIE \<longleftrightarrow> p_state (pt p) = ZOMBIE"
  by (auto simp: wake_table_def)

end
