(* ===== verification/Ptable.thy ===== *)
theory Ptable
  imports Proc
begin

section \<open>Invariants and properties of the process table\<close>

text \<open>
  Every operation of \<^verbatim>\<open>src/proc.c\<close> modelled in theory \<open>Proc\<close> keeps the process table
  invariant \<open>ptable_ok\<close>, whatever the other processes do while the caller sleeps, as long as
  they keep it too (\<open>env_ok\<close>). The proofs go through \<open>within\<close>: memory operations change no
  process (\<open>kmem_frame\<close>), and each operation is composed of steps that keep the invariant.
\<close>

subsection \<open>Memory operations leave the table alone\<close>

interpretation kframe: kern_relation "\<lambda>s t :: 'x kmem_st_scheme. kmem_st.more t = kmem_st.more s"
  by unfold_locales auto

abbreviation kmem_frame :: "('x kmem_st_scheme, 'a) kern \<Rightarrow> bool" where
  "kmem_frame m \<equiv> within (\<lambda>s t :: 'x kmem_st_scheme. kmem_st.more t = kmem_st.more s) m"

lemma kmem_frame_locks:
  "kmem_frame (acquire l)" "kmem_frame (release l)"
  by (auto simp: within_def acquire_def release_def)

lemma kmem_frame_access:
  "kmem_frame (kload32 a)" "kmem_frame (kstore32 a v)" "kmem_frame (kmemset d c n)" "kmem_frame (kmemmove d e n)"
  by (simp_all add: within_def)

lemma kmem_frame_mod:
  "kmem_frame (kmod (\<lambda>s. s\<lparr>k_mem := f s\<rparr>))" "kmem_frame (kmod (\<lambda>s. s\<lparr>k_freelist := g s\<rparr>))"
  by (simp_all add: within_def)

lemmas kmem_frame_rules = kframe.within_rules kmem_frame_locks kmem_frame_access kmem_frame_mod

lemma kmem_frame_kalloc: "kmem_frame kalloc"
  unfolding kalloc_def by (intro kmem_frame_rules)

lemma kmem_frame_kfree: "kmem_frame (kfree v)"
  unfolding kfree_def by (intro kmem_frame_rules)

lemma kmem_frame_walkpgdir: "kmem_frame (walkpgdir pgdir va alloc)"
  unfolding walkpgdir_def Let_def by (intro kmem_frame_rules kmem_frame_kalloc)

lemma kmem_frame_mappages_from: "kmem_frame (mappages_from n pgdir a lst pa perm)"
proof (induction n arbitrary: a pa)
  case 0
  show ?case by (subst mappages_from.simps) (auto intro!: kmem_frame_rules kmem_frame_walkpgdir)
next
  case (Suc n)
  then show ?case
    by (subst mappages_from.simps) (auto intro!: kmem_frame_rules kmem_frame_walkpgdir)
qed

lemma kmem_frame_mappages: "kmem_frame (mappages pgdir va siz pa perm)"
  unfolding mappages_def Let_def by (rule kmem_frame_mappages_from)

lemma kmem_frame_deallocuvm_from: "kmem_frame (deallocuvm_from pgdir a oldsz)"
proof (induction pgdir a oldsz rule: deallocuvm_from.induct)
  case (1 pgdir a oldsz)
  show ?case
    apply (subst deallocuvm_from.simps, unfold Let_def)
    apply (intro kmem_frame_rules kmem_frame_walkpgdir kmem_frame_kfree)
     apply (rule 1(1) [OF _ _ refl]; assumption)
    apply (rule 1(2) [OF _ _ refl]; assumption)
    done
qed

lemma kmem_frame_deallocuvm: "kmem_frame (deallocuvm pgdir oldsz newsz)"
  unfolding deallocuvm_def by (intro kmem_frame_rules kmem_frame_deallocuvm_from)

lemma kmem_frame_freevm: "kmem_frame (freevm pgdir)"
  unfolding freevm_def by (intro kmem_frame_rules kmem_frame_deallocuvm kmem_frame_kfree)

lemma kmem_frame_consputc: "kmem_frame (consputc c)"
proof -
  have "kmem_frame (uartputc d)" for d by (simp add: within_def uartputc_def)
  moreover have "kmem_frame (cgaputc c)" by (simp add: within_def cgaputc_def split: prod.split)
  ultimately show ?thesis unfolding consputc_def by (intro kmem_frame_rules)
qed

lemma within_list:
  "(z = [] \<Longrightarrow> within R m) \<Longrightarrow> (\<And>x xs. z = x # xs \<Longrightarrow> within R (f x xs))
   \<Longrightarrow> within R (case z of [] \<Rightarrow> m | x # xs \<Rightarrow> f x xs)"
  by (cases z) simp_all

lemma within_parg:
  "(\<And>w. z = PInt w \<Longrightarrow> within R (f w)) \<Longrightarrow> (\<And>t. z = PStr t \<Longrightarrow> within R (g t))
   \<Longrightarrow> within R (case z of PInt w \<Rightarrow> f w | PStr t \<Rightarrow> g t)"
  by (cases z) simp_all

lemma within_option_eq:
  "(z = None \<Longrightarrow> within R m) \<Longrightarrow> (\<And>x. z = Some x \<Longrightarrow> within R (f x))
   \<Longrightarrow> within R (case z of None \<Rightarrow> m | Some x \<Rightarrow> f x)"
  by (cases z) simp_all

lemma kmem_frame_output:
  "kmem_frame (printint w base sg)" "kmem_frame (putstr cs)"
  unfolding printint_def putstr_def by (intro kmem_frame_rules kmem_frame_consputc)+

lemma kmem_frame_cprintf_loop: "kmem_frame (cprintf_loop fmt args)"
proof (induction fmt args rule: cprintf_loop.induct)
  case (2 c fmt args)
  show ?case
    apply (subst cprintf_loop.simps)
    apply (rule kframe.within_if)
     apply (rule kframe.within_kseq [OF kmem_frame_consputc], rule 2(1), assumption)
    apply (rule within_list, rule kframe.within_kret)
    apply (rule kframe.within_if)
     apply (rule within_list, rule kframe.within_fault)
     apply (rule within_parg)
      apply (rule kframe.within_kseq [OF kmem_frame_output(1)], rule 2(2); assumption)
     apply (rule kframe.within_fault)
    apply (rule kframe.within_if)
     apply (rule within_list, rule kframe.within_fault)
     apply (rule within_parg)
      apply (rule kframe.within_kseq [OF kmem_frame_output(1)], rule 2(3); assumption)
     apply (rule kframe.within_fault)
    apply (rule kframe.within_if)
     apply (rule within_list, rule kframe.within_fault)
     apply (rule within_parg, rule kframe.within_fault)
     apply (rule within_option_eq)
      apply (rule kframe.within_kseq [OF kmem_frame_output(2)], rule 2(4); assumption)
     apply (rule kframe.within_kseq [OF kmem_frame_output(2)], rule 2(5); assumption)
    apply (rule kframe.within_if)
     apply (rule kframe.within_kseq [OF kmem_frame_consputc], rule 2(6); assumption)
    apply (rule kframe.within_kseq [OF kmem_frame_consputc])
    apply (rule kframe.within_kseq [OF kmem_frame_consputc], rule 2(7); assumption)
    done
qed (unfold cprintf_loop.simps, rule kframe.within_kret)

lemma kmem_frame_cprintf: "kmem_frame (cprintf fmt args)"
  unfolding cprintf_def by (intro kmem_frame_rules kmem_frame_cprintf_loop)

lemma kmem_frame_allocuvm_from: "kmem_frame (allocuvm_from pgdir a oldsz newsz)"
proof (induction pgdir a oldsz newsz rule: allocuvm_from.induct)
  case (1 pgdir a oldsz newsz)
  show ?case
    apply (subst allocuvm_from.simps)
    apply (intro kmem_frame_rules kmem_frame_kalloc kmem_frame_cprintf kmem_frame_deallocuvm kmem_frame_mappages)
    apply (rule 1; assumption)
    done
qed

lemma kmem_frame_allocuvm: "kmem_frame (allocuvm pgdir oldsz newsz)"
  unfolding allocuvm_def by (intro kmem_frame_rules kmem_frame_allocuvm_from)

text \<open>What such an operation keeps of a kernel state that has a process table.\<close>

lemma kmem_more_proc:
  fixes s t :: "'x proc_st_scheme"
  assumes "kmem_st.more t = kmem_st.more s"
  shows "ptable t = ptable s" "nextpid t = nextpid s" "curproc t = curproc s" "wakeups t = wakeups s"
    "initproc t = initproc s" "ticks t = ticks s" "cr3 t = cr3 s"
  using assms by (cases s; cases t; simp)+

subsection \<open>The process table invariant\<close>

text \<open>
  Slots in use have distinct positive pids below \<open>nextpid\<close>, and the current process is one
  of them and is not a zombie.
\<close>

definition pids_ok :: "'x proc_st_scheme \<Rightarrow> bool" where
  "pids_ok s \<longleftrightarrow> 0 < nextpid s
     \<and> (\<forall>i < NPROC. p_state (ptable s i) \<noteq> UNUSED \<longrightarrow> 0 < p_pid (ptable s i) \<and> p_pid (ptable s i) < nextpid s)
     \<and> (\<forall>i < NPROC. \<forall>j < NPROC. p_state (ptable s i) \<noteq> UNUSED \<longrightarrow> p_state (ptable s j) \<noteq> UNUSED
          \<longrightarrow> p_pid (ptable s i) = p_pid (ptable s j) \<longrightarrow> i = j)"

definition live_state :: "procstate \<Rightarrow> bool" where
  "live_state st \<longleftrightarrow> st \<in> {SLEEPING, RUNNABLE, RUNNING}"

definition ptable_ok :: "'x proc_st_scheme \<Rightarrow> bool" where
  "ptable_ok s \<longleftrightarrow> pids_ok s
     \<and> (\<forall>p. curproc s = Some p \<longrightarrow> p < NPROC \<and> live_state (p_state (ptable s p)))"

text \<open>
  What the other processes are relied on to do while process \<open>p\<close> is off the CPU: keep the
  table invariant and leave \<open>p\<close> asleep or runnable.
\<close>

definition env_ok :: "'x proc_st_scheme env \<Rightarrow> bool" where
  "env_ok env \<longleftrightarrow> (\<forall>p s. pids_ok s \<longrightarrow> p < NPROC \<longrightarrow> live_state (p_state (ptable s p)) \<longrightarrow>
     pids_ok (env p s) \<and> live_state (p_state (ptable (env p s) p)))"

lemma live_state_used: "live_state st \<Longrightarrow> st \<noteq> UNUSED \<and> st \<noteq> ZOMBIE"
  by (auto simp: live_state_def)

lemma pids_ok_frame:
  assumes "pids_ok s" "nextpid t = nextpid s"
    and "\<And>i. p_state (ptable t i) \<noteq> UNUSED \<Longrightarrow> p_state (ptable s i) \<noteq> UNUSED \<and> p_pid (ptable t i) = p_pid (ptable s i)"
  shows "pids_ok t"
proof -
  note s = assms(1) [unfolded pids_ok_def]
  show ?thesis
    unfolding pids_ok_def assms(2)
  proof (intro conjI allI impI)
    show "0 < nextpid s" using s by blast
  next
    fix i assume "i < NPROC" "p_state (ptable t i) \<noteq> UNUSED"
    with s assms(3) [of i] show "0 < p_pid (ptable t i)" "p_pid (ptable t i) < nextpid s" by auto
  next
    fix i j
    assume "i < NPROC" "j < NPROC" "p_state (ptable t i) \<noteq> UNUSED" "p_state (ptable t j) \<noteq> UNUSED"
      "p_pid (ptable t i) = p_pid (ptable t j)"
    with s assms(3) [of i] assms(3) [of j] show "i = j" by (simp only:) blast
  qed
qed

lemma ptable_ok_frame:
  assumes "ptable_ok s" "nextpid t = nextpid s" "curproc t = curproc s"
    and "\<And>i. p_state (ptable t i) \<noteq> UNUSED \<Longrightarrow> p_state (ptable s i) \<noteq> UNUSED \<and> p_pid (ptable t i) = p_pid (ptable s i)"
    and "\<And>i. curproc s = Some i \<Longrightarrow> live_state (p_state (ptable s i)) \<Longrightarrow> live_state (p_state (ptable t i))"
  shows "ptable_ok t"
proof -
  have "pids_ok t" using assms(1) by (intro pids_ok_frame [OF _ assms(2,4)]) (simp add: ptable_ok_def)
  then show ?thesis using assms(1,3,5) by (simp add: ptable_ok_def)
qed

interpretation ptab: kern_relation "\<lambda>s t :: 'x proc_st_scheme. ptable_ok s \<longrightarrow> ptable_ok t"
  by unfold_locales auto

abbreviation keeps_ptable :: "('x proc_st_scheme, 'a) kern \<Rightarrow> bool" where
  "keeps_ptable m \<equiv> within (\<lambda>s t :: 'x proc_st_scheme. ptable_ok s \<longrightarrow> ptable_ok t) m"

lemma keeps_same:
  assumes "within (\<lambda>s t. ptable t = ptable s \<and> nextpid t = nextpid s \<and> curproc t = curproc s) m"
  shows "keeps_ptable m"
proof (rule withinI)
  show "ptable_ok s \<longrightarrow> ptable_ok t" if "m s = Ret x t" for s x t
    using withinD [OF assms that] by (simp add: ptable_ok_def pids_ok_def)
  show "ptable_ok s \<longrightarrow> ptable_ok t" if "m s = Switch t" for s t
    using withinD_Switch [OF assms that] by (simp add: ptable_ok_def pids_ok_def)
qed

lemma keeps_mod:
  "(\<And>s. ptable (f s) = ptable s) \<Longrightarrow> (\<And>s. nextpid (f s) = nextpid s) \<Longrightarrow> (\<And>s. curproc (f s) = curproc s)
   \<Longrightarrow> keeps_ptable (kmod f)"
  by (rule keeps_same) (simp add: within_def)

lemma keeps_kmem: "kmem_frame m \<Longrightarrow> keeps_ptable m"
proof (rule keeps_same, rule withinI)
  assume m: "kmem_frame m"
  show "ptable t = ptable s \<and> nextpid t = nextpid s \<and> curproc t = curproc s" if "m s = Ret x t" for s x t
    using kmem_more_proc [OF withinD [OF m that]] by simp
  show "ptable t = ptable s \<and> nextpid t = nextpid s \<and> curproc t = curproc s" if "m s = Switch t" for s t
    using kmem_more_proc [OF withinD_Switch [OF m that]] by simp
qed

lemma keeps_locks: "keeps_ptable (acquire l)" "keeps_ptable (release l)"
  by (rule keeps_kmem, rule kmem_frame_locks)+

lemma keeps_myproc: "keeps_ptable myproc"
  by (rule keeps_same) (simp add: within_def myproc_def split: option.split)

text \<open>An update of a slot that neither takes nor frees it, nor changes its pid.\<close>

lemma keeps_upd:
  assumes "\<And>q. p_state (f q) = p_state q" "\<And>q. p_pid (f q) = p_pid q"
  shows "keeps_ptable (upd_proc p f)"
  unfolding upd_proc_def
proof (rule ptab.within_kmod, rule impI)
  fix s :: "'b proc_st_scheme"
  assume "ptable_ok s"
  then show "ptable_ok (s\<lparr>ptable := (ptable s)(p := f (ptable s p))\<rparr>)"
    by (rule ptable_ok_frame) (auto simp: assms split: if_splits)
qed

lemma within_kretry:
  assumes "kern_relation R" "within R m"
  shows "within R (kretry m)"
proof -
  have "case kretry m s of Ret _ t \<Rightarrow> R s t | Switch t \<Rightarrow> R s t | _ \<Rightarrow> True" for s
  proof (induction "wakeups s" arbitrary: s rule: less_induct)
    case less
    show ?case
    proof (cases "m s")
      case (Ret r t)
      then have st: "R s t" by (rule withinD [OF assms(2)])
      show ?thesis
      proof (cases r)
        case None
        show ?thesis
        proof (cases "wakeups t < wakeups s")
          case True
          then have "kretry m s = kretry m t" using Ret None by (subst kretry.simps) simp
          with less [OF True] kern_relation.rel_trans [OF assms(1) st] show ?thesis
            by (simp split: outcome.splits)
        next
          case False
          then show ?thesis using Ret None by (subst kretry.simps) simp
        qed
      qed (use Ret st in \<open>subst kretry.simps, simp\<close>)
    next
      case (Switch t)
      then show ?thesis using withinD_Switch [OF assms(2) Switch] by (subst kretry.simps) simp
    qed (subst kretry.simps, simp)+
  qed
  then show ?thesis by (simp add: within_def)
qed

lemma keeps_kretry: "keeps_ptable m \<Longrightarrow> keeps_ptable (kretry m)"
  by (rule within_kretry [OF ptab.kern_relation_axioms])

lemma leave_proc_simps [simp]:
  "ptable (leave_proc s) = ptable s" "nextpid (leave_proc s) = nextpid s" "curproc (leave_proc s) = None"
  "held (leave_proc s) = held s" "wakeups (leave_proc s) = wakeups s" "pids_ok (leave_proc s) = pids_ok s"
  by (simp_all add: leave_proc_def pids_ok_def)

lemma ptable_ok_leave: "pids_ok s \<Longrightarrow> ptable_ok (leave_proc s)"
  by (simp add: ptable_ok_def)

lemma ptable_ok_resumed:
  assumes "env_ok env" "pids_ok s" "p < NPROC" "live_state (p_state (ptable s p))"
  shows "ptable_ok (resumed env p s)"
proof -
  have e: "pids_ok (env p (leave_proc s))" "live_state (p_state (ptable (env p (leave_proc s)) p))"
    using assms unfolding env_ok_def by simp_all
  have "pids_ok (resumed env p s)"
    by (rule pids_ok_frame [OF e(1)]) (use live_state_used [OF e(2)] in \<open>auto split: if_splits\<close>)
  then show ?thesis using assms(3) by (simp add: ptable_ok_def live_state_def)
qed

lemma keeps_sched:
  assumes "env_ok env"
  shows "keeps_ptable (sched env)"
proof (rule withinI)
  show "ptable_ok s \<longrightarrow> ptable_ok t" if "sched env s = Ret x t" for s x t
    using that
  proof (rule sched_Ret, intro impI)
    fix p assume t: "curproc s = Some p" "t = resumed env p s" "ptable_ok s"
    then have "pids_ok s" "p < NPROC" "live_state (p_state (ptable s p))" by (auto simp: ptable_ok_def)
    then show "ptable_ok t" unfolding t(2) by (rule ptable_ok_resumed [OF assms])
  qed
  show "ptable_ok s \<longrightarrow> ptable_ok t" if "sched env s = Switch t" for s t
    using sched_Switch [OF that] by (simp add: ptable_ok_def)
qed

lemma ptable_ok_own:
  assumes ok: "ptable_ok s" and p: "curproc s = Some p"
    and t: "nextpid t = nextpid s" "curproc t = curproc s" "ptable t = (ptable s)(p := q)"
    and q: "live_state (p_state q)" "p_pid q = p_pid (ptable s p)"
  shows "ptable_ok t"
proof -
  have "live_state (p_state (ptable s p))" using ok p by (simp add: ptable_ok_def)
  then show ?thesis
    by (intro ptable_ok_frame [OF ok]) (use t q live_state_used in \<open>auto split: if_splits\<close>)
qed

lemma sched_outcome:
  assumes "sched env s = Ret u t \<or> sched env s = Switch t"
  shows "held s = [PtableLock] \<and> (\<exists>p. curproc s = Some p)"
proof (cases "sched env s = Ret u t")
  case True
  then show ?thesis by (auto elim: sched_Ret)
next
  case False
  with assms have sw: "sched env s = Switch t" by simp
  note h = sched_Switch [OF sw]
  have "curproc s \<noteq> None"
  proof
    assume "curproc s = None"
    with h have "sched env s = Fault ''proc: null pointer''" by (simp add: sched_def myproc_def)
    with sw show False by simp
  qed
  with sched_Switch [OF sw] show ?thesis by auto
qed

lemma kseq_outcome:
  "kseq m n s = Ret x t \<or> kseq m n s = Switch t \<Longrightarrow> \<exists>y u. m s = Ret y u \<or> m s = Switch u"
  by (cases "m s") auto

lemma sleep_enters:
  assumes "sleep env ch lk s = Ret u t \<or> sleep env ch lk s = Switch t"
  shows "held s = [lk] \<and> (\<exists>p. curproc s = Some p)"
proof -
  have "curproc s \<noteq> None"
  proof
    assume "curproc s = None"
    then have "sleep env ch lk s = Panic ''sleep''" by (simp add: sleep_def)
    with assms show False by simp
  qed
  then obtain p where p: "curproc s = Some p" by auto
  let ?rest = "kseq (upd_proc p (\<lambda>q. q\<lparr>p_chan := None\<rparr>))
      (kwhen (lk \<noteq> PtableLock) (kseq (release PtableLock) (acquire lk)))"
  let ?q = "(ptable s p)\<lparr>p_chan := Some ch, p_state := SLEEPING\<rparr>"
  have "held s = [lk]"
  proof (cases "lk = PtableLock")
    case True
    let ?s = "s\<lparr>ptable := (ptable s)(p := ?q)\<rparr>"
    have sl: "sleep env ch lk s = kseq (sched env) ?rest ?s"
      using True p by (simp add: sleep_def)
    have "\<exists>y v. sched env ?s = Ret y v \<or> sched env ?s = Switch v"
      by (rule kseq_outcome) (use assms in \<open>simp only: sl\<close>)
    then have "held ?s = [PtableLock]" using sched_outcome by blast
    with True show ?thesis by simp
  next
    case False
    let ?s = "s\<lparr>held := remove1 lk (PtableLock # held s), ptable := (ptable s)(p := ?q)\<rparr>"
    have l: "PtableLock \<notin> set (held s)" "lk \<in> set (held s)"
    proof -
      have a: "sleep env ch lk s = Panic ''acquire''" if "PtableLock \<in> set (held s)"
        using that p False by (simp add: sleep_def)
      have b: "sleep env ch lk s = Panic ''release''" if "PtableLock \<notin> set (held s)" "lk \<notin> set (held s)"
        using that p False by (simp add: sleep_def)
      show 1: "PtableLock \<notin> set (held s)" using a assms by auto
      show "lk \<in> set (held s)" using b [OF 1] assms by (cases "lk \<in> set (held s)") auto
    qed
    then have sl: "sleep env ch lk s = kseq (sched env) ?rest ?s"
      using False p by (simp add: sleep_def)
    have "\<exists>y v. sched env ?s = Ret y v \<or> sched env ?s = Switch v"
      by (rule kseq_outcome) (use assms in \<open>simp only: sl\<close>)
    then have "held ?s = [PtableLock]" using sched_outcome by blast
    then have "remove1 lk (PtableLock # held s) = [PtableLock]" by simp
    then have "remove1 lk (held s) = []" using False by auto
    with l(2) show ?thesis by (cases "held s") (auto split: if_splits)
  qed
  with p show ?thesis by simp
qed

lemma ptable_ok_asleep:
  assumes "ptable_ok s" "curproc s = Some p"
  shows "ptable_ok (asleep ch p s)"
  by (rule ptable_ok_own [OF assms, where q = "(ptable s p)\<lparr>p_chan := Some ch, p_state := SLEEPING\<rparr>"])
    (simp_all add: live_state_def)

lemma ptable_ok_awake:
  assumes "env_ok env" "ptable_ok s" "curproc s = Some p"
  shows "ptable_ok (awake env ch lk p s)"
proof -
  have "ptable_ok (resumed env p (asleep ch p s))"
    by (rule ptable_ok_resumed [OF assms(1)])
      (use ptable_ok_asleep [OF assms(2,3), of ch] assms(3) in \<open>auto simp: ptable_ok_def live_state_def\<close>)
  then show ?thesis
    unfolding awake_def Let_def
    by (rule ptable_ok_own [where p = p and q = "(ptable (resumed env p (asleep ch p s)) p)\<lparr>p_chan := None\<rparr>"])
      (simp_all add: live_state_def)
qed

lemma keeps_sleep:
  assumes "env_ok env"
  shows "keeps_ptable (sleep env ch lk)"
proof (rule withinI; intro impI)
  show "ptable_ok t" if "sleep env ch lk s = Ret x t" "ptable_ok s" for s x t
    using that(1) by (rule sleep_Ret) (use ptable_ok_awake [OF assms that(2)] in simp)
  show "ptable_ok t" if sw: "sleep env ch lk s = Switch t" and ok: "ptable_ok s" for s t
  proof -
    have "held s = [lk]" using sleep_enters sw by blast
    then obtain p where p: "curproc s = Some p" "t = leave_proc (asleep ch p s)"
      using sleep_Switch [OF sw] by blast
    show ?thesis
      unfolding p(2) by (rule ptable_ok_leave) (use ptable_ok_asleep [OF ok p(1)] in \<open>simp add: ptable_ok_def\<close>)
  qed
qed

lemma keeps_yield:
  assumes "env_ok env"
  shows "keeps_ptable (yield env)"
proof -
  have "keeps_ptable (kbind myproc (\<lambda>p. upd_proc p (\<lambda>q. q\<lparr>p_state := RUNNABLE\<rparr>)))"
  proof (rule withinI; intro impI)
    show "ptable_ok t" if "kbind myproc (\<lambda>p. upd_proc p (\<lambda>q. q\<lparr>p_state := RUNNABLE\<rparr>)) s = Ret x t" "ptable_ok s" for s x t
      using that(1) by (auto simp: kbind_eq_Ret myproc_eq_Ret live_state_def intro!: ptable_ok_own [OF that(2)])
  qed (auto simp: kbind_def myproc_def split: option.splits)
  then have "keeps_ptable (kseq (acquire PtableLock) (kseq (kbind myproc (\<lambda>p. upd_proc p (\<lambda>q. q\<lparr>p_state := RUNNABLE\<rparr>)))
      (kseq (sched env) (release PtableLock))))"
    by (intro ptab.within_kseq keeps_locks keeps_sched assms)
  moreover have "yield env = kseq (acquire PtableLock) (kseq (kbind myproc (\<lambda>p. upd_proc p (\<lambda>q. q\<lparr>p_state := RUNNABLE\<rparr>)))
      (kseq (sched env) (release PtableLock)))"
    unfolding yield_def by (rule arg_cong [where f = "kseq (acquire PtableLock)"])
      (auto simp: kseq_def kbind_def myproc_def fun_eq_iff split: option.split)
  ultimately show ?thesis by simp
qed

lemma keeps_switchuvm: "keeps_ptable (switchuvm p)"
  unfolding switchuvm_def by (intro ptab.within_rules keeps_myproc keeps_mod) simp_all

lemma keeps_wakeup1: "keeps_ptable (wakeup1 ch)"
proof (rule withinI)
  show "ptable_ok s \<longrightarrow> ptable_ok t" if "wakeup1 ch s = Ret x t" for s x t
  proof
    assume ok: "ptable_ok s"
    have t: "t = s\<lparr>ptable := wake_table ch (ptable s)\<rparr>" using that by (simp add: wakeup1_eq)
    show "ptable_ok t"
      unfolding t by (rule ptable_ok_frame [OF ok]) (auto simp: wake_table_def live_state_def)
  qed
qed (simp add: wakeup1_eq)

lemma keeps_wakeup: "keeps_ptable (wakeup ch)"
  unfolding wakeup_def by (intro ptab.within_rules keeps_locks keeps_wakeup1)

lemma keeps_upd_wake:
  "keeps_ptable (upd_proc p (\<lambda>q. if p_state q = SLEEPING then q\<lparr>p_state := RUNNABLE\<rparr> else q))"
  unfolding upd_proc_def
proof (rule ptab.within_kmod, rule impI)
  fix s assume "ptable_ok s"
  then show "ptable_ok (s\<lparr>ptable := (ptable s)(p := if p_state (ptable s p) = SLEEPING
      then (ptable s p)\<lparr>p_state := RUNNABLE\<rparr> else ptable s p)\<rparr>)"
    by (rule ptable_ok_frame) (auto simp: live_state_def split: if_splits)
qed

lemma keeps_kill: "keeps_ptable (kill pid)"
  unfolding kill_def by (intro ptab.within_rules keeps_locks keeps_upd_wake keeps_upd) simp_all

lemma ptable_ok_alloc:
  assumes ok: "ptable_ok s" and p: "p < NPROC" "p_state (ptable s p) = UNUSED"
    and q: "p_state q = EMBRYO" "p_pid q = nextpid s"
    and t: "ptable t = (ptable s)(p := q)" "nextpid t = nextpid s + 1" "curproc t = curproc s"
  shows "ptable_ok t"
proof -
  have s: "pids_ok s" using ok by (simp add: ptable_ok_def)
  have A: "0 < p_pid (ptable s i) \<and> p_pid (ptable s i) < nextpid s" if "i < NPROC" "p_state (ptable s i) \<noteq> UNUSED" for i
    using s that unfolding pids_ok_def by blast
  have B: "i = j" if "i < NPROC" "j < NPROC" "p_state (ptable s i) \<noteq> UNUSED" "p_state (ptable s j) \<noteq> UNUSED"
    "p_pid (ptable s i) = p_pid (ptable s j)" for i j
    using s that unfolding pids_ok_def by blast
  have n: "0 < nextpid s" using s by (simp add: pids_ok_def)
  have "pids_ok t"
    unfolding pids_ok_def t(1,2)
  proof (intro conjI allI impI)
    show "0 < nextpid s + 1" using n by simp
  next
    fix i assume i: "i < NPROC" "p_state (((ptable s)(p := q)) i) \<noteq> UNUSED"
    show "0 < p_pid (((ptable s)(p := q)) i)" "p_pid (((ptable s)(p := q)) i) < nextpid s + 1"
      using A [OF i(1)] i(2) q(2) n by (cases "i = p"; simp)+
  next
    fix i j
    assume ij: "i < NPROC" "j < NPROC" "p_state (((ptable s)(p := q)) i) \<noteq> UNUSED"
      "p_state (((ptable s)(p := q)) j) \<noteq> UNUSED" "p_pid (((ptable s)(p := q)) i) = p_pid (((ptable s)(p := q)) j)"
    show "i = j"
    proof (rule ccontr)
      assume ne: "i \<noteq> j"
      consider "i = p" "j \<noteq> p" | "j = p" "i \<noteq> p" | "i \<noteq> p" "j \<noteq> p" using ne by blast
      then show False
      proof cases
        case 1
        with ij(4,5) A [OF ij(2)] q(2) show False by simp
      next
        case 2
        with ij(3,5) A [OF ij(1)] q(2) show False by simp
      next
        case 3
        with ij(3-5) B [OF ij(1,2)] ne show False by simp
      qed
    qed
  qed
  moreover have "p \<noteq> c" if "curproc s = Some c" for c
    using ok that p(2) by (auto simp: ptable_ok_def live_state_def)
  ultimately show ?thesis using ok t by (auto simp: ptable_ok_def)
qed

lemma keeps_alloc_slot: "keeps_ptable alloc_slot"
proof (rule withinI)
  show "ptable_ok s \<longrightarrow> ptable_ok t" if a: "alloc_slot s = Ret x t" for s x t
  proof
    assume ok: "ptable_ok s"
    have l: "PtableLock \<notin> set (held s)" using a by (auto simp: alloc_slot_def kseq_eq_Ret acquire_eq_Ret)
    show "ptable_ok t"
    proof (cases "first_index (\<lambda>i. p_state (ptable s i) = UNUSED) NPROC")
      case None
      then have "t = s" using a l by (auto simp: alloc_slot_def)
      with ok show ?thesis by simp
    next
      case (Some p)
      then have p: "p < NPROC" "p_state (ptable s p) = UNUSED" by (auto simp: first_index_Some_iff)
      let ?q = "(ptable s p)\<lparr>p_state := EMBRYO, p_pid := nextpid s\<rparr>"
      have "ptable t = (ptable s)(p := ?q)" "nextpid t = nextpid s + 1" "curproc t = curproc s"
        using a l Some by (auto simp: alloc_slot_def split: if_splits)
      then show ?thesis by (rule ptable_ok_alloc [OF ok p, rotated 2]) simp_all
    qed
  qed
  show "ptable_ok s \<longrightarrow> ptable_ok t" if a: "alloc_slot s = Switch t" for s t
    using a by (cases "PtableLock \<in> set (held s)"; cases "first_index (\<lambda>i. p_state (ptable s i) = UNUSED) NPROC")
      (auto simp: alloc_slot_def split: if_splits)
qed

lemma keeps_sys_uptime: "keeps_ptable sys_uptime"
  unfolding sys_uptime_def by (intro ptab.within_rules keeps_locks)

text \<open>Freeing or rewriting a slot that is not the current process.\<close>

lemma ptable_ok_other:
  assumes ok: "ptable_ok s" and p: "\<not> live_state (p_state (ptable s p))"
    and t: "ptable t = (ptable s)(p := q)" "nextpid t = nextpid s" "curproc t = curproc s"
    and q: "p_state q = UNUSED \<or> (p_state q = p_state (ptable s p) \<and> p_pid q = p_pid (ptable s p))"
  shows "ptable_ok t"
proof (rule ptable_ok_frame [OF ok t(2,3)])
  show "p_state (ptable s i) \<noteq> UNUSED \<and> p_pid (ptable t i) = p_pid (ptable s i)"
    if "p_state (ptable t i) \<noteq> UNUSED" for i
    using that q by (cases "i = p") (auto simp: t)
  show "live_state (p_state (ptable t i))" if "curproc s = Some i" "live_state (p_state (ptable s i))" for i
    using that p by (cases "i = p") (auto simp: t)
qed

lemma alloc_slot_Some:
  assumes "alloc_slot s = Ret (Some p) t"
  shows "p_state (ptable t p) = EMBRYO"
proof -
  have l: "PtableLock \<notin> set (held s)" using assms by (auto simp: alloc_slot_def kseq_eq_Ret acquire_eq_Ret)
  obtain i where i: "first_index (\<lambda>i. p_state (ptable s i) = UNUSED) NPROC = Some i"
    using assms l by (cases "first_index (\<lambda>i. p_state (ptable s i) = UNUSED) NPROC") (auto simp: alloc_slot_def)
  then show ?thesis using assms l by (auto simp: alloc_slot_def split: if_splits)
qed

lemma kmem_frame_sys_uptime: "sys_uptime s = Ret x t \<Longrightarrow> t = s"
  by (auto simp: sys_uptime_def kseq_eq_Ret kbind_eq_Ret acquire_eq_Ret release_eq_Ret)

lemma kmem_keep:
  fixes s :: "'x proc_st_scheme"
  assumes "kmem_frame m" "m s = Ret x t"
  shows "ptable t = ptable s \<and> nextpid t = nextpid s \<and> curproc t = curproc s \<and> wakeups t = wakeups s"
  using kmem_more_proc [OF withinD [OF assms]] by simp

lemma allocproc_ok:
  assumes ok: "ptable_ok s" and a: "allocproc s = Ret x t"
  shows "ptable_ok t"
proof -
  obtain o' s1 where s1: "alloc_slot s = Ret o' s1" and rest: "(case o' of None \<Rightarrow> kret None | Some p \<Rightarrow>
     kbind kalloc (\<lambda>ks.
     kseq (upd_proc p (\<lambda>q. q\<lparr>p_kstack := ks\<rparr>))
    (if ks = 0 then kseq (upd_proc p (\<lambda>q. q\<lparr>p_state := UNUSED\<rparr>)) (kret None)
     else kseq (upd_proc p (\<lambda>q. q\<lparr>p_ret := Trapret, p_context := zero_context\<lparr>cx_eip := Forkret\<rparr>\<rparr>))
         (kbind sys_uptime (\<lambda>t.
          kseq (upd_proc p (\<lambda>q. q\<lparr>p_initial_burst := t, p_sburst := t, p_burst_idx := 0,
                 p_burstarr := replicate MAX_NUM_BURSTS 0\<rparr>))
          (kret (Some p))))))) s1 = Ret x t"
    using a unfolding allocproc_def by (elim kbind_RetE) blast
  have ok1: "ptable_ok s1" using withinD [OF keeps_alloc_slot s1] ok by blast
  show ?thesis
  proof (cases o')
    case None
    with rest ok1 show ?thesis by simp
  next
    case (Some p)
    obtain ks s2 where s2: "kalloc s1 = Ret ks s2" using rest Some by (auto simp: kbind_eq_Ret)
    note k = kmem_keep [OF kmem_frame_kalloc s2]
    have emb: "p_state (ptable s2 p) = EMBRYO" using alloc_slot_Some s1 Some k by auto
    have ok2: "ptable_ok s2" using ok1 k by (auto simp: ptable_ok_def pids_ok_def)
    have "\<exists>q. ptable t = (ptable s2)(p := q) \<and> nextpid t = nextpid s2 \<and> curproc t = curproc s2
        \<and> (p_state q = UNUSED \<or> p_state q = p_state (ptable s2 p) \<and> p_pid q = p_pid (ptable s2 p))"
    proof (cases "ks = 0")
      case True
      with rest Some s2 show ?thesis by auto
    next
      case False
      with rest Some s2 show ?thesis by (auto simp: kbind_eq_Ret dest!: kmem_frame_sys_uptime)
    qed
    moreover have "\<not> live_state (p_state (ptable s2 p))" using emb by (simp add: live_state_def)
    ultimately show ?thesis using ptable_ok_other [OF ok2] by blast
  qed
qed

text \<open>Work on a slot that is not running: the invariant, and that the slot stays so.\<close>

definition slot_ok :: "nat \<Rightarrow> 'x proc_st_scheme \<Rightarrow> bool" where
  "slot_ok p s \<longleftrightarrow> ptable_ok s \<and> \<not> live_state (p_state (ptable s p))"

interpretation slot: kern_relation "\<lambda>s t :: 'x proc_st_scheme. slot_ok p s \<longrightarrow> slot_ok p t" for p
  by unfold_locales auto

lemma slot_kmem: "kmem_frame m \<Longrightarrow> within (\<lambda>s t :: 'x proc_st_scheme. slot_ok p s \<longrightarrow> slot_ok p t) m"
proof (rule withinI)
  assume m: "kmem_frame m"
  show "slot_ok p s \<longrightarrow> slot_ok p t" if "m s = Ret x t" for s x t
    using kmem_more_proc [OF withinD [OF m that]] by (simp add: slot_ok_def ptable_ok_def pids_ok_def)
  show "slot_ok p s \<longrightarrow> slot_ok p t" if "m s = Switch t" for s t
    using kmem_more_proc [OF withinD_Switch [OF m that]] by (simp add: slot_ok_def ptable_ok_def pids_ok_def)
qed

lemma slot_upd:
  assumes "\<And>q. p_state (f q) = UNUSED \<or> p_state (f q) = p_state q \<and> p_pid (f q) = p_pid q"
  shows "within (\<lambda>s t :: 'x proc_st_scheme. slot_ok p s \<longrightarrow> slot_ok p t) (upd_proc p f)"
  unfolding upd_proc_def
proof (rule slot.within_kmod, rule impI)
  fix s :: "'x proc_st_scheme"
  assume s: "slot_ok p s"
  have "ptable_ok (s\<lparr>ptable := (ptable s)(p := f (ptable s p))\<rparr>)"
  proof (rule ptable_ok_other)
    show "ptable_ok s" "\<not> live_state (p_state (ptable s p))" using s by (simp_all add: slot_ok_def)
    show "p_state (f (ptable s p)) = UNUSED
        \<or> p_state (f (ptable s p)) = p_state (ptable s p) \<and> p_pid (f (ptable s p)) = p_pid (ptable s p)"
      by (rule assms)
  qed simp_all
  then show "slot_ok p (s\<lparr>ptable := (ptable s)(p := f (ptable s p))\<rparr>)"
    using s assms [of "ptable s p"] by (auto simp: slot_ok_def live_state_def)
qed

lemma slot_vstore: "within (\<lambda>s t :: 'x proc_st_scheme. slot_ok p s \<longrightarrow> slot_ok p t) (vstore32 va w)"
proof -
  have "within (\<lambda>s t :: 'x proc_st_scheme. slot_ok p s \<longrightarrow> slot_ok p t) (vstore8 v b)" for v b
    by (rule withinI) (auto simp: vstore8_def slot_ok_def ptable_ok_def pids_ok_def split: option.splits)
  then show ?thesis unfolding vstore32_def by (intro slot.within_rules)
qed

lemmas slot_rules = slot.within_rules slot_kmem [OF kmem_frame_kfree] slot_kmem [OF kmem_frame_freevm]
  slot_kmem [OF kmem_frame_locks(2)] slot_upd slot_vstore

lemma keeps_slot:
  assumes "within (\<lambda>s t. slot_ok p s \<longrightarrow> slot_ok p t) m" "\<not> live_state (p_state (ptable s p))"
  shows "case m s of Ret _ t \<Rightarrow> ptable_ok s \<longrightarrow> ptable_ok t | Switch t \<Rightarrow> ptable_ok s \<longrightarrow> ptable_ok t | _ \<Rightarrow> True"
  using assms unfolding within_def slot_ok_def by (auto split: outcome.splits)

lemma keeps_wait_turn:
  assumes env: "env_ok env"
  shows "keeps_ptable (wait_turn env c)"
  unfolding within_def
proof (rule allI)
  fix s :: "'a proc_st_scheme"
  have sl: "keeps_ptable (kseq (sleep env (ChanProc c) PtableLock) (kret (None :: int option)))"
    "keeps_ptable (kseq (release PtableLock) (kret (Some (-1 :: int))))"
    by (intro ptab.within_rules keeps_sleep env keeps_locks)+
  show "case wait_turn env c s of Ret _ t \<Rightarrow> ptable_ok s \<longrightarrow> ptable_ok t | Switch t \<Rightarrow> ptable_ok s \<longrightarrow> ptable_ok t | _ \<Rightarrow> True"
  proof (cases "first_index (\<lambda>i. is_child s c i \<and> p_state (ptable s i) = ZOMBIE) NPROC")
    case None
    then show ?thesis
      using sl [unfolded within_def, rule_format, of s] by (simp add: wait_turn_def)
  next
    case (Some p)
    then have nl: "\<not> live_state (p_state (ptable s p))" by (auto simp: first_index_Some_iff live_state_def)
    let ?m = "kseq (kfree (p_kstack (ptable s p)))
          (kseq (upd_proc p (\<lambda>q. q\<lparr>p_kstack := 0\<rparr>))
          (kseq (freevm (p_pgdir (ptable s p)))
          (kseq (upd_proc p clear_slot)
          (kseq (release PtableLock) (kret (Some (p_pid (ptable s p))))))))"
    have "within (\<lambda>s t. slot_ok p s \<longrightarrow> slot_ok p t) ?m"
      by (intro slot_rules) (simp_all add: clear_slot_def)
    moreover have "wait_turn env c s = ?m s" by (simp only: wait_turn_def Some option.case Let_def)
    ultimately show ?thesis using keeps_slot [OF _ nl, of ?m] by simp
  qed
qed

lemma keeps_join_turn:
  assumes env: "env_ok env"
  shows "keeps_ptable (join_turn env stack c)"
  unfolding within_def
proof (rule allI)
  fix s :: "'a proc_st_scheme"
  have sl: "keeps_ptable (kseq (sleep env (ChanProc c) PtableLock) (kret (None :: int option)))"
    "keeps_ptable (kseq (release PtableLock) (kret (Some (-1 :: int))))"
    by (intro ptab.within_rules keeps_sleep env keeps_locks)+
  show "case join_turn env stack c s of Ret _ t \<Rightarrow> ptable_ok s \<longrightarrow> ptable_ok t | Switch t \<Rightarrow> ptable_ok s \<longrightarrow> ptable_ok t | _ \<Rightarrow> True"
  proof (cases "first_index (\<lambda>i. is_thread_child s c i \<and> p_state (ptable s i) = ZOMBIE) NPROC")
    case None
    then show ?thesis
      using sl [unfolded within_def, rule_format, of s] by (simp add: join_turn_def)
  next
    case (Some p)
    then have nl: "\<not> live_state (p_state (ptable s p))" by (auto simp: first_index_Some_iff live_state_def)
    let ?m = "kseq (kfree (p_kstack (ptable s p)))
          (kseq (upd_proc p (\<lambda>q. q\<lparr>p_kstack := 0\<rparr>))
          (kseq (upd_proc p clear_slot)
          (kseq (vstore32 stack (p_thread_stack_top (ptable s p)))
          (kseq (release PtableLock) (kret (Some (p_pid (ptable s p))))))))"
    have "within (\<lambda>s t. slot_ok p s \<longrightarrow> slot_ok p t) ?m"
      by (intro slot_rules) (simp_all add: clear_slot_def)
    moreover have "join_turn env stack c s = ?m s" by (simp only: join_turn_def Some option.case Let_def)
    ultimately show ?thesis using keeps_slot [OF _ nl, of ?m] by simp
  qed
qed

lemma keeps_wait: "env_ok env \<Longrightarrow> keeps_ptable (wait env)"
  unfolding wait_def by (intro ptab.within_rules keeps_locks keeps_myproc keeps_kretry keeps_wait_turn)

lemma keeps_thread_join: "env_ok env \<Longrightarrow> keeps_ptable (thread_join env stack)"
  unfolding thread_join_def by (intro ptab.within_rules keeps_locks keeps_myproc keeps_kretry keeps_join_turn)

lemma keeps_growproc: "keeps_ptable (growproc n)"
  unfolding growproc_def
  by (intro ptab.within_rules keeps_myproc keeps_kmem [OF kmem_frame_allocuvm]
      keeps_kmem [OF kmem_frame_deallocuvm] keeps_upd keeps_switchuvm) simp_all

subsection \<open>Properties\<close>

text \<open>The state of a machine that has just booted: an all-zero process table.\<close>

definition zero_tf :: trapframe where
  "zero_tf = \<lparr>tf_edi = 0, tf_esi = 0, tf_ebp = 0, tf_oesp = 0, tf_ebx = 0, tf_edx = 0, tf_ecx = 0, tf_eax = 0,
     tf_gs = 0, tf_fs = 0, tf_es = 0, tf_ds = 0, tf_trapno = 0, tf_err = 0, tf_eip = 0, tf_cs = 0,
     tf_eflags = 0, tf_esp = 0, tf_ss = 0\<rparr>"

definition zero_proc :: proc where
  "zero_proc = \<lparr>p_sz = 0, p_pgdir = 0, p_kstack = 0, p_state = UNUSED, p_pid = 0, p_parent = None,
     p_tf = zero_tf, p_ret = CodeAt 0, p_context = zero_context, p_chan = None, p_killed = False,
     p_ofile = replicate NOFILE None, p_cwd = None, p_name = [], p_burstarr = replicate MAX_NUM_BURSTS 0,
     p_burst_idx = 0, p_sburst = 0, p_initial_burst = 0, p_turnaround = 0, p_thread_stack_top = 0\<rparr>"

definition boot_st :: proc_st where
  "boot_st = \<lparr>held = [], cons_locking = False, panicked = False, uart_on = False, serial_out = [],
     crt = (\<lambda>_. 0), crt_pos = 0, k_mem = (\<lambda>_. 0), k_freelist = 0, k_use_lock = False,
     k_end = 0x80200000, vm_data = 0x8010a000, kpgdir = 0x80400000, cr3 = 0x400000, ts_esp0 = 0, ts_ss0 = 0,
     ptable = (\<lambda>_. zero_proc), curproc = None, initproc = None, nextpid = 1, ticks = 0,
     thread_locks = replicate MAX_NUM_LOCKS 0, nextLockId = 1, fork_first = True, wakeups = 0\<rparr>"

text \<open>Process 0 of the table running, with its address space.\<close>

definition one_proc_st :: proc_st where
  "one_proc_st = boot_st\<lparr>curproc := Some 0, nextpid := 2,
     ptable := (\<lambda>_. zero_proc)(0 := zero_proc\<lparr>p_state := RUNNING, p_pid := 1, p_pgdir := 0x80500000\<rparr>)\<rparr>"

lemma one_proc_ok: "ptable_ok one_proc_st"
  by (auto simp: ptable_ok_def pids_ok_def one_proc_st_def zero_proc_def live_state_def NPROC_def)





text \<open>
  \<open>kill(0)\<close>. Free slots have pid 0, and \<open>kill\<close> does not look at the state of the slot it
  finds: \<open>kill(0)\<close> succeeds and marks a free slot as killed. \<open>allocproc\<close> does not reset the
  mark, so the next process that gets the slot is born killed.
\<close>

lemma kill_zero_marks_free_slot:
  assumes l: "PtableLock \<notin> set (held s)" and n: "nextpid s < INT_MAX"
    and p: "first_index (\<lambda>i. p_pid (ptable s i) = 0) NPROC = Some p"
    and u: "first_index (\<lambda>i. p_state (ptable s i) = UNUSED) NPROC = Some p"
  shows "\<exists>t u. kill 0 s = Ret 0 t \<and> alloc_slot t = Ret (Some p) u
    \<and> p_killed (ptable u p) \<and> p_state (ptable u p) = EMBRYO \<and> p_pid (ptable u p) = nextpid s"
proof -
  have pu: "p_state (ptable s p) = UNUSED" using u by (auto simp: first_index_Some_iff)
  let ?t = "s\<lparr>ptable := (ptable s)(p := (ptable s p)\<lparr>p_killed := True\<rparr>)\<rparr>"
  have k: "kill 0 s = Ret 0 ?t" using l p pu by (simp add: kill_def fun_upd_idem)
  have "first_index (\<lambda>i. p_state (ptable ?t i) = UNUSED) NPROC = Some p"
    using u by (auto simp: first_index_Some_iff)
  then show ?thesis using k l n by (auto simp: alloc_slot_def)
qed

lemma kill_zero_marks_free_slot_witness:
  "\<exists>t u. kill 0 boot_st = Ret 0 t \<and> alloc_slot t = Ret (Some 0) u \<and> p_killed (ptable u 0)"
  using kill_zero_marks_free_slot [of boot_st 0]
  by (auto simp: boot_st_def zero_proc_def INT_MAX_def first_index_Some_iff NPROC_def)

end
