(* ===== verification/Bio.thy ===== *)
theory Bio
  imports Proc
begin

section \<open>bio.c and memide.c: the buffer cache\<close>

text \<open>
  The buffer cache of \<^verbatim>\<open>src/bio.c\<close> over the disk of \<^verbatim>\<open>src/memide.c\<close>. The flag bits of a
  buffer are three fields. The doubly-linked list through \<open>prev\<close> and \<open>next\<close> is the list
  \<open>mru\<close> of buffer numbers, most recently used first. The disk is a function from sector
  numbers to blocks; \<open>disk_writes\<close> records the writes in order, newest first, so that a
  crash between two of them can be described.
\<close>

record buf =
  b_busy :: bool
  b_valid :: bool
  b_dirty :: bool
  b_dev :: u32
  b_sector :: u32
  b_data :: block

record bio_st = proc_st +
  bufs :: "nat \<Rightarrow> buf"
  mru :: "nat list"
  disk :: "u32 \<Rightarrow> block"
  disksize :: u32
  disk_writes :: "(u32 \<times> block) list"

definition upd_buf :: "nat \<Rightarrow> (buf \<Rightarrow> buf) \<Rightarrow> ('x bio_st_scheme, unit) kern" where
  "upd_buf b f = kmod (\<lambda>s. s\<lparr>bufs := (bufs s)(b := f (bufs s b))\<rparr>)"

definition upd_data :: "nat \<Rightarrow> (block \<Rightarrow> block) \<Rightarrow> ('x bio_st_scheme, unit) kern" where
  "upd_data b f = upd_buf b (\<lambda>q. q\<lparr>b_data := f (b_data q)\<rparr>)"

definition bdata :: "nat \<Rightarrow> ('x bio_st_scheme, block) kern" where
  "bdata b = kget (\<lambda>s. b_data (bufs s b))"

lemma upd_buf_apply [simp]: "upd_buf b f s = Ret () (s\<lparr>bufs := (bufs s)(b := f (bufs s b))\<rparr>)"
  by (simp add: upd_buf_def)

lemma upd_data_apply [simp]:
  "upd_data b f s = Ret () (s\<lparr>bufs := (bufs s)(b := (bufs s b)\<lparr>b_data := f (b_data (bufs s b))\<rparr>)\<rparr>)"
  by (simp add: upd_data_def)

lemma bdata_apply [simp]: "bdata b s = Ret (b_data (bufs s b)) s"
  by (simp add: bdata_def)

subsection \<open>The disk\<close>

definition iderw :: "nat \<Rightarrow> ('x bio_st_scheme, unit) kern" where
  "iderw b = kbind (kget (\<lambda>s. bufs s b)) (\<lambda>q. kbind (kget disksize) (\<lambda>n.
     if \<not> b_busy q then panic ''iderw: buf not busy''
     else if b_valid q \<and> \<not> b_dirty q then panic ''iderw: nothing to do''
     else if b_dev q \<noteq> 1 then panic ''iderw: request not for disk 1''
     else if n \<le> b_sector q then panic ''iderw: sector out of range''
     else kseq (if b_dirty q
            then kseq (upd_buf b (\<lambda>q. q\<lparr>b_dirty := False\<rparr>))
                  (kmod (\<lambda>s. s\<lparr>disk := (disk s)(b_sector q := b_data q),
                       disk_writes := (b_sector q, b_data q) # disk_writes s\<rparr>))
            else kbind (kget disk) (\<lambda>d. upd_data b (\<lambda>_. d (b_sector q))))
         (upd_buf b (\<lambda>q. q\<lparr>b_valid := True\<rparr>))))"

subsection \<open>The cache\<close>

definition binit :: "('x bio_st_scheme, unit) kern" where
  "binit = kseq (kmod (\<lambda>s. s\<lparr>mru := []\<rparr>))
     (kfor [0..<NBUF] (\<lambda>b. kseq (upd_buf b (\<lambda>q. q\<lparr>b_dev := -1\<rparr>)) (kmod (\<lambda>s. s\<lparr>mru := b # mru s\<rparr>))))"

definition bget_turn :: "'x bio_st_scheme env \<Rightarrow> u32 \<Rightarrow> u32 \<Rightarrow> ('x bio_st_scheme, nat option) kern" where
  "bget_turn env dev sector = (\<lambda>s.
     case find (\<lambda>b. b_dev (bufs s b) = dev \<and> b_sector (bufs s b) = sector) (mru s) of
       Some b \<Rightarrow>
         if \<not> b_busy (bufs s b)
         then kseq (upd_buf b (\<lambda>q. q\<lparr>b_busy := True\<rparr>)) (kseq (release BcacheLock) (kret (Some b))) s
         else kseq (sleep env (ChanBuf b) BcacheLock) (kret None) s
     | None \<Rightarrow>
         (case find (\<lambda>b. \<not> b_busy (bufs s b) \<and> \<not> b_dirty (bufs s b)) (rev (mru s)) of
            Some b \<Rightarrow>
              kseq (upd_buf b (\<lambda>q. q\<lparr>b_dev := dev, b_sector := sector, b_busy := True,
                     b_valid := False, b_dirty := False\<rparr>))
             (kseq (release BcacheLock) (kret (Some b))) s
          | None \<Rightarrow> panic ''bget: no buffers'' s))"

definition bget :: "'x bio_st_scheme env \<Rightarrow> u32 \<Rightarrow> u32 \<Rightarrow> ('x bio_st_scheme, nat) kern" where
  "bget env dev sector = kseq (acquire BcacheLock) (kretry (bget_turn env dev sector))"

definition bread :: "'x bio_st_scheme env \<Rightarrow> u32 \<Rightarrow> u32 \<Rightarrow> ('x bio_st_scheme, nat) kern" where
  "bread env dev sector = kbind (bget env dev sector) (\<lambda>b.
     kbind (kget (\<lambda>s. b_valid (bufs s b))) (\<lambda>v.
     kseq (kwhen (\<not> v) (iderw b)) (kret b)))"

definition bwrite :: "nat \<Rightarrow> ('x bio_st_scheme, unit) kern" where
  "bwrite b = kbind (kget (\<lambda>s. b_busy (bufs s b))) (\<lambda>busy.
     if \<not> busy then panic ''bwrite''
     else kseq (upd_buf b (\<lambda>q. q\<lparr>b_dirty := True\<rparr>)) (iderw b))"

definition brelse :: "nat \<Rightarrow> ('x bio_st_scheme, unit) kern" where
  "brelse b = kbind (kget (\<lambda>s. b_busy (bufs s b))) (\<lambda>busy.
     if \<not> busy then panic ''brelse''
     else kseq (acquire BcacheLock)
         (kseq (kmod (\<lambda>s. s\<lparr>mru := b # remove1 b (mru s)\<rparr>))
         (kseq (upd_buf b (\<lambda>q. q\<lparr>b_busy := False\<rparr>))
         (kseq (wakeup (ChanBuf b)) (release BcacheLock)))))"

end
