(* ===== verification/Log.thy ===== *)
theory Log
  imports Bio
begin

section \<open>log.c: the write-ahead log\<close>

text \<open>
  \<^verbatim>\<open>src/log.c\<close> and \<open>readsb\<close> of \<^verbatim>\<open>src/fs.c\<close>. \<open>lh_sector\<close> is the array of \<open>LOGSIZE\<close> sector
  numbers of the in-memory header. Writing an entry outside this array, which \<open>read_head\<close>
  does when the count on the disk is too large, is a fault.
\<close>

record superblock =
  sb_size :: u32
  sb_nblocks :: u32
  sb_ninodes :: u32
  sb_nlog :: u32

record log_st = bio_st +
  log_start :: u32
  log_size :: int
  log_busy :: bool
  log_dev :: u32
  lh_n :: int
  lh_sector :: "u32 list"

definition readsb :: "'x bio_st_scheme env \<Rightarrow> u32 \<Rightarrow> ('x bio_st_scheme, superblock) kern" where
  "readsb env dev = kbind (bread env dev 1) (\<lambda>bp. kbind (bdata bp) (\<lambda>d.
     kseq (brelse bp)
      (kret \<lparr>sb_size = rd32 d 0, sb_nblocks = rd32 d 4, sb_ninodes = rd32 d 8, sb_nlog = rd32 d 12\<rparr>)))"

definition install_trans :: "'x log_st_scheme env \<Rightarrow> ('x log_st_scheme, unit) kern" where
  "install_trans env = kbind (kget lh_n) (\<lambda>n. kfor [0..<nat n] (\<lambda>tail.
     kbind (kget log_dev) (\<lambda>dev. kbind (kget log_start) (\<lambda>start.
     kbind (bread env dev (start + of_nat tail + 1)) (\<lambda>lbuf.
     kbind (kget (\<lambda>s. lh_sector s ! tail)) (\<lambda>sec.
     kbind (bread env dev sec) (\<lambda>dbuf.
     kbind (bdata lbuf) (\<lambda>d.
     kseq (upd_data dbuf (\<lambda>_. d))
    (kseq (bwrite dbuf)
    (kseq (brelse lbuf) (brelse dbuf)))))))))))"

definition read_head :: "'x log_st_scheme env \<Rightarrow> ('x log_st_scheme, unit) kern" where
  "read_head env = kbind (kget log_dev) (\<lambda>dev. kbind (kget log_start) (\<lambda>start.
     kbind (bread env dev start) (\<lambda>bp. kbind (bdata bp) (\<lambda>d.
     let n = sint (rd32 d 0) in
     kseq (kmod (\<lambda>s. s\<lparr>lh_n := n\<rparr>))
    (if n > int LOGSIZE then fault ''read_head: log header count''
     else kseq (kfor [0..<nat n] (\<lambda>i. kmod (\<lambda>s. s\<lparr>lh_sector := (lh_sector s)[i := rd32 d (4 + 4 * i)]\<rparr>)))
         (brelse bp))))))"

definition write_head :: "'x log_st_scheme env \<Rightarrow> ('x log_st_scheme, unit) kern" where
  "write_head env = kbind (kget log_dev) (\<lambda>dev. kbind (kget log_start) (\<lambda>start.
     kbind (bread env dev start) (\<lambda>bp. kbind (kget lh_n) (\<lambda>n. kbind (kget lh_sector) (\<lambda>secs.
     kseq (upd_data bp (\<lambda>d. wr32 d 0 (of_int n)))
    (kseq (kfor [0..<nat n] (\<lambda>i. upd_data bp (\<lambda>d. wr32 d (4 + 4 * i) (secs ! i))))
    (kseq (bwrite bp) (brelse bp))))))))"

definition recover_from_log :: "'x log_st_scheme env \<Rightarrow> ('x log_st_scheme, unit) kern" where
  "recover_from_log env = kseq (read_head env)
     (kseq (install_trans env)
     (kseq (kmod (\<lambda>s. s\<lparr>lh_n := 0\<rparr>))
      (write_head env)))"

text \<open>The header has 44 bytes, so the check for its size in \<open>initlog\<close> never fails.\<close>

definition initlog :: "'x log_st_scheme env \<Rightarrow> ('x log_st_scheme, unit) kern" where
  "initlog env = (if 4 + 4 * LOGSIZE \<ge> BSIZE then panic ''initlog: too big logheader''
     else kbind (readsb env ROOTDEV) (\<lambda>sb.
       kseq (kmod (\<lambda>s. s\<lparr>log_start := sb_size sb - sb_nlog sb, log_size := sint (sb_nlog sb), log_dev := ROOTDEV\<rparr>))
        (recover_from_log env)))"

definition begin_turn :: "'x log_st_scheme env \<Rightarrow> ('x log_st_scheme, unit option) kern" where
  "begin_turn env = kbind (kget log_busy) (\<lambda>busy.
     if busy then kseq (sleep env ChanLog LogLock) (kret None) else kret (Some ()))"

definition begin_trans :: "'x log_st_scheme env \<Rightarrow> ('x log_st_scheme, unit) kern" where
  "begin_trans env = kseq (acquire LogLock)
     (kseq (kretry (begin_turn env))
     (kseq (kmod (\<lambda>s. s\<lparr>log_busy := True\<rparr>)) (release LogLock)))"

definition commit_trans :: "'x log_st_scheme env \<Rightarrow> ('x log_st_scheme, unit) kern" where
  "commit_trans env = kbind (kget lh_n) (\<lambda>n.
     kseq (kwhen (n > 0)
       (kseq (write_head env)
       (kseq (install_trans env)
       (kseq (kmod (\<lambda>s. s\<lparr>lh_n := 0\<rparr>))
        (write_head env)))))
    (kseq (acquire LogLock)
    (kseq (kmod (\<lambda>s. s\<lparr>log_busy := False\<rparr>))
    (kseq (wakeup ChanLog) (release LogLock)))))"

text \<open>The slot of the log for sector \<open>sec\<close>: where it already is, or the next free one.\<close>

definition log_slot :: "u32 list \<Rightarrow> int \<Rightarrow> u32 \<Rightarrow> nat" where
  "log_slot secs n sec = (case first_index (\<lambda>i. secs ! i = sec) (nat n) of Some i \<Rightarrow> i | None \<Rightarrow> nat n)"

definition log_write :: "'x log_st_scheme env \<Rightarrow> nat \<Rightarrow> ('x log_st_scheme, unit) kern" where
  "log_write env b = kbind (kget lh_n) (\<lambda>n. kbind (kget log_size) (\<lambda>sz. kbind (kget log_busy) (\<lambda>busy.
     if n \<ge> int LOGSIZE \<or> n \<ge> sz - 1 then panic ''too big a transaction''
     else if \<not> busy then panic ''write outside of trans''
     else kbind (kget (\<lambda>s. bufs s b)) (\<lambda>q. kbind (kget lh_sector) (\<lambda>secs.
       let i = log_slot secs n (b_sector q) in
       kseq (kmod (\<lambda>s. s\<lparr>lh_sector := (lh_sector s)[i := b_sector q]\<rparr>))
      (kbind (kget log_start) (\<lambda>start.
       kbind (bread env (b_dev q) (start + of_nat i + 1)) (\<lambda>lbuf.
       kbind (bdata b) (\<lambda>d.
       kseq (upd_data lbuf (\<lambda>_. d))
      (kseq (bwrite lbuf)
      (kseq (brelse lbuf)
      (kseq (kwhen (i = nat n) (kmod (\<lambda>s. s\<lparr>lh_n := n + 1\<rparr>)))
       (upd_buf b (\<lambda>q. q\<lparr>b_dirty := True\<rparr>))))))))))))))"

end
