(* ===== verification/Fs.thy ===== *)
theory Fs
  imports Log
begin

unbundle bit_operations_syntax

section \<open>fs.c: blocks and inodes\<close>

text \<open>
  The lower half of \<^verbatim>\<open>src/fs.c\<close>: the block allocator, the inode cache, \<open>bmap\<close> and \<open>itrunc\<close>.
  An inode pointer is the number of its slot in \<open>icache\<close>. The flag bits of an inode are two
  fields. An on-disk inode is read and written at its offset in its block.
\<close>

record inode =
  i_dev :: u32
  i_inum :: u32
  i_ref :: int
  i_busy :: bool
  i_valid :: bool
  i_type :: u16
  i_major :: u16
  i_minor :: u16
  i_nlink :: u16
  i_size :: u32
  i_addrs :: "u32 list"

record dinode =
  di_type :: u16
  di_major :: u16
  di_minor :: u16
  di_nlink :: u16
  di_size :: u32
  di_addrs :: "u32 list"

text \<open>The devices of \<open>devsw\<close>: the console is the only one the kernel registers.\<close>

datatype device = ConsoleDev

record fs_st = log_st +
  inodes :: "nat \<Rightarrow> inode"
  devsw :: "nat \<Rightarrow> device option"

definition NADDRS :: nat where "NADDRS = NDIRECT + NUM_INDIRECT + NUM_DOUBLE_INDIRECT"

definition upd_inode :: "nat \<Rightarrow> (inode \<Rightarrow> inode) \<Rightarrow> ('x fs_st_scheme, unit) kern" where
  "upd_inode ip f = kmod (\<lambda>s. s\<lparr>inodes := (inodes s)(ip := f (inodes s ip))\<rparr>)"

definition inode_of :: "nat \<Rightarrow> ('x fs_st_scheme, inode) kern" where
  "inode_of ip = kget (\<lambda>s. inodes s ip)"

lemma upd_inode_apply [simp]: "upd_inode ip f s = Ret () (s\<lparr>inodes := (inodes s)(ip := f (inodes s ip))\<rparr>)"
  by (simp add: upd_inode_def)

lemma inode_of_apply [simp]: "inode_of ip s = Ret (inodes s ip) s"
  by (simp add: inode_of_def)

lemma log_more_inodes:
  fixes s t :: "'x fs_st_scheme"
  shows "log_st.more t = log_st.more s \<Longrightarrow> inodes t = inodes s"
  by (cases s; cases t) simp

subsection \<open>Blocks\<close>

definition bzero :: "'x log_st_scheme env \<Rightarrow> u32 \<Rightarrow> u32 \<Rightarrow> ('x log_st_scheme, unit) kern" where
  "bzero env dev bno = kbind (bread env dev bno) (\<lambda>bp.
     kseq (upd_data bp (\<lambda>_. zero_block))
    (kseq (log_write env bp) (brelse bp)))"

text \<open>Bit \<open>bi\<close> of a bitmap block.\<close>

definition bm_bit :: "block \<Rightarrow> nat \<Rightarrow> bool" where
  "bm_bit d bi \<longleftrightarrow> d (bi div 8) AND push_bit (bi mod 8) 1 \<noteq> 0"

definition bm_set :: "block \<Rightarrow> nat \<Rightarrow> block" where
  "bm_set d bi = d(bi div 8 := d (bi div 8) OR push_bit (bi mod 8) 1)"

definition bm_clear :: "block \<Rightarrow> nat \<Rightarrow> block" where
  "bm_clear d bi = d(bi div 8 := d (bi div 8) AND NOT (push_bit (bi mod 8) 1))"

lemma bm_bit_iff: "bm_bit d b \<longleftrightarrow> bit (d (b div 8)) (b mod 8)"
proof -
  have "x AND push_bit n 1 \<noteq> 0 \<longleftrightarrow> bit x n" if "n < 8" for x :: u8 and n
  proof -
    have "x AND push_bit n 1 = (if bit x n then push_bit n 1 else 0)"
      by (rule bit_word_eqI) (auto simp: bit_simps)
    moreover have "push_bit n (1 :: u8) \<noteq> 0" using that by (auto simp: bit_eq_iff bit_simps)
    ultimately show ?thesis by simp
  qed
  then show ?thesis by (simp add: bm_bit_def)
qed

lemma bm_bit_set: "bm_bit (bm_set d a) b \<longleftrightarrow> b = a \<or> bm_bit d b"
proof -
  have "b = a \<longleftrightarrow> b div 8 = a div 8 \<and> b mod 8 = a mod 8" by (metis div_mult_mod_eq)
  moreover have "a mod 8 < 8" by simp
  ultimately show ?thesis by (auto simp: bm_bit_iff bm_set_def bit_simps)
qed

text \<open>
  \<open>balloc\<close>: the outer loop runs over the first block number of each bitmap block, the inner
  loop is the search for the first clear bit of a block that exists.
\<close>

primrec balloc_loop :: "'x log_st_scheme env \<Rightarrow> u32 \<Rightarrow> superblock \<Rightarrow> nat list \<Rightarrow> ('x log_st_scheme, u32) kern" where
  "balloc_loop env dev sb [] = panic ''balloc: out of blocks''"
| "balloc_loop env dev sb (b # bs) =
     kbind (bread env dev (BBLOCK (of_nat b) (sb_ninodes sb))) (\<lambda>bp.
     kbind (bdata bp) (\<lambda>d.
     case first_index (\<lambda>bi. b + bi < unat (sb_size sb) \<and> \<not> bm_bit d bi) BPB of
       Some bi \<Rightarrow>
         kseq (upd_data bp (\<lambda>d. bm_set d bi))
        (kseq (log_write env bp)
        (kseq (brelse bp)
        (kseq (bzero env dev (of_nat (b + bi)))
         (kret (of_nat (b + bi))))))
     | None \<Rightarrow> kseq (brelse bp) (balloc_loop env dev sb bs)))"

definition balloc :: "'x log_st_scheme env \<Rightarrow> u32 \<Rightarrow> ('x log_st_scheme, u32) kern" where
  "balloc env dev = kbind (readsb env dev) (\<lambda>sb.
     balloc_loop env dev sb (map (\<lambda>k. k * BPB) [0..<(unat (sb_size sb) + BPB - 1) div BPB]))"

definition bfree :: "'x log_st_scheme env \<Rightarrow> u32 \<Rightarrow> u32 \<Rightarrow> ('x log_st_scheme, unit) kern" where
  "bfree env dev b = kbind (readsb env dev) (\<lambda>sb.
     kbind (bread env dev (BBLOCK b (sb_ninodes sb))) (\<lambda>bp.
     kbind (bdata bp) (\<lambda>d.
     let bi = unat b mod BPB in
     if \<not> bm_bit d bi then panic ''freeing free block''
     else kseq (upd_data bp (\<lambda>d. bm_clear d bi))
         (kseq (log_write env bp) (brelse bp)))))"

subsection \<open>The inode cache\<close>

definition dinode_off :: "u32 \<Rightarrow> nat" where
  "dinode_off inum = (unat inum mod IPB) * DINODE_SIZE"

definition read_dinode :: "block \<Rightarrow> nat \<Rightarrow> dinode" where
  "read_dinode d k = \<lparr>di_type = rd16 d k, di_major = rd16 d (k + 2), di_minor = rd16 d (k + 4),
     di_nlink = rd16 d (k + 6), di_size = rd32 d (k + 8),
     di_addrs = map (\<lambda>i. rd32 d (k + 12 + 4 * i)) [0..<NADDRS]\<rparr>"

definition write_addrs :: "block \<Rightarrow> nat \<Rightarrow> u32 list \<Rightarrow> block" where
  "write_addrs d k as = foldl (\<lambda>d i. wr32 d (k + 4 * i) (as ! i)) d [0..<NADDRS]"

definition write_dinode :: "block \<Rightarrow> nat \<Rightarrow> inode \<Rightarrow> block" where
  "write_dinode d k ip = write_addrs (wr32 (wr16 (wr16 (wr16 (wr16 d k (i_type ip)) (k + 2) (i_major ip))
     (k + 4) (i_minor ip)) (k + 6) (i_nlink ip)) (k + 8) (i_size ip)) (k + 12) (i_addrs ip)"

definition clear_dinode :: "block \<Rightarrow> nat \<Rightarrow> block" where
  "clear_dinode d k = (\<lambda>j. if k \<le> j \<and> j < k + DINODE_SIZE then 0 else d j)"

definition iget :: "u32 \<Rightarrow> u32 \<Rightarrow> ('x fs_st_scheme, nat) kern" where
  "iget dev inum = kseq (acquire IcacheLock) (\<lambda>s.
     case first_index (\<lambda>i. i_ref (inodes s i) > 0 \<and> i_dev (inodes s i) = dev \<and> i_inum (inodes s i) = inum) NINODE of
       Some ip \<Rightarrow>
         kseq (upd_inode ip (\<lambda>q. q\<lparr>i_ref := i_ref q + 1\<rparr>)) (kseq (release IcacheLock) (kret ip)) s
     | None \<Rightarrow>
         (case first_index (\<lambda>i. i_ref (inodes s i) = 0) NINODE of
            None \<Rightarrow> panic ''iget: no inodes'' s
          | Some ip \<Rightarrow>
              kseq (upd_inode ip (\<lambda>q. q\<lparr>i_dev := dev, i_inum := inum, i_ref := 1, i_busy := False, i_valid := False\<rparr>))
             (kseq (release IcacheLock) (kret ip)) s))"

primrec ialloc_loop :: "'x fs_st_scheme env \<Rightarrow> u32 \<Rightarrow> u16 \<Rightarrow> nat list \<Rightarrow> ('x fs_st_scheme, nat) kern" where
  "ialloc_loop env dev typ [] = panic ''ialloc: no inodes''"
| "ialloc_loop env dev typ (inum # rest) =
     kbind (bread env dev (IBLOCK (of_nat inum))) (\<lambda>bp. kbind (bdata bp) (\<lambda>d.
     let k = dinode_off (of_nat inum) in
     if di_type (read_dinode d k) = 0
     then kseq (upd_data bp (\<lambda>d. wr16 (clear_dinode d k) k typ))
         (kseq (log_write env bp)
         (kseq (brelse bp) (iget dev (of_nat inum))))
     else kseq (brelse bp) (ialloc_loop env dev typ rest)))"

definition ialloc :: "'x fs_st_scheme env \<Rightarrow> u32 \<Rightarrow> u16 \<Rightarrow> ('x fs_st_scheme, nat) kern" where
  "ialloc env dev typ = kbind (readsb env dev) (\<lambda>sb. ialloc_loop env dev typ [1..<unat (sb_ninodes sb)])"

definition iupdate :: "'x fs_st_scheme env \<Rightarrow> nat \<Rightarrow> ('x fs_st_scheme, unit) kern" where
  "iupdate env ip = kbind (inode_of ip) (\<lambda>q.
     kbind (bread env (i_dev q) (IBLOCK (i_inum q))) (\<lambda>bp.
     kbind (inode_of ip) (\<lambda>q.
     kseq (upd_data bp (\<lambda>d. write_dinode d (dinode_off (i_inum q)) q))
    (kseq (log_write env bp) (brelse bp)))))"

definition idup :: "nat \<Rightarrow> ('x fs_st_scheme, nat) kern" where
  "idup ip = kseq (acquire IcacheLock)
     (kseq (upd_inode ip (\<lambda>q. q\<lparr>i_ref := i_ref q + 1\<rparr>))
     (kseq (release IcacheLock) (kret ip)))"

definition ilock_turn :: "'x fs_st_scheme env \<Rightarrow> nat \<Rightarrow> ('x fs_st_scheme, unit option) kern" where
  "ilock_turn env ip = kbind (inode_of ip) (\<lambda>q.
     if i_busy q then kseq (sleep env (ChanInode ip) IcacheLock) (kret None) else kret (Some ()))"

definition load_dinode :: "dinode \<Rightarrow> inode \<Rightarrow> inode" where
  "load_dinode d q = q\<lparr>i_type := di_type d, i_major := di_major d, i_minor := di_minor d,
     i_nlink := di_nlink d, i_size := di_size d, i_addrs := di_addrs d\<rparr>"

definition ilock :: "'x fs_st_scheme env \<Rightarrow> nat \<Rightarrow> ('x fs_st_scheme, unit) kern" where
  "ilock env ip = kbind (inode_of ip) (\<lambda>q.
     if i_ref q < 1 then panic ''ilock''
     else kseq (acquire IcacheLock)
         (kseq (kretry (ilock_turn env ip))
         (kseq (upd_inode ip (\<lambda>q. q\<lparr>i_busy := True\<rparr>))
         (kseq (release IcacheLock)
         (kbind (inode_of ip) (\<lambda>q.
          kwhen (\<not> i_valid q)
           (kbind (bread env (i_dev q) (IBLOCK (i_inum q))) (\<lambda>bp.
            kbind (bdata bp) (\<lambda>d.
            kseq (upd_inode ip (\<lambda>q. load_dinode (read_dinode d (dinode_off (i_inum q))) q))
           (kseq (brelse bp)
           (kseq (upd_inode ip (\<lambda>q. q\<lparr>i_valid := True\<rparr>))
           (kbind (inode_of ip) (\<lambda>q.
            kwhen (i_type q = 0) (panic ''ilock: no type''))))))))))))))"

definition iunlock :: "nat \<Rightarrow> ('x fs_st_scheme, unit) kern" where
  "iunlock ip = kbind (inode_of ip) (\<lambda>q.
     if \<not> i_busy q \<or> i_ref q < 1 then panic ''iunlock''
     else kseq (acquire IcacheLock)
         (kseq (upd_inode ip (\<lambda>q. q\<lparr>i_busy := False\<rparr>))
         (kseq (wakeup (ChanInode ip)) (release IcacheLock))))"

subsection \<open>Content\<close>

text \<open>An address slot of the inode, allocated when it is zero.\<close>

definition bmap_addr :: "'x fs_st_scheme env \<Rightarrow> nat \<Rightarrow> nat \<Rightarrow> ('x fs_st_scheme, u32) kern" where
  "bmap_addr env ip k = kbind (inode_of ip) (\<lambda>q.
     if i_addrs q ! k \<noteq> 0 then kret (i_addrs q ! k)
     else kbind (balloc env (i_dev q)) (\<lambda>addr.
       kseq (upd_inode ip (\<lambda>q. q\<lparr>i_addrs := (i_addrs q)[k := addr]\<rparr>)) (kret addr)))"

text \<open>Entry \<open>k\<close> of the indirect block in buffer \<open>bp\<close>, allocated and logged when it is zero.\<close>

definition bmap_entry :: "'x fs_st_scheme env \<Rightarrow> nat \<Rightarrow> nat \<Rightarrow> nat \<Rightarrow> ('x fs_st_scheme, u32) kern" where
  "bmap_entry env ip bp k = kbind (bdata bp) (\<lambda>d.
     if blk_ptr d k \<noteq> 0 then kret (blk_ptr d k)
     else kbind (inode_of ip) (\<lambda>q. kbind (balloc env (i_dev q)) (\<lambda>addr.
       kseq (upd_data bp (\<lambda>d. set_blk_ptr d k addr))
      (kseq (log_write env bp) (kret addr)))))"

definition bmap :: "'x fs_st_scheme env \<Rightarrow> nat \<Rightarrow> nat \<Rightarrow> ('x fs_st_scheme, u32) kern" where
  "bmap env ip bn =
     (if bn < NDIRECT then bmap_addr env ip bn
      else let bn = bn - NDIRECT in
      if bn < NINDIRECT
      then kbind (bmap_addr env ip (NDIRECT + bn div PTRS_PER_BLOCK)) (\<lambda>addr.
           kbind (inode_of ip) (\<lambda>q. kbind (bread env (i_dev q) addr) (\<lambda>bp.
           kbind (bmap_entry env ip bp (bn mod PTRS_PER_BLOCK)) (\<lambda>addr.
           kseq (brelse bp) (kret addr)))))
      else let bn = bn - NINDIRECT in
      if bn < NDOUBLE
      then kbind (bmap_addr env ip (NDIRECT + NUM_INDIRECT)) (\<lambda>addr.
           kbind (inode_of ip) (\<lambda>q. kbind (bread env (i_dev q) addr) (\<lambda>bp.
           let sindirect_bn = bn mod (PTRS_PER_BLOCK * PTRS_PER_BLOCK) in
           kbind (bmap_entry env ip bp (sindirect_bn div PTRS_PER_BLOCK)) (\<lambda>addr.
           kbind (bread env (i_dev q) addr) (\<lambda>sindirect_bp.
           kbind (bmap_entry env ip sindirect_bp (sindirect_bn mod PTRS_PER_BLOCK)) (\<lambda>addr.
           kseq (brelse bp) (kseq (brelse sindirect_bp) (kret addr))))))))
      else panic ''bmap: out of range'')"

text \<open>
  \<open>itrunc\<close>. The loop over the indirect block runs to \<open>NINDIRECT\<close>, which counts the blocks of
  both indirect pointers; from \<open>PTRS_PER_BLOCK\<close> on it reads past the data of the buffer.
\<close>

definition itrunc :: "'x fs_st_scheme env \<Rightarrow> nat \<Rightarrow> ('x fs_st_scheme, unit) kern" where
  "itrunc env ip =
     kseq (kfor [0..<NDIRECT] (\<lambda>i. kbind (inode_of ip) (\<lambda>q.
       kwhen (i_addrs q ! i \<noteq> 0)
         (kseq (bfree env (i_dev q) (i_addrs q ! i))
          (upd_inode ip (\<lambda>q. q\<lparr>i_addrs := (i_addrs q)[i := 0]\<rparr>))))))
    (kseq (kbind (inode_of ip) (\<lambda>q. kwhen (i_addrs q ! NDIRECT \<noteq> 0)
       (kbind (bread env (i_dev q) (i_addrs q ! NDIRECT)) (\<lambda>bp.
        kseq (kfor [0..<NINDIRECT] (\<lambda>j.
          if j \<ge> PTRS_PER_BLOCK then fault ''itrunc: read past the end of the buffer''
          else kbind (bdata bp) (\<lambda>d.
            kwhen (blk_ptr d j \<noteq> 0) (kbind (inode_of ip) (\<lambda>q. bfree env (i_dev q) (blk_ptr d j))))))
       (kseq (brelse bp)
       (kbind (inode_of ip) (\<lambda>q.
        kseq (bfree env (i_dev q) (i_addrs q ! NDIRECT))
         (upd_inode ip (\<lambda>q. q\<lparr>i_addrs := (i_addrs q)[NDIRECT := 0]\<rparr>)))))))))
    (kseq (upd_inode ip (\<lambda>q. q\<lparr>i_size := 0\<rparr>))
     (iupdate env ip)))"

definition iput :: "'x fs_st_scheme env \<Rightarrow> nat \<Rightarrow> ('x fs_st_scheme, unit) kern" where
  "iput env ip = kseq (acquire IcacheLock) (kbind (inode_of ip) (\<lambda>q.
     kseq (kwhen (i_ref q = 1 \<and> i_valid q \<and> i_nlink q = 0)
       (if i_busy q then panic ''iput busy''
        else kseq (upd_inode ip (\<lambda>q. q\<lparr>i_busy := True\<rparr>))
            (kseq (release IcacheLock)
            (kseq (itrunc env ip)
            (kseq (upd_inode ip (\<lambda>q. q\<lparr>i_type := 0\<rparr>))
            (kseq (iupdate env ip)
            (kseq (acquire IcacheLock)
            (kseq (upd_inode ip (\<lambda>q. q\<lparr>i_busy := False, i_valid := False\<rparr>))
             (wakeup (ChanInode ip))))))))))
    (kseq (upd_inode ip (\<lambda>q. q\<lparr>i_ref := i_ref q - 1\<rparr>))
     (release IcacheLock))))"

definition iunlockput :: "'x fs_st_scheme env \<Rightarrow> nat \<Rightarrow> ('x fs_st_scheme, unit) kern" where
  "iunlockput env ip = kseq (iunlock ip) (iput env ip)"

end
