(* ===== verification/Kbd.thy ===== *)
theory Kbd
  imports Layout
begin

unbundle bit_operations_syntax

section \<open>kbd.c: decoding scan codes\<close>

text \<open>
  \<^verbatim>\<open>src/kbd.c\<close> and the tables of \<^verbatim>\<open>src/kbd.h\<close>. \<open>kbdgetc\<close> maps the shift state and a byte of
  the keyboard controller to a character and the new shift state; the answer \<open>-1\<close> for an
  empty controller is the end of the list of bytes a caller passes.
\<close>

datatype shift_key = SHIFT | CTL | ALT | CAPSLOCK | NUMLOCK | SCROLLLOCK | E0ESC

primrec shift_bit :: "shift_key \<Rightarrow> u32" where
  "shift_bit SHIFT = push_bit 0 1"
| "shift_bit CTL = push_bit 1 1"
| "shift_bit ALT = push_bit 2 1"
| "shift_bit CAPSLOCK = push_bit 3 1"
| "shift_bit NUMLOCK = push_bit 4 1"
| "shift_bit SCROLLLOCK = push_bit 5 1"
| "shift_bit E0ESC = push_bit 6 1"

datatype key = KEY_HOME | KEY_END | KEY_UP | KEY_DN | KEY_LF | KEY_RT | KEY_PGUP | KEY_PGDN | KEY_INS | KEY_DEL

primrec key_code :: "key \<Rightarrow> u32" where
  "key_code KEY_HOME = 0xE0"
| "key_code KEY_END = 0xE1"
| "key_code KEY_UP = 0xE2"
| "key_code KEY_DN = 0xE3"
| "key_code KEY_LF = 0xE4"
| "key_code KEY_RT = 0xE5"
| "key_code KEY_PGUP = 0xE6"
| "key_code KEY_PGDN = 0xE7"
| "key_code KEY_INS = 0xE8"
| "key_code KEY_DEL = 0xE9"

definition chars :: "string \<Rightarrow> u32 list" where
  "chars cs = map of_char cs"

text \<open>A table: the entries listed from 0 on, then single entries by index, else 0.\<close>

definition table :: "u32 list \<Rightarrow> (nat \<times> u32) list \<Rightarrow> nat \<Rightarrow> u32" where
  "table xs ys k = (case map_of ys k of Some v \<Rightarrow> v | None \<Rightarrow> if k < length xs then xs ! k else 0)"

definition shiftcode :: "nat \<Rightarrow> u32" where
  "shiftcode = table [] [(0x1D, shift_bit CTL), (0x2A, shift_bit SHIFT), (0x36, shift_bit SHIFT), (0x38, shift_bit ALT), (0x9D, shift_bit CTL), (0xB8, shift_bit ALT)]"

definition togglecode :: "nat \<Rightarrow> u32" where
  "togglecode = table [] [(0x3A, shift_bit CAPSLOCK), (0x45, shift_bit NUMLOCK), (0x46, shift_bit SCROLLLOCK)]"

definition keypad :: "(nat \<times> u32) list" where
  "keypad = map (apsnd key_code) [(0xC8, KEY_UP), (0xD0, KEY_DN), (0xC9, KEY_PGUP), (0xD1, KEY_PGDN), (0xCB, KEY_LF),
     (0xCD, KEY_RT), (0x97, KEY_HOME), (0xCF, KEY_END), (0xD2, KEY_INS), (0xD3, KEY_DEL)]"

definition normalmap :: "nat \<Rightarrow> u32" where
  "normalmap = table
     ([0, 0x1B] @ chars ''123456''
      @ chars ''7890-='' @ [8, 9]
      @ chars ''qwertyui''
      @ chars ''op[]'' @ [10, 0] @ chars ''as''
      @ chars ''dfghjkl;''
      @ [39, 96, 0, 92] @ chars ''zxcv''
      @ chars ''bnm,./'' @ [0] @ chars ''*''
      @ [0, 32, 0, 0, 0, 0, 0, 0]
      @ [0, 0, 0, 0, 0, 0, 0] @ chars ''7''
      @ chars ''89-456+1''
      @ chars ''230.'' @ [0, 0, 0, 0])
     ([(0x9C, 10), (0xB5, 47)] @ keypad)"

definition shiftmap :: "nat \<Rightarrow> u32" where
  "shiftmap = table
     ([0, 27] @ chars ''!@#$%^''
      @ chars ''&*()_+'' @ [8, 9]
      @ chars ''QWERTYUI''
      @ chars ''OP{}'' @ [10, 0] @ chars ''AS''
      @ chars ''DFGHJKL:''
      @ [34, 126, 0, 124] @ chars ''ZXCV''
      @ chars ''BNM<>?'' @ [0] @ chars ''*''
      @ [0, 32, 0, 0, 0, 0, 0, 0]
      @ [0, 0, 0, 0, 0, 0, 0] @ chars ''7''
      @ chars ''89-456+1''
      @ chars ''230.'' @ [0, 0, 0, 0])
     ([(0x9C, 10), (0xB5, 47)] @ keypad)"

text \<open>Control characters: the entry of \<open>C(x)\<close> is \<open>x - '@'\<close> as an unsigned byte.\<close>

definition ctl :: "string \<Rightarrow> u32 list" where
  "ctl cs = map (\<lambda>c. (of_char c - 64) AND 0xFF) cs"

definition ctlmap :: "nat \<Rightarrow> u32" where
  "ctlmap = table
     (replicate 16 0
      @ ctl ''QWERTYUI''
      @ ctl ''OP'' @ [0, 0, 13, 0] @ ctl ''AS''
      @ ctl ''DFGHJKL'' @ [0]
      @ [0, 0, 0, 28] @ ctl ''ZXCV''
      @ ctl ''BNM'' @ [0, 0] @ ctl ''/'' @ [0, 0])
     ([(0x9C, 13), (0xB5, (47 - 64) AND 0xFF)] @ keypad)"

definition charcode :: "u32 \<Rightarrow> nat \<Rightarrow> u32" where
  "charcode sh = (if sh = 0 then normalmap else if sh = 1 then shiftmap else ctlmap)"

definition caps :: "u32 \<Rightarrow> u32" where
  "caps c = (if 97 \<le> c \<and> c \<le> 122 then c + (65 - 97) else if 65 \<le> c \<and> c \<le> 90 then c + (97 - 65) else c)"

definition kbdgetc :: "u32 \<Rightarrow> u8 \<Rightarrow> u32 \<times> u32" where
  "kbdgetc shift b =
     (let data = ucast b :: u32 in
      if data = 0xE0 then (0, shift OR shift_bit E0ESC)
      else if data AND 0x80 \<noteq> 0
      then let data = (if shift AND shift_bit E0ESC \<noteq> 0 then data else data AND 0x7F)
           in (0, shift AND NOT (shiftcode (unat data) OR shift_bit E0ESC))
      else
        let data' = (if shift AND shift_bit E0ESC \<noteq> 0 then data OR 0x80 else data);
            shift1 = (if shift AND shift_bit E0ESC \<noteq> 0 then shift AND NOT (shift_bit E0ESC) else shift);
            shift2 = (shift1 OR shiftcode (unat data')) XOR togglecode (unat data');
            c = charcode (shift2 AND (shift_bit CTL OR shift_bit SHIFT)) (unat data')
        in (if shift2 AND shift_bit CAPSLOCK \<noteq> 0 then caps c else c, shift2))"

text \<open>The characters of a sequence of bytes, and the shift state after them.\<close>

fun kbd_chars :: "u32 \<Rightarrow> u8 list \<Rightarrow> u32 list \<times> u32" where
  "kbd_chars shift [] = ([], shift)"
| "kbd_chars shift (b # bs) =
     (let (c, shift1) = kbdgetc shift b; (cs, shift2) = kbd_chars shift1 bs in (c # cs, shift2))"

end
