(* ===== verification/Console.thy ===== *)
theory Console
  imports Fs Kbd
begin

section \<open>console.c: the keyboard queue\<close>

text \<open>
  The input half of \<^verbatim>\<open>src/console.c\<close>, \<open>procdump\<close> of \<^verbatim>\<open>src/proc.c\<close> and the keyboard decoder
  of \<^verbatim>\<open>src/kbd.c\<close>. The queue is a ring of \<open>INPUT_BUF\<close> bytes with three unsigned 32-bit
  counters that wrap around: \<open>in_r\<close> (read), \<open>in_w\<close> (finished lines) and \<open>in_e\<close> (edited).
\<close>

definition INPUT_BUF :: nat where "INPUT_BUF = 128"
definition CONSOLE :: nat where "CONSOLE = 1"

record con_st = fs_st +
  in_buf :: "nat \<Rightarrow> u8"
  in_r :: u32
  in_w :: u32
  in_e :: u32
  kbd_shift :: u32

definition in_slot :: "u32 \<Rightarrow> nat" where
  "in_slot i = unat i mod INPUT_BUF"

definition ctrl :: "char \<Rightarrow> u32" where
  "ctrl c = of_char c - of_char CHR ''@''"

subsection \<open>Where bytes come from and go to\<close>

text \<open>
  A \<open>char*\<close> argument points to user memory, to a page the kernel addresses directly, or to a
  variable of the caller. The bytes that go to a variable are returned.
\<close>

datatype kdst = MemDst u32 | VarDst
datatype ksrc = MemSrc u32 | VarSrc "u8 list"

definition put_byte :: "kdst \<Rightarrow> u32 \<Rightarrow> u8 \<Rightarrow> ('x proc_st_scheme, unit) kern" where
  "put_byte dst i c = (case dst of MemDst a \<Rightarrow> vstore8 (a + i) c | VarDst \<Rightarrow> kret ())"

definition put_bytes :: "kdst \<Rightarrow> u32 \<Rightarrow> u8 list \<Rightarrow> ('x proc_st_scheme, unit) kern" where
  "put_bytes dst i cs = kfor [0..<length cs] (\<lambda>k. put_byte dst (i + of_nat k) (cs ! k))"

definition get_byte :: "ksrc \<Rightarrow> u32 \<Rightarrow> ('x proc_st_scheme, u8) kern" where
  "get_byte src i = (case src of MemSrc a \<Rightarrow> vload8 (a + i)
     | VarSrc cs \<Rightarrow> if unat i < length cs then kret (cs ! unat i) else fault ''read past a variable'')"

primrec get_bytes :: "ksrc \<Rightarrow> u32 \<Rightarrow> nat \<Rightarrow> ('x proc_st_scheme, u8 list) kern" where
  "get_bytes src i 0 = kret []"
| "get_bytes src i (Suc n) = kbind (get_byte src i) (\<lambda>c. kbind (get_bytes src (i + 1) n) (\<lambda>cs. kret (c # cs)))"

subsection \<open>procdump\<close>

definition state_name :: "procstate \<Rightarrow> string" where
  "state_name st = (case st of UNUSED \<Rightarrow> ''unused'' | EMBRYO \<Rightarrow> ''embryo'' | SLEEPING \<Rightarrow> ''sleep ''
     | RUNNABLE \<Rightarrow> ''runble'' | RUNNING \<Rightarrow> ''run   '' | ZOMBIE \<Rightarrow> ''zombie'')"

definition newline :: string where "newline = [CHR 10]"

definition procdump :: "('x proc_st_scheme, unit) kern" where
  "procdump = kfor [0..<NPROC] (\<lambda>i. kbind (kget (\<lambda>s. ptable s i)) (\<lambda>p.
     kwhen (p_state p \<noteq> UNUSED)
      (kseq (cprintf ''%d %s %s'' [PInt (of_int (p_pid p)), PStr (Some (state_name (p_state p))),
           PStr (Some (map (\<lambda>c. char_of (unat c)) (p_name p)))])
      (kseq (kwhen (p_state p = SLEEPING)
         (kbind (kget (\<lambda>s. takeWhile (\<lambda>pc. pc \<noteq> 0) (getcallerpcs (k_mem s) (cx_ebp (p_context p) + 8)))) (\<lambda>pcs.
          kfor pcs (\<lambda>pc. cprintf '' %p'' [PInt pc]))))
       (cprintf newline [])))))"

subsection \<open>Interrupts\<close>

text \<open>
  The loop of \<open>^U\<close>: it runs at most \<open>in_e - in_w\<close> times, the count of characters on the line.
\<close>

primrec kill_line :: "nat \<Rightarrow> ('x con_st_scheme, unit) kern" where
  "kill_line 0 = kret ()"
| "kill_line (Suc n) = kbind (kget (\<lambda>s. in_e s \<noteq> in_w s \<and> in_buf s (in_slot (in_e s - 1)) \<noteq> 10)) (\<lambda>more.
     if more then kseq (kmod (\<lambda>s. s\<lparr>in_e := in_e s - 1\<rparr>)) (kseq (consputc BACKSPACE) (kill_line n))
     else kret ())"

definition console_default :: "u32 \<Rightarrow> ('x con_st_scheme, unit) kern" where
  "console_default c = kbind (kget (\<lambda>s. in_e s - in_r s < of_nat INPUT_BUF)) (\<lambda>room.
     kwhen (c \<noteq> 0 \<and> room)
      (let c = (if c = 13 then 10 else c) in
       kseq (kmod (\<lambda>s. s\<lparr>in_buf := (in_buf s)(in_slot (in_e s) := ucast c)\<rparr>))
      (kseq (kmod (\<lambda>s. s\<lparr>in_e := in_e s + 1\<rparr>))
      (kseq (consputc c)
      (kbind (kget (\<lambda>s. c = 10 \<or> c = ctrl CHR ''D'' \<or> in_e s = in_r s + of_nat INPUT_BUF)) (\<lambda>done.
       kwhen done (kseq (kmod (\<lambda>s. s\<lparr>in_w := in_e s\<rparr>)) (wakeup ChanInput))))))))"

definition console_char :: "u32 \<Rightarrow> ('x con_st_scheme, unit) kern" where
  "console_char c =
     (if c = ctrl CHR ''P'' then procdump
      else if c = ctrl CHR ''U'' then kbind (kget (\<lambda>s. unat (in_e s - in_w s))) kill_line
      else if c = ctrl CHR ''H'' \<or> c = 0x7f
      then kbind (kget (\<lambda>s. in_e s \<noteq> in_w s)) (\<lambda>more.
             kwhen more (kseq (kmod (\<lambda>s. s\<lparr>in_e := in_e s - 1\<rparr>)) (consputc BACKSPACE)))
      else console_default c)"

text \<open>\<open>consoleintr\<close> on the characters \<open>getc\<close> returns before its first negative result.\<close>

definition consoleintr :: "u32 list \<Rightarrow> ('x con_st_scheme, unit) kern" where
  "consoleintr cs = kseq (acquire InputLock) (kseq (kfor cs console_char) (release InputLock))"

text \<open>\<open>kbdintr\<close> on the bytes in the keyboard controller.\<close>

definition kbdintr :: "u8 list \<Rightarrow> ('x con_st_scheme, unit) kern" where
  "kbdintr bs = kbind (kget kbd_shift) (\<lambda>shift. let (cs, shift') = kbd_chars shift bs in
     kseq (kmod (\<lambda>s. s\<lparr>kbd_shift := shift'\<rparr>)) (consoleintr cs))"

subsection \<open>Reading and writing the console device\<close>

text \<open>The inner loop: wait for a finished line; the answer is \<open>False\<close> when the process was killed.\<close>

definition input_turn :: "'x con_st_scheme env \<Rightarrow> ('x con_st_scheme, bool option) kern" where
  "input_turn env = kbind (kget (\<lambda>s. in_r s = in_w s)) (\<lambda>empty.
     if \<not> empty then kret (Some True)
     else kbind myproc (\<lambda>p. kbind (kget (\<lambda>s. p_killed (ptable s p))) (\<lambda>killed.
       if killed then kret (Some False)
       else kseq (sleep env ChanInput InputLock) (kret None))))"

text \<open>
  The outer loop, with \<open>n\<close> bytes left to read and \<open>k\<close> bytes read: the bytes read from here
  on, or nothing when the process was killed.
\<close>

primrec consoleread_loop :: "'x con_st_scheme env \<Rightarrow> kdst \<Rightarrow> nat \<Rightarrow> u32 \<Rightarrow> ('x con_st_scheme, u8 list option) kern" where
  "consoleread_loop env dst 0 k = kret (Some [])"
| "consoleread_loop env dst (Suc n) k = kbind (kretry (input_turn env)) (\<lambda>ok.
     if \<not> ok then kret None
     else kbind (kget (\<lambda>s. in_buf s (in_slot (in_r s)))) (\<lambda>c.
       kseq (kmod (\<lambda>s. s\<lparr>in_r := in_r s + 1\<rparr>))
      (if c = ucast (ctrl CHR ''D'')
       then kseq (kwhen (k > 0) (kmod (\<lambda>s. s\<lparr>in_r := in_r s - 1\<rparr>))) (kret (Some []))
       else kseq (put_byte dst k c)
           (if c = 10 then kret (Some [c])
            else kbind (consoleread_loop env dst n (k + 1)) (\<lambda>rest. kret (map_option (\<lambda>cs. c # cs) rest))))))"

definition consoleread :: "'x con_st_scheme env \<Rightarrow> nat \<Rightarrow> kdst \<Rightarrow> int \<Rightarrow> ('x con_st_scheme, int \<times> u8 list) kern" where
  "consoleread env ip dst n = kseq (iunlock ip)
     (kseq (acquire InputLock)
     (kbind (consoleread_loop env dst (nat n) 0) (\<lambda>got.
      kseq (release InputLock)
     (kseq (ilock env ip)
      (case got of None \<Rightarrow> kret (-1, []) | Some cs \<Rightarrow> kret (int (length cs), cs))))))"

definition consolewrite :: "'x con_st_scheme env \<Rightarrow> nat \<Rightarrow> ksrc \<Rightarrow> int \<Rightarrow> ('x con_st_scheme, int) kern" where
  "consolewrite env ip buf n = kseq (iunlock ip)
     (kseq (acquire ConsLock)
     (kseq (kfor [0..<nat n] (\<lambda>i. kbind (get_byte buf (of_nat i)) (\<lambda>c. consputc (ucast c))))
     (kseq (release ConsLock)
     (kseq (ilock env ip) (kret n)))))"

definition consoleinit :: "('x con_st_scheme, unit) kern" where
  "consoleinit = kmod (\<lambda>s. s\<lparr>devsw := (devsw s)(CONSOLE := Some ConsoleDev), cons_locking := True\<rparr>)"

end
