(* ===== verification/Dir.thy ===== *)
theory Dir
  imports Console
begin

section \<open>fs.c: file content, directories and paths\<close>

text \<open>
  The upper half of \<^verbatim>\<open>src/fs.c\<close> and \<open>loaduvm\<close> of \<^verbatim>\<open>src/vm.c\<close>. File names and paths are lists
  of bytes without the terminating zero; the bytes of a path are read from user memory when
  the call starts. The number of bytes still to copy decreases in the loops of \<open>readi\<close> and
  \<open>writei\<close>, the distance to the end of the file in the directory scans and the length of the
  path in \<open>namex\<close>.
\<close>

record stat_buf =
  st_type :: u16
  st_dev :: u32
  st_ino :: u32
  st_nlink :: u16
  st_size :: u32

definition stati :: "nat \<Rightarrow> ('x fs_st_scheme, stat_buf) kern" where
  "stati ip = kbind (inode_of ip) (\<lambda>q. kret \<lparr>st_type = i_type q, st_dev = i_dev q, st_ino = i_inum q,
     st_nlink = i_nlink q, st_size = i_size q\<rparr>)"

subsection \<open>Content\<close>

definition blk_read :: "block \<Rightarrow> nat \<Rightarrow> nat \<Rightarrow> u8 list" where
  "blk_read d k m = map d [k..<k + m]"

definition blk_write :: "block \<Rightarrow> nat \<Rightarrow> u8 list \<Rightarrow> block" where
  "blk_write d k bs = (\<lambda>j. if k \<le> j \<and> j < k + length bs then bs ! (j - k) else d j)"

definition chunk :: "u32 \<Rightarrow> nat \<Rightarrow> nat" where
  "chunk off r = min r (BSIZE - unat off mod BSIZE)"

lemma chunk_pos: "0 < r \<Longrightarrow> 0 < chunk off r"
  by (simp add: chunk_def BSIZE_def)

function readi_loop :: "'x con_st_scheme env \<Rightarrow> nat \<Rightarrow> kdst \<Rightarrow> u32 \<Rightarrow> u32 \<Rightarrow> nat \<Rightarrow> ('x con_st_scheme, u8 list) kern" where
  "readi_loop env ip dst tot off r =
     (if r = 0 then kret []
      else kbind (bmap env ip (unat off div BSIZE)) (\<lambda>addr.
        kbind (inode_of ip) (\<lambda>q. kbind (bread env (i_dev q) addr) (\<lambda>bp. kbind (bdata bp) (\<lambda>d.
        let m = chunk off r; bs = blk_read d (unat off mod BSIZE) m in
        kseq (put_bytes dst tot bs)
       (kseq (brelse bp)
       (kbind (readi_loop env ip dst (tot + of_nat m) (off + of_nat m) (r - m)) (\<lambda>rest.
        kret (bs @ rest)))))))))"
  by pat_completeness auto
termination
proof (relation "measure (\<lambda>(_, _, _, _, _, r). r)")
  fix env :: "'x con_st_scheme env" and ip dst tot off r addr q bp d m bs
  assume "r \<noteq> 0" "m = chunk off r"
  then show "((env, ip, dst, tot + of_nat m, off + of_nat m, r - m), env, ip, dst, tot, off, r)
      \<in> measure (\<lambda>(_, _, _, _, _, r). r)"
    using chunk_pos [of r off] by simp
qed simp

declare readi_loop.simps [simp del]

definition dev_of :: "inode \<Rightarrow> 'x fs_st_scheme \<Rightarrow> device option" where
  "dev_of q s = (if sint (i_major q) < 0 \<or> sint (i_major q) \<ge> int NDEV then None
     else devsw s (unat (i_major q)))"

definition readi :: "'x con_st_scheme env \<Rightarrow> nat \<Rightarrow> kdst \<Rightarrow> u32 \<Rightarrow> u32 \<Rightarrow> ('x con_st_scheme, int \<times> u8 list) kern" where
  "readi env ip dst off n = kbind (inode_of ip) (\<lambda>q.
     if i_type q = T_DEV
     then kbind (kget (dev_of q)) (\<lambda>d. case d of
            None \<Rightarrow> kret (-1, [])
          | Some ConsoleDev \<Rightarrow> consoleread env ip dst (sint n))
     else if off > i_size q \<or> off + n < off then kret (-1, [])
     else let n = (if off + n > i_size q then i_size q - off else n) in
       kbind (readi_loop env ip dst 0 off (unat n)) (\<lambda>bs. kret (sint n, bs)))"

function writei_loop :: "'x con_st_scheme env \<Rightarrow> nat \<Rightarrow> ksrc \<Rightarrow> u32 \<Rightarrow> u32 \<Rightarrow> nat \<Rightarrow> ('x con_st_scheme, unit) kern" where
  "writei_loop env ip src tot off r =
     (if r = 0 then kret ()
      else kbind (bmap env ip (unat off div BSIZE)) (\<lambda>addr.
        kbind (inode_of ip) (\<lambda>q. kbind (bread env (i_dev q) addr) (\<lambda>bp.
        let m = chunk off r in
        kbind (get_bytes src tot m) (\<lambda>bs.
        kseq (upd_data bp (\<lambda>d. blk_write d (unat off mod BSIZE) bs))
       (kseq (log_write env bp)
       (kseq (brelse bp)
        (writei_loop env ip src (tot + of_nat m) (off + of_nat m) (r - m)))))))))"
  by pat_completeness auto
termination
proof (relation "measure (\<lambda>(_, _, _, _, _, r). r)")
  fix env :: "'x con_st_scheme env" and ip src tot off r addr q bp m bs
  assume "r \<noteq> 0" "m = chunk off r"
  then show "((env, ip, src, tot + of_nat m, off + of_nat m, r - m), env, ip, src, tot, off, r)
      \<in> measure (\<lambda>(_, _, _, _, _, r). r)"
    using chunk_pos [of r off] by simp
qed simp

declare writei_loop.simps [simp del]

definition writei :: "'x con_st_scheme env \<Rightarrow> nat \<Rightarrow> ksrc \<Rightarrow> u32 \<Rightarrow> u32 \<Rightarrow> ('x con_st_scheme, int) kern" where
  "writei env ip src off n = kbind (inode_of ip) (\<lambda>q.
     if i_type q = T_DEV
     then kbind (kget (dev_of q)) (\<lambda>d. case d of
            None \<Rightarrow> kret (-1)
          | Some ConsoleDev \<Rightarrow> consolewrite env ip src (sint n))
     else if off > i_size q \<or> off + n < off then kret (-1)
     else if unat (off + n) > MAXFILE * BSIZE then kret (-1)
     else kseq (writei_loop env ip src 0 off (unat n))
         (kbind (inode_of ip) (\<lambda>q.
          kseq (kwhen (n > 0 \<and> off + n > i_size q)
             (kseq (upd_inode ip (\<lambda>q. q\<lparr>i_size := off + n\<rparr>)) (iupdate env ip)))
           (kret (sint n)))))"

subsection \<open>Directories\<close>

lemma unat_u32_less: "unat (w :: u32) < 2 ^ 32"
  by (rule order_less_le_trans [OF unsigned_less]) simp

definition hd0 :: "u8 list \<Rightarrow> u8" where
  "hd0 cs = (case cs of [] \<Rightarrow> 0 | c # _ \<Rightarrow> c)"

text \<open>\<open>strncmp\<close> on names; the byte after the last one is the terminating zero.\<close>

primrec strncmp_name :: "nat \<Rightarrow> u8 list \<Rightarrow> u8 list \<Rightarrow> int" where
  "strncmp_name 0 p q = 0"
| "strncmp_name (Suc n) p q =
     (if hd0 p \<noteq> 0 \<and> hd0 p = hd0 q then strncmp_name n (tl p) (tl q)
      else uint (hd0 p) - uint (hd0 q))"

definition namecmp :: "u8 list \<Rightarrow> u8 list \<Rightarrow> int" where
  "namecmp s t = strncmp_name DIRSIZ s t"

record dirent =
  de_inum :: u16
  de_name :: "u8 list"

definition dirent_of :: "u8 list \<Rightarrow> dirent" where
  "dirent_of bs = \<lparr>de_inum = le16 (bs ! 0) (bs ! 1), de_name = take DIRSIZ (drop 2 bs)\<rparr>"

definition dirent_bytes :: "dirent \<Rightarrow> u8 list" where
  "dirent_bytes de = byte_of16 (de_inum de) 0 # byte_of16 (de_inum de) 1 # de_name de"

function dirlookup_loop :: "'x con_st_scheme env \<Rightarrow> nat \<Rightarrow> u8 list \<Rightarrow> nat \<Rightarrow> ('x con_st_scheme, (nat \<times> u32) option) kern" where
  "dirlookup_loop env dp name off = kbind (inode_of dp) (\<lambda>q.
     if off < unat (i_size q)
     then kbind (readi env dp VarDst (of_nat off) (of_nat DIRENT_SIZE)) (\<lambda>(r, bs).
        if r \<noteq> int DIRENT_SIZE then panic ''dirlink read''
        else let de = dirent_of bs in
          if de_inum de \<noteq> 0 \<and> namecmp name (de_name de) = 0
          then kbind (inode_of dp) (\<lambda>q. kbind (iget (i_dev q) (ucast (de_inum de))) (\<lambda>ip. kret (Some (ip, of_nat off))))
          else dirlookup_loop env dp name (off + DIRENT_SIZE))
     else kret None)"
  by pat_completeness auto
termination
proof (relation "measure (\<lambda>(_, _, _, off). 2 ^ 32 - off)")
  fix env :: "'x con_st_scheme env" and dp name off q rb r bs de
  assume "off < unat (i_size (q :: inode))"
  then show "((env, dp, name, off + DIRENT_SIZE), env, dp, name, off) \<in> measure (\<lambda>(_, _, _, off). 2 ^ 32 - off)"
    using unat_u32_less [of "i_size q"] by (simp add: DIRENT_SIZE_def)
qed simp

declare dirlookup_loop.simps [simp del]

definition dirlookup :: "'x con_st_scheme env \<Rightarrow> nat \<Rightarrow> u8 list \<Rightarrow> ('x con_st_scheme, (nat \<times> u32) option) kern" where
  "dirlookup env dp name = kbind (inode_of dp) (\<lambda>q.
     if i_type q \<noteq> T_DIR then panic ''dirlookup not DIR'' else dirlookup_loop env dp name 0)"

function empty_dirent :: "'x con_st_scheme env \<Rightarrow> nat \<Rightarrow> nat \<Rightarrow> ('x con_st_scheme, nat) kern" where
  "empty_dirent env dp off = kbind (inode_of dp) (\<lambda>q.
     if off < unat (i_size q)
     then kbind (readi env dp VarDst (of_nat off) (of_nat DIRENT_SIZE)) (\<lambda>(r, bs).
        if r \<noteq> int DIRENT_SIZE then panic ''dirlink read''
        else if de_inum (dirent_of bs) = 0 then kret off
        else empty_dirent env dp (off + DIRENT_SIZE))
     else kret off)"
  by pat_completeness auto
termination
proof (relation "measure (\<lambda>(_, _, off). 2 ^ 32 - off)")
  fix env :: "'x con_st_scheme env" and dp off q rb r bs
  assume "off < unat (i_size (q :: inode))"
  then show "((env, dp, off + DIRENT_SIZE), env, dp, off) \<in> measure (\<lambda>(_, _, off). 2 ^ 32 - off)"
    using unat_u32_less [of "i_size q"] by (simp add: DIRENT_SIZE_def)
qed simp

declare empty_dirent.simps [simp del]

definition strncpy_name :: "u8 list \<Rightarrow> u8 list" where
  "strncpy_name name = take DIRSIZ (takeWhile (\<lambda>c. c \<noteq> 0) name @ replicate DIRSIZ 0)"

definition dirlink :: "'x con_st_scheme env \<Rightarrow> nat \<Rightarrow> u8 list \<Rightarrow> u32 \<Rightarrow> ('x con_st_scheme, int) kern" where
  "dirlink env dp name inum = kbind (dirlookup env dp name) (\<lambda>found. case found of
       Some (ip, _) \<Rightarrow> kseq (iput env ip) (kret (-1))
     | None \<Rightarrow> kbind (empty_dirent env dp 0) (\<lambda>off.
         let de = \<lparr>de_inum = ucast inum, de_name = strncpy_name name\<rparr> in
         kbind (writei env dp (VarSrc (dirent_bytes de)) (of_nat off) (of_nat DIRENT_SIZE)) (\<lambda>r.
           if r \<noteq> int DIRENT_SIZE then panic ''dirlink'' else kret 0)))"

subsection \<open>Paths\<close>

definition slash :: u8 where "slash = of_char CHR ''/''"

definition skipelem :: "u8 list \<Rightarrow> (u8 list \<times> u8 list) option" where
  "skipelem path =
     (let s = dropWhile (\<lambda>c. c = slash) path in
      if s = [] then None
      else let elem = takeWhile (\<lambda>c. c \<noteq> slash) s;
               rest = dropWhile (\<lambda>c. c \<noteq> slash) s
        in Some (take DIRSIZ elem, dropWhile (\<lambda>c. c = slash) rest))"

lemma skipelem_shorter:
  assumes "skipelem path = Some (name, rest)"
  shows "length rest < length path"
proof -
  define s where "s = dropWhile (\<lambda>c. c = slash) path"
  have s: "s \<noteq> []" and r: "rest = dropWhile (\<lambda>c. c = slash) (dropWhile (\<lambda>c. c \<noteq> slash) s)"
    using assms by (auto simp: skipelem_def Let_def s_def split: if_splits)
  have "hd s \<noteq> slash" using hd_dropWhile [of "\<lambda>c. c = slash" path] s by (simp add: s_def)
  then have "dropWhile (\<lambda>c. c \<noteq> slash) s = dropWhile (\<lambda>c. c \<noteq> slash) (tl s)" using s by (cases s) auto
  then have "length rest \<le> length (tl s)"
    unfolding r by (metis (no_types) length_dropWhile_le le_trans)
  moreover have "length s \<le> length path" by (simp add: s_def length_dropWhile_le)
  ultimately show ?thesis using s by (cases s) auto
qed

function namex_loop :: "'x con_st_scheme env \<Rightarrow> u8 list \<Rightarrow> bool \<Rightarrow> u8 list \<Rightarrow> nat \<Rightarrow> ('x con_st_scheme, (nat \<times> u8 list) option) kern" where
  "namex_loop env path parent name ip = (case skipelem path of
       None \<Rightarrow> if parent then kseq (iput env ip) (kret None) else kret (Some (ip, name))
     | Some (name, path') \<Rightarrow>
         kseq (ilock env ip) (kbind (inode_of ip) (\<lambda>q.
           if i_type q \<noteq> T_DIR then kseq (iunlockput env ip) (kret None)
           else if parent \<and> path' = [] then kseq (iunlock ip) (kret (Some (ip, name)))
           else kbind (dirlookup env ip name) (\<lambda>next. case next of
               None \<Rightarrow> kseq (iunlockput env ip) (kret None)
             | Some (nx, _) \<Rightarrow> kseq (iunlockput env ip) (namex_loop env path' parent name nx)))))"
  by pat_completeness auto
termination
  by (relation "measure (\<lambda>(_, path, _). length path)") (auto dest: skipelem_shorter [OF sym] skipelem_shorter)

declare namex_loop.simps [simp del]

definition namex :: "'x con_st_scheme env \<Rightarrow> u8 list \<Rightarrow> bool \<Rightarrow> ('x con_st_scheme, (nat \<times> u8 list) option) kern" where
  "namex env path parent =
     kbind (if hd0 path = slash then iget ROOTDEV ROOTINO
            else kbind myproc (\<lambda>p. kbind (kget (\<lambda>s. p_cwd (ptable s p))) (\<lambda>cwd. case cwd of
                None \<Rightarrow> fault ''idup: null pointer'' | Some ip \<Rightarrow> idup ip)))
       (namex_loop env path parent [])"

definition namei :: "'x con_st_scheme env \<Rightarrow> u8 list \<Rightarrow> ('x con_st_scheme, nat option) kern" where
  "namei env path = kbind (namex env path False) (\<lambda>r. kret (map_option fst r))"

definition nameiparent :: "'x con_st_scheme env \<Rightarrow> u8 list \<Rightarrow> ('x con_st_scheme, (nat \<times> u8 list) option) kern" where
  "nameiparent env path = namex env path True"

subsection \<open>Loading a segment\<close>

function loaduvm_from :: "'x con_st_scheme env \<Rightarrow> u32 \<Rightarrow> u32 \<Rightarrow> nat \<Rightarrow> u32 \<Rightarrow> u32 \<Rightarrow> nat \<Rightarrow> ('x con_st_scheme, int) kern" where
  "loaduvm_from env pgdir addr ip offset sz i =
     (if i < unat sz
      then kbind (walkpgdir pgdir (addr + of_nat i) False) (\<lambda>pte.
        if pte = 0 then panic ''loaduvm: address should exist''
        else kbind (kload32 pte) (\<lambda>e.
          let n = (if sz - of_nat i < PGSIZE then sz - of_nat i else PGSIZE) in
          kbind (readi env ip (MemDst (p2v (PTE_ADDR e))) (offset + of_nat i) n) (\<lambda>(r, _).
            if r \<noteq> uint n then kret (-1)
            else if i + 4096 \<ge> 2 ^ 32 then fault ''loaduvm: offset overflow''
            else loaduvm_from env pgdir addr ip offset sz (i + 4096))))
      else kret 0)"
  by pat_completeness auto
termination
  by (relation "measure (\<lambda>(_, _, _, _, _, sz, i). unat sz - i)") auto

declare loaduvm_from.simps [simp del]

definition loaduvm :: "'x con_st_scheme env \<Rightarrow> u32 \<Rightarrow> u32 \<Rightarrow> nat \<Rightarrow> u32 \<Rightarrow> u32 \<Rightarrow> ('x con_st_scheme, int) kern" where
  "loaduvm env pgdir addr ip offset sz =
     (if addr mod PGSIZE \<noteq> 0 then panic ''loaduvm: addr must be page aligned''
      else loaduvm_from env pgdir addr ip offset sz 0)"

end
