(* ===== verification/File.thy ===== *)
theory File
  imports Dir
begin

section \<open>file.c and pipe.c: open files and pipes\<close>

text \<open>
  \<^verbatim>\<open>src/file.c\<close> and \<^verbatim>\<open>src/pipe.c\<close>. A file pointer is the number of its slot in \<open>ftable\<close>. A
  pipe lives in a page of its own; \<open>pipes\<close> gives the structure at the address of the page.
  The counters of a pipe are unsigned 32-bit integers that wrap around.
\<close>

datatype fdtype = FD_NONE | FD_PIPE | FD_INODE

record kfile =
  f_type :: fdtype
  f_ref :: int
  f_readable :: bool
  f_writable :: bool
  f_pipe :: u32
  f_ip :: nat
  f_off :: u32

definition PIPESIZE :: nat where "PIPESIZE = 512"

record pipe =
  pi_data :: "nat \<Rightarrow> u8"
  pi_nread :: u32
  pi_nwrite :: u32
  pi_readopen :: bool
  pi_writeopen :: bool

record file_st = con_st +
  files :: "nat \<Rightarrow> kfile"
  pipes :: "u32 \<Rightarrow> pipe"

definition upd_file :: "nat \<Rightarrow> (kfile \<Rightarrow> kfile) \<Rightarrow> ('x file_st_scheme, unit) kern" where
  "upd_file f g = kmod (\<lambda>s. s\<lparr>files := (files s)(f := g (files s f))\<rparr>)"

definition upd_pipe :: "u32 \<Rightarrow> (pipe \<Rightarrow> pipe) \<Rightarrow> ('x file_st_scheme, unit) kern" where
  "upd_pipe p g = kmod (\<lambda>s. s\<lparr>pipes := (pipes s)(p := g (pipes s p))\<rparr>)"

definition file_of :: "nat \<Rightarrow> ('x file_st_scheme, kfile) kern" where
  "file_of f = kget (\<lambda>s. files s f)"

definition pipe_of :: "u32 \<Rightarrow> ('x file_st_scheme, pipe) kern" where
  "pipe_of p = kget (\<lambda>s. pipes s p)"

definition killed :: "('x proc_st_scheme, bool) kern" where
  "killed = kbind myproc (\<lambda>p. kget (\<lambda>s. p_killed (ptable s p)))"

lemma upd_file_apply [simp]: "upd_file f g s = Ret () (s\<lparr>files := (files s)(f := g (files s f))\<rparr>)"
  by (simp add: upd_file_def)

lemma upd_pipe_apply [simp]: "upd_pipe p g s = Ret () (s\<lparr>pipes := (pipes s)(p := g (pipes s p))\<rparr>)"
  by (simp add: upd_pipe_def)

lemma file_of_apply [simp]: "file_of f s = Ret (files s f) s"
  by (simp add: file_of_def)

lemma pipe_of_apply [simp]: "pipe_of p s = Ret (pipes s p) s"
  by (simp add: pipe_of_def)

subsection \<open>Pipes\<close>

definition pipeclose :: "u32 \<Rightarrow> bool \<Rightarrow> ('x file_st_scheme, unit) kern" where
  "pipeclose p writable = kseq (acquire (PipeLock p))
     (kseq (if writable
        then kseq (upd_pipe p (\<lambda>q. q\<lparr>pi_writeopen := False\<rparr>)) (wakeup (ChanPipeRead p))
        else kseq (upd_pipe p (\<lambda>q. q\<lparr>pi_readopen := False\<rparr>)) (wakeup (ChanPipeWrite p)))
     (kbind (pipe_of p) (\<lambda>q.
      if \<not> pi_readopen q \<and> \<not> pi_writeopen q
      then kseq (release (PipeLock p)) (kfree p)
      else release (PipeLock p))))"

text \<open>
  Waiting for room: the answer is \<open>False\<close> when there is no reader left or the process was
  killed.
\<close>

definition pipewrite_turn :: "'x file_st_scheme env \<Rightarrow> u32 \<Rightarrow> ('x file_st_scheme, bool option) kern" where
  "pipewrite_turn env p = kbind (pipe_of p) (\<lambda>q.
     if pi_nwrite q \<noteq> pi_nread q + of_nat PIPESIZE then kret (Some True)
     else kbind killed (\<lambda>k.
       if \<not> pi_readopen q \<or> k then kret (Some False)
       else kseq (wakeup (ChanPipeRead p))
           (kseq (sleep env (ChanPipeWrite p) (PipeLock p)) (kret None))))"

definition pipe_put :: "u8 \<Rightarrow> pipe \<Rightarrow> pipe" where
  "pipe_put c q = q\<lparr>pi_data := (pi_data q)(unat (pi_nwrite q) mod PIPESIZE := c), pi_nwrite := pi_nwrite q + 1\<rparr>"

primrec pipewrite_loop :: "'x file_st_scheme env \<Rightarrow> u32 \<Rightarrow> ksrc \<Rightarrow> u32 \<Rightarrow> nat \<Rightarrow> ('x file_st_scheme, bool) kern" where
  "pipewrite_loop env p src i 0 = kret True"
| "pipewrite_loop env p src i (Suc n) = kbind (kretry (pipewrite_turn env p)) (\<lambda>ok.
     if \<not> ok then kret False
     else kbind (get_byte src i) (\<lambda>c.
       kseq (upd_pipe p (pipe_put c)) (pipewrite_loop env p src (i + 1) n)))"

definition pipewrite :: "'x file_st_scheme env \<Rightarrow> u32 \<Rightarrow> ksrc \<Rightarrow> int \<Rightarrow> ('x file_st_scheme, int) kern" where
  "pipewrite env p src n = kseq (acquire (PipeLock p))
     (kbind (pipewrite_loop env p src 0 (nat n)) (\<lambda>ok.
      if \<not> ok then kseq (release (PipeLock p)) (kret (-1))
      else kseq (wakeup (ChanPipeRead p)) (kseq (release (PipeLock p)) (kret n))))"

definition piperead_turn :: "'x file_st_scheme env \<Rightarrow> u32 \<Rightarrow> ('x file_st_scheme, bool option) kern" where
  "piperead_turn env p = kbind (pipe_of p) (\<lambda>q.
     if \<not> (pi_nread q = pi_nwrite q \<and> pi_writeopen q) then kret (Some True)
     else kbind killed (\<lambda>k.
       if k then kret (Some False)
       else kseq (sleep env (ChanPipeRead p) (PipeLock p)) (kret None)))"

primrec piperead_loop :: "u32 \<Rightarrow> kdst \<Rightarrow> u32 \<Rightarrow> nat \<Rightarrow> ('x file_st_scheme, u8 list) kern" where
  "piperead_loop p dst i 0 = kret []"
| "piperead_loop p dst i (Suc n) = kbind (pipe_of p) (\<lambda>q.
     if pi_nread q = pi_nwrite q then kret []
     else let c = pi_data q (unat (pi_nread q) mod PIPESIZE) in
       kseq (upd_pipe p (\<lambda>q. q\<lparr>pi_nread := pi_nread q + 1\<rparr>))
      (kseq (put_byte dst i c)
      (kbind (piperead_loop p dst (i + 1) n) (\<lambda>cs. kret (c # cs)))))"

definition piperead :: "'x file_st_scheme env \<Rightarrow> u32 \<Rightarrow> kdst \<Rightarrow> int \<Rightarrow> ('x file_st_scheme, int \<times> u8 list) kern" where
  "piperead env p dst n = kseq (acquire (PipeLock p))
     (kbind (kretry (piperead_turn env p)) (\<lambda>ok.
      if \<not> ok then kseq (release (PipeLock p)) (kret (-1, []))
      else kbind (piperead_loop p dst 0 (nat n)) (\<lambda>cs.
        kseq (wakeup (ChanPipeWrite p))
       (kseq (release (PipeLock p)) (kret (int (length cs), cs))))))"

subsection \<open>The file table\<close>

definition filealloc :: "('x file_st_scheme, nat option) kern" where
  "filealloc = kseq (acquire FtableLock)
     (kbind (kget (\<lambda>s. first_index (\<lambda>f. f_ref (files s f) = 0) NFILE)) (\<lambda>found. case found of
         Some f \<Rightarrow> kseq (upd_file f (\<lambda>q. q\<lparr>f_ref := 1\<rparr>)) (kseq (release FtableLock) (kret (Some f)))
       | None \<Rightarrow> kseq (release FtableLock) (kret None)))"

definition filedup :: "nat \<Rightarrow> ('x file_st_scheme, nat) kern" where
  "filedup f = kseq (acquire FtableLock) (kbind (file_of f) (\<lambda>q.
     if f_ref q < 1 then panic ''filedup''
     else kseq (upd_file f (\<lambda>q. q\<lparr>f_ref := f_ref q + 1\<rparr>)) (kseq (release FtableLock) (kret f))))"

definition fileclose :: "'x file_st_scheme env \<Rightarrow> nat \<Rightarrow> ('x file_st_scheme, unit) kern" where
  "fileclose env f = kseq (acquire FtableLock) (kbind (file_of f) (\<lambda>ff.
     if f_ref ff < 1 then panic ''fileclose''
     else kseq (upd_file f (\<lambda>q. q\<lparr>f_ref := f_ref q - 1\<rparr>))
      (if f_ref ff - 1 > 0 then release FtableLock
       else kseq (upd_file f (\<lambda>q. q\<lparr>f_ref := 0, f_type := FD_NONE\<rparr>))
           (kseq (release FtableLock)
           (case f_type ff of
              FD_PIPE \<Rightarrow> pipeclose (f_pipe ff) (f_writable ff)
            | FD_INODE \<Rightarrow> kseq (begin_trans env) (kseq (iput env (f_ip ff)) (commit_trans env))
            | FD_NONE \<Rightarrow> kret ())))))"

text \<open>The fields of \<open>struct stat\<close>, in the order \<open>stati\<close> writes them.\<close>

definition vstore16 :: "u32 \<Rightarrow> u16 \<Rightarrow> ('x proc_st_scheme, unit) kern" where
  "vstore16 va w = kseq (vstore8 va (byte_of16 w 0)) (vstore8 (va + 1) (byte_of16 w 1))"

definition store_stat :: "u32 \<Rightarrow> stat_buf \<Rightarrow> ('x proc_st_scheme, unit) kern" where
  "store_stat a st = kseq (vstore32 (a + 4) (st_dev st)) (kseq (vstore32 (a + 8) (st_ino st))
     (kseq (vstore16 a (st_type st)) (kseq (vstore16 (a + 12) (st_nlink st)) (vstore32 (a + 16) (st_size st)))))"

definition filestat :: "'x file_st_scheme env \<Rightarrow> nat \<Rightarrow> u32 \<Rightarrow> ('x file_st_scheme, int) kern" where
  "filestat env f st = kbind (file_of f) (\<lambda>q.
     if f_type q = FD_INODE
     then kseq (ilock env (f_ip q))
         (kseq (kbind (stati (f_ip q)) (store_stat st))
         (kseq (iunlock (f_ip q)) (kret 0)))
     else kret (-1))"

definition fileread :: "'x file_st_scheme env \<Rightarrow> nat \<Rightarrow> u32 \<Rightarrow> int \<Rightarrow> ('x file_st_scheme, int) kern" where
  "fileread env f addr n = kbind (file_of f) (\<lambda>q.
     if \<not> f_readable q then kret (-1)
     else case f_type q of
       FD_PIPE \<Rightarrow> kbind (piperead env (f_pipe q) (MemDst addr) n) (\<lambda>(r, _). kret r)
     | FD_INODE \<Rightarrow>
         kseq (ilock env (f_ip q))
        (kbind (file_of f) (\<lambda>q.
         kbind (readi env (f_ip q) (MemDst addr) (f_off q) (of_int n)) (\<lambda>(r, _).
         kseq (kwhen (r > 0) (upd_file f (\<lambda>q. q\<lparr>f_off := f_off q + of_int r\<rparr>)))
        (kseq (iunlock (f_ip q)) (kret r)))))
     | FD_NONE \<Rightarrow> panic ''fileread'')"

definition max_write :: nat where "max_write = ((LOGSIZE - 1 - 1 - 2) div 2) * 512"

lemma max_write_pos: "0 < max_write"
  by (simp add: max_write_def LOGSIZE_def)

text \<open>The loop of \<open>filewrite\<close>: one transaction per turn; the answer is the number of bytes written.\<close>

function filewrite_loop :: "'x file_st_scheme env \<Rightarrow> nat \<Rightarrow> u32 \<Rightarrow> nat \<Rightarrow> nat \<Rightarrow> ('x file_st_scheme, nat) kern" where
  "filewrite_loop env f addr n i =
     (if i < n
      then let n1 = min (n - i) max_write in
        kseq (begin_trans env)
       (kbind (file_of f) (\<lambda>q.
        kseq (ilock env (f_ip q))
       (kbind (file_of f) (\<lambda>q.
        kbind (writei env (f_ip q) (MemSrc (addr + of_nat i)) (f_off q) (of_nat n1)) (\<lambda>r.
        kseq (kwhen (r > 0) (upd_file f (\<lambda>q. q\<lparr>f_off := f_off q + of_int r\<rparr>)))
       (kseq (iunlock (f_ip q))
       (kseq (commit_trans env)
        (if r < 0 then kret i
         else if r \<noteq> int n1 then panic ''short filewrite''
         else filewrite_loop env f addr n (i + n1)))))))))
      else kret i)"
  by pat_completeness auto
termination
proof (relation "measure (\<lambda>(_, _, _, n, i). n - i)")
  fix env :: "'x file_st_scheme env" and f addr n i n1 q q' r
  assume "i < (n :: nat)" "n1 = min (n - i) max_write"
  then show "((env, f, addr, n, i + n1), env, f, addr, n, i) \<in> measure (\<lambda>(_, _, _, n, i). n - i)"
    using max_write_pos by auto
qed simp

declare filewrite_loop.simps [simp del]

definition filewrite :: "'x file_st_scheme env \<Rightarrow> nat \<Rightarrow> u32 \<Rightarrow> int \<Rightarrow> ('x file_st_scheme, int) kern" where
  "filewrite env f addr n = kbind (file_of f) (\<lambda>q.
     if \<not> f_writable q then kret (-1)
     else case f_type q of
       FD_PIPE \<Rightarrow> pipewrite env (f_pipe q) (MemSrc addr) n
     | FD_INODE \<Rightarrow> kbind (filewrite_loop env f addr (nat n) 0) (\<lambda>i. kret (if int i = n then n else -1))
     | FD_NONE \<Rightarrow> panic ''filewrite'')"

subsection \<open>Creating a pipe\<close>

definition pipe_new :: "pipe \<Rightarrow> pipe" where
  "pipe_new q = q\<lparr>pi_readopen := True, pi_writeopen := True, pi_nwrite := 0, pi_nread := 0\<rparr>"

definition pipealloc :: "'x file_st_scheme env \<Rightarrow> ('x file_st_scheme, (nat \<times> nat) option) kern" where
  "pipealloc env = kbind filealloc (\<lambda>f0. case f0 of
       None \<Rightarrow> kret None
     | Some f0 \<Rightarrow> kbind filealloc (\<lambda>f1. case f1 of
         None \<Rightarrow> kseq (fileclose env f0) (kret None)
       | Some f1 \<Rightarrow> kbind kalloc (\<lambda>p.
           if p = 0 then kseq (fileclose env f0) (kseq (fileclose env f1) (kret None))
           else kseq (upd_pipe p pipe_new)
               (kseq (upd_file f0 (\<lambda>q. q\<lparr>f_type := FD_PIPE, f_readable := True, f_writable := False, f_pipe := p\<rparr>))
               (kseq (upd_file f1 (\<lambda>q. q\<lparr>f_type := FD_PIPE, f_readable := False, f_writable := True, f_pipe := p\<rparr>))
                (kret (Some (f0, f1))))))))"

end
