(* ===== verification/Life.thy ===== *)
theory Life
  imports File
begin

unbundle bit_operations_syntax

section \<open>proc.c: creating and ending processes and threads\<close>

text \<open>
  The operations of \<^verbatim>\<open>src/proc.c\<close> that need open files and inodes: \<open>userinit\<close>, \<open>fork\<close>,
  \<open>exit\<close>, \<open>forkret\<close> and \<open>thread_create\<close>. A process name is the bytes of its C string.
\<close>

definition safestrcpy_name :: "nat \<Rightarrow> u8 list \<Rightarrow> u8 list" where
  "safestrcpy_name n t = takeWhile (\<lambda>c. c \<noteq> 0) (take (n - 1) t)"

definition bytes_of :: "string \<Rightarrow> u8 list" where
  "bytes_of cs = map of_char cs"

definition zero_trapframe :: trapframe where
  "zero_trapframe = \<lparr>tf_edi = 0, tf_esi = 0, tf_ebp = 0, tf_oesp = 0, tf_ebx = 0, tf_edx = 0, tf_ecx = 0,
     tf_eax = 0, tf_gs = 0, tf_fs = 0, tf_es = 0, tf_ds = 0, tf_trapno = 0, tf_err = 0, tf_eip = 0,
     tf_cs = 0, tf_eflags = 0, tf_esp = 0, tf_ss = 0\<rparr>"

definition init_trapframe :: trapframe where
  "init_trapframe = zero_trapframe\<lparr>tf_cs := push_bit 3 SEG_UCODE OR DPL_USER,
     tf_ds := push_bit 3 SEG_UDATA OR DPL_USER, tf_es := push_bit 3 SEG_UDATA OR DPL_USER,
     tf_ss := push_bit 3 SEG_UDATA OR DPL_USER, tf_eflags := FL_IF, tf_esp := PGSIZE, tf_eip := 0\<rparr>"

text \<open>\<open>userinit\<close>; \<open>initcode\<close> and \<open>codesize\<close> are the linker symbols of the first program.\<close>

definition userinit :: "'x file_st_scheme env \<Rightarrow> u32 \<Rightarrow> u32 \<Rightarrow> ('x file_st_scheme, unit) kern" where
  "userinit env initcode codesize = kbind allocproc (\<lambda>found.
     kseq (kmod (\<lambda>s. s\<lparr>initproc := found\<rparr>))
    (case found of None \<Rightarrow> fault ''userinit: null pointer'' | Some p \<Rightarrow>
       kbind setupkvm (\<lambda>d.
       kseq (upd_proc p (\<lambda>q. q\<lparr>p_pgdir := d\<rparr>))
      (if d = 0 then panic ''userinit: out of memory?''
       else kseq (inituvm d initcode codesize)
           (kseq (upd_proc p (\<lambda>q. q\<lparr>p_sz := PGSIZE, p_tf := init_trapframe\<rparr>))
           (kseq (upd_proc p (\<lambda>q. q\<lparr>p_name := safestrcpy_name 16 (bytes_of ''initcode'')\<rparr>))
           (kbind (namei env (bytes_of ''/'')) (\<lambda>cwd.
            kseq (upd_proc p (\<lambda>q. q\<lparr>p_cwd := cwd\<rparr>))
             (upd_proc p (\<lambda>q. q\<lparr>p_state := RUNNABLE\<rparr>))))))))))"

text \<open>The open files and the current directory of process \<open>c\<close>, duplicated for \<open>np\<close>.\<close>

definition dup_files :: "nat \<Rightarrow> nat \<Rightarrow> ('x file_st_scheme, unit) kern" where
  "dup_files c np = kfor [0..<NOFILE] (\<lambda>i. kbind (kget (\<lambda>s. p_ofile (ptable s c) ! i)) (\<lambda>f. case f of
       None \<Rightarrow> kret ()
     | Some f \<Rightarrow> kbind (filedup f) (\<lambda>f. upd_proc np (\<lambda>q. q\<lparr>p_ofile := (p_ofile q)[i := Some f]\<rparr>))))"

definition dup_cwd :: "nat \<Rightarrow> nat \<Rightarrow> ('x file_st_scheme, unit) kern" where
  "dup_cwd c np = kbind (kget (\<lambda>s. p_cwd (ptable s c))) (\<lambda>cwd. case cwd of
       None \<Rightarrow> fault ''idup: null pointer''
     | Some ip \<Rightarrow> kbind (idup ip) (\<lambda>ip. upd_proc np (\<lambda>q. q\<lparr>p_cwd := Some ip\<rparr>)))"

definition fork :: "('x file_st_scheme, int) kern" where
  "fork = kbind allocproc (\<lambda>found. case found of None \<Rightarrow> kret (-1) | Some np \<Rightarrow>
     kbind myproc (\<lambda>c.
     kbind (kget (\<lambda>s. ptable s c)) (\<lambda>q.
     kbind (copyuvm (p_pgdir q) (p_sz q)) (\<lambda>d.
     kseq (upd_proc np (\<lambda>n. n\<lparr>p_pgdir := d\<rparr>))
    (if d = 0
     then kbind (kget (\<lambda>s. p_kstack (ptable s np))) (\<lambda>ks.
          kseq (kfree ks) (kseq (upd_proc np (\<lambda>n. n\<lparr>p_kstack := 0, p_state := UNUSED\<rparr>)) (kret (-1))))
     else kseq (upd_proc np (\<lambda>n. n\<lparr>p_sz := p_sz q, p_parent := Some c, p_tf := (p_tf q)\<lparr>tf_eax := 0\<rparr>\<rparr>))
         (kseq (dup_files c np)
         (kseq (dup_cwd c np)
         (kbind (kget (\<lambda>s. p_pid (ptable s np))) (\<lambda>pid.
          kseq (upd_proc np (\<lambda>n. n\<lparr>p_state := RUNNABLE\<rparr>))
         (kseq (upd_proc np (\<lambda>n. n\<lparr>p_name := safestrcpy_name 16 (p_name q)\<rparr>))
          (kret pid)))))))))))"

definition wakeup1_proc :: "nat option \<Rightarrow> ('x proc_st_scheme, unit) kern" where
  "wakeup1_proc q = (case q of None \<Rightarrow> kret () | Some p \<Rightarrow> wakeup1 (ChanProc p))"

text \<open>Closing the open files and leaving the current directory.\<close>

definition exit_files :: "'x file_st_scheme env \<Rightarrow> nat \<Rightarrow> ('x file_st_scheme, unit) kern" where
  "exit_files env c =
     kseq (kfor [0..<NOFILE] (\<lambda>fd. kbind (kget (\<lambda>s. p_ofile (ptable s c) ! fd)) (\<lambda>f. case f of
         None \<Rightarrow> kret ()
       | Some f \<Rightarrow> kseq (fileclose env f) (upd_proc c (\<lambda>q. q\<lparr>p_ofile := (p_ofile q)[fd := None]\<rparr>)))))
    (kseq (kbind (kget (\<lambda>s. p_cwd (ptable s c))) (\<lambda>cwd. case cwd of
         None \<Rightarrow> fault ''iput: null pointer'' | Some ip \<Rightarrow> iput env ip))
     (upd_proc c (\<lambda>q. q\<lparr>p_cwd := None\<rparr>)))"

text \<open>Handing the children of \<open>c\<close> to \<open>initproc\<close>.\<close>

definition reparent :: "nat \<Rightarrow> ('x proc_st_scheme, unit) kern" where
  "reparent c = kfor [0..<NPROC] (\<lambda>i. kbind (kget (\<lambda>s. ptable s i)) (\<lambda>p.
     kwhen (p_parent p = Some c)
      (kbind (kget initproc) (\<lambda>ini.
       kseq (upd_proc i (\<lambda>p. p\<lparr>p_parent := ini\<rparr>))
        (kwhen (p_state p = ZOMBIE) (wakeup1_proc ini))))))"

definition exit :: "'x file_st_scheme env \<Rightarrow> ('x file_st_scheme, unit) kern" where
  "exit env = kbind (kget (\<lambda>s. curproc s = initproc s)) (\<lambda>isinit.
     if isinit then panic ''init exiting''
     else kbind myproc (\<lambda>c.
       kseq (exit_files env c)
      (kseq (acquire PtableLock)
      (kbind (kget (\<lambda>s. p_parent (ptable s c))) (\<lambda>par.
       kseq (wakeup1_proc par)
      (kseq (reparent c)
      (kseq (upd_proc c (\<lambda>q. q\<lparr>p_state := ZOMBIE\<rparr>))
      (kseq (sched env)
       (panic ''zombie exit'')))))))))"

definition forkret :: "'x log_st_scheme env \<Rightarrow> ('x log_st_scheme, unit) kern" where
  "forkret env = kseq (release PtableLock) (kbind (kget fork_first) (\<lambda>first.
     kwhen first (kseq (kmod (\<lambda>s. s\<lparr>fork_first := False\<rparr>)) (initlog env))))"

subsection \<open>Threads\<close>

definition le_bytes :: "u32 \<Rightarrow> u8 list" where
  "le_bytes w = map (byte_of32 w) [0..<4]"

definition rd_var :: "u8 list \<Rightarrow> nat \<Rightarrow> nat \<Rightarrow> ('s, u8 list) kern" where
  "rd_var bs k n = kret (take n (drop k bs))"

definition rd_mem :: "u32 \<Rightarrow> nat \<Rightarrow> nat \<Rightarrow> ('x proc_st_scheme, u8 list) kern" where
  "rd_mem a k n = get_bytes (MemSrc a) (of_nat k) n"

text \<open>The results of \<open>copyout\<close> are ignored.\<close>

definition thread_stack_init :: "u32 \<Rightarrow> u32 \<Rightarrow> ('x proc_st_scheme, u32) kern" where
  "thread_stack_init stack args = kbind myproc (\<lambda>c. kbind (kget (\<lambda>s. p_pgdir (ptable s c))) (\<lambda>d.
     let stack_p = (stack - 4) AND NOT 3 in
     kseq (copyout d stack_p (rd_mem args) 0 4)
    (let user_stack = le_bytes 0xFFFFFFFF @ le_bytes stack_p @ le_bytes 0;
         sp = stack_p - 12
     in kseq (copyout d sp (rd_var user_stack) 0 12) (kret sp))))"

definition thread_create :: "u32 \<Rightarrow> u32 \<Rightarrow> u32 \<Rightarrow> ('x file_st_scheme, int) kern" where
  "thread_create tmain stack arg = kbind allocproc (\<lambda>found. case found of None \<Rightarrow> kret (-1) | Some np \<Rightarrow>
     kbind myproc (\<lambda>c. kbind (kget (\<lambda>s. ptable s c)) (\<lambda>q.
     kseq (upd_proc np (\<lambda>n. n\<lparr>p_pgdir := p_pgdir q, p_sz := p_sz q, p_parent := Some c,
         p_tf := p_tf q, p_thread_stack_top := stack\<rparr>))
    (kbind (thread_stack_init stack arg) (\<lambda>sp.
     kseq (upd_proc np (\<lambda>n. n\<lparr>p_tf := (p_tf n)\<lparr>tf_esp := sp, tf_eip := tmain, tf_eax := 0\<rparr>\<rparr>))
    (kseq (dup_files c np)
    (kseq (dup_cwd c np)
    (kbind (kget (\<lambda>s. p_pid (ptable s np))) (\<lambda>tid.
     kseq (upd_proc np (\<lambda>n. n\<lparr>p_state := RUNNABLE\<rparr>))
    (kseq (upd_proc np (\<lambda>n. n\<lparr>p_name := safestrcpy_name 16 (p_name q)\<rparr>))
     (kret tid)))))))))))"

end
