(* ===== verification/Syscall.thy ===== *)
theory Syscall
  imports Life
begin

unbundle bit_operations_syntax

section \<open>syscall.c and sysproc.c: arguments and process system calls\<close>

text \<open>
  Fetching system call arguments from user memory (\<^verbatim>\<open>src/syscall.c\<close>) and the system calls of
  \<^verbatim>\<open>src/sysproc.c\<close>. An argument is \<open>None\<close> where the code returns -1. Using an argument whose
  fetch failed and was not checked reads an uninitialised variable, which is a fault. A
  string argument is its address and the bytes before its terminating zero.
\<close>

definition proc_sz :: "('x proc_st_scheme, u32) kern" where
  "proc_sz = kbind myproc (\<lambda>p. kget (\<lambda>s. p_sz (ptable s p)))"

definition proc_tf :: "('x proc_st_scheme, trapframe) kern" where
  "proc_tf = kbind myproc (\<lambda>p. kget (\<lambda>s. p_tf (ptable s p)))"

definition fetchint :: "u32 \<Rightarrow> ('x proc_st_scheme, u32 option) kern" where
  "fetchint addr = kbind proc_sz (\<lambda>sz.
     if addr \<ge> sz \<or> addr + 4 > sz then kret None else kbind (vload32 addr) (\<lambda>w. kret (Some w)))"

text \<open>The scan of \<open>fetchstr\<close> over the \<open>n\<close> bytes up to the end of the address space.\<close>

primrec fetchstr_from :: "u32 \<Rightarrow> nat \<Rightarrow> ('x proc_st_scheme, u8 list option) kern" where
  "fetchstr_from s 0 = kret None"
| "fetchstr_from s (Suc n) = kbind (vload8 s) (\<lambda>c.
     if c = 0 then kret (Some [])
     else kbind (fetchstr_from (s + 1) n) (\<lambda>r. kret (map_option (\<lambda>cs. c # cs) r)))"

definition fetchstr :: "u32 \<Rightarrow> ('x proc_st_scheme, (u32 \<times> u8 list) option) kern" where
  "fetchstr addr = kbind proc_sz (\<lambda>sz.
     if addr \<ge> sz then kret None
     else kbind (fetchstr_from addr (unat sz - unat addr)) (\<lambda>r. kret (map_option (\<lambda>cs. (addr, cs)) r)))"

definition argint :: "nat \<Rightarrow> ('x proc_st_scheme, u32 option) kern" where
  "argint n = kbind proc_tf (\<lambda>tf. fetchint (tf_esp tf + 4 + 4 * of_nat n))"

definition argptr :: "nat \<Rightarrow> u32 \<Rightarrow> ('x proc_st_scheme, u32 option) kern" where
  "argptr n siz = kbind (argint n) (\<lambda>a. case a of
       None \<Rightarrow> kret None
     | Some i \<Rightarrow> kbind proc_sz (\<lambda>sz. if i \<ge> sz \<or> i + siz > sz then kret None else kret (Some i)))"

definition argstr :: "nat \<Rightarrow> ('x proc_st_scheme, (u32 \<times> u8 list) option) kern" where
  "argstr n = kbind (argint n) (\<lambda>a. case a of None \<Rightarrow> kret None | Some addr \<Rightarrow> fetchstr addr)"

subsection \<open>sysproc.c\<close>

definition sys_fork :: "('x file_st_scheme, int) kern" where
  "sys_fork = fork"

definition sys_exit :: "'x file_st_scheme env \<Rightarrow> ('x file_st_scheme, int) kern" where
  "sys_exit env = kseq (exit env) (kret 0)"

definition sys_wait :: "'x proc_st_scheme env \<Rightarrow> ('x proc_st_scheme, int) kern" where
  "sys_wait env = wait env"

definition sys_kill :: "('x proc_st_scheme, int) kern" where
  "sys_kill = kbind (argint 0) (\<lambda>a. case a of None \<Rightarrow> kret (-1) | Some pid \<Rightarrow> kill (sint pid))"

definition sys_getpid :: "('x proc_st_scheme, int) kern" where
  "sys_getpid = kbind myproc (\<lambda>p. kget (\<lambda>s. p_pid (ptable s p)))"

definition sys_sbrk :: "('x proc_st_scheme, int) kern" where
  "sys_sbrk = kbind (argint 0) (\<lambda>a. case a of None \<Rightarrow> kret (-1) | Some n \<Rightarrow>
     kbind proc_sz (\<lambda>addr. kbind (growproc n) (\<lambda>r.
       if r < 0 then kret (-1) else kret (sint addr))))"

definition sys_sleep_turn :: "'x proc_st_scheme env \<Rightarrow> u32 \<Rightarrow> u32 \<Rightarrow> ('x proc_st_scheme, bool option) kern" where
  "sys_sleep_turn env n ticks0 = kbind (kget ticks) (\<lambda>t.
     if \<not> t - ticks0 < n then kret (Some True)
     else kbind killed (\<lambda>k. if k then kret (Some False)
       else kseq (sleep env ChanTicks TicksLock) (kret None)))"

definition sys_sleep :: "'x proc_st_scheme env \<Rightarrow> ('x proc_st_scheme, int) kern" where
  "sys_sleep env = kbind (argint 0) (\<lambda>a. case a of None \<Rightarrow> kret (-1) | Some n \<Rightarrow>
     kseq (acquire TicksLock) (kbind (kget ticks) (\<lambda>ticks0.
     kbind (kretry (sys_sleep_turn env n ticks0)) (\<lambda>ok.
     kseq (release TicksLock) (kret (if ok then 0 else -1))))))"

text \<open>The array \<open>burstarr\<close> has \<open>MAX_NUM_BURSTS\<close> entries; a write outside it is a fault.\<close>

definition sys_start_burst :: "('x proc_st_scheme, u32) kern" where
  "sys_start_burst = kbind sys_uptime (\<lambda>t. kbind myproc (\<lambda>p.
     kseq (upd_proc p (\<lambda>q. q\<lparr>p_sburst := t, p_burst_idx := p_burst_idx q + 1\<rparr>))
    (kseq (upd_proc p (\<lambda>q. if p_burst_idx q > 100 then q\<lparr>p_burst_idx := 0\<rparr> else q))
     (kret t))))"

definition sys_end_burst :: "('x proc_st_scheme, u32) kern" where
  "sys_end_burst = kbind sys_uptime (\<lambda>t. kbind myproc (\<lambda>p. kbind (kget (\<lambda>s. ptable s p)) (\<lambda>q.
     if unat (p_burst_idx q) \<ge> MAX_NUM_BURSTS then fault ''burstarr: index out of range''
     else kseq (upd_proc p (\<lambda>q. q\<lparr>p_burstarr := (p_burstarr q)[unat (p_burst_idx q) := t - p_sburst q]\<rparr>))
          (kret t))))"

definition sys_print_bursts :: "('x proc_st_scheme, int) kern" where
  "sys_print_bursts = kbind sys_uptime (\<lambda>t. kbind myproc (\<lambda>p.
     kseq (upd_proc p (\<lambda>q. q\<lparr>p_turnaround := t - p_initial_burst q\<rparr>))
    (kseq (kfor [0..<100] (\<lambda>i. kbind (kget (\<lambda>s. p_burstarr (ptable s p) ! i)) (\<lambda>b.
        kwhen (b \<noteq> 0) (cprintf ''%d, '' [PInt b]))))
    (kbind (kget (\<lambda>s. p_turnaround (ptable s p))) (\<lambda>ta.
     kseq (cprintf (''turnaround time: %d'' @ newline) [PInt ta]) (kret 0))))))"

text \<open>A pointer argument of \<open>sys_thread_create\<close>, whose fetch is not checked.\<close>

definition unchecked_str :: "nat \<Rightarrow> ('x proc_st_scheme, u32) kern" where
  "unchecked_str n = kbind (argint n) (\<lambda>a. case a of
       None \<Rightarrow> fault ''sys_thread_create: uninitialised argument''
     | Some addr \<Rightarrow> kbind proc_sz (\<lambda>sz.
         if addr \<ge> sz then fault ''sys_thread_create: uninitialised argument''
         else kseq (fetchstr addr) (kret addr)))"

definition sys_thread_create :: "('x file_st_scheme, int) kern" where
  "sys_thread_create = kbind (argptr 0 1) (\<lambda>tmain.
     kbind (unchecked_str 1) (\<lambda>stack. kbind (unchecked_str 2) (\<lambda>arg.
     case tmain of None \<Rightarrow> fault ''sys_thread_create: uninitialised argument''
     | Some tmain \<Rightarrow> thread_create tmain stack arg)))"

definition sys_thread_join :: "'x proc_st_scheme env \<Rightarrow> ('x proc_st_scheme, int) kern" where
  "sys_thread_join env = kbind (argint 0) (\<lambda>a. case a of None \<Rightarrow> kret (-1) | Some stack \<Rightarrow> thread_join env stack)"

text \<open>The user-level spin locks. An index outside the array \<open>thread_locks\<close> is a fault.\<close>

definition mtx_xchg :: "int \<Rightarrow> u32 \<Rightarrow> ('x proc_st_scheme, u32) kern" where
  "mtx_xchg i v = kbind (kget thread_locks) (\<lambda>ls.
     if i < 0 \<or> i \<ge> int MAX_NUM_LOCKS then fault ''thread_locks: index out of range''
     else kseq (kmod (\<lambda>s. s\<lparr>thread_locks := (thread_locks s)[nat i := v]\<rparr>)) (kret (ls ! nat i)))"

definition unchecked_int :: "nat \<Rightarrow> ('x proc_st_scheme, u32) kern" where
  "unchecked_int n = kbind (argint n) (\<lambda>a. case a of None \<Rightarrow> fault ''argint: uninitialised argument'' | Some w \<Rightarrow> kret w)"

definition sys_mtx_create :: "('x proc_st_scheme, int) kern" where
  "sys_mtx_create = kbind (unchecked_int 0) (\<lambda>locked. kbind (kget nextLockId) (\<lambda>i.
     kseq (kmod (\<lambda>s. s\<lparr>nextLockId := i + 1\<rparr>))
    (kseq (mtx_xchg i locked) (kret i))))"

text \<open>
  The spinning loop of \<open>sys_mtx_lock\<close>. It changes nothing until another process runs, which
  happens when a timer interrupt makes the spinning process yield.
\<close>

definition mtx_lock_turn :: "'x proc_st_scheme env \<Rightarrow> int \<Rightarrow> ('x proc_st_scheme, unit option) kern" where
  "mtx_lock_turn env i = kbind (mtx_xchg i 1) (\<lambda>old.
     if old = 0 then kret (Some ()) else kseq (yield env) (kret None))"

definition sys_mtx_lock :: "'x proc_st_scheme env \<Rightarrow> ('x proc_st_scheme, int) kern" where
  "sys_mtx_lock env = kbind (unchecked_int 0) (\<lambda>i. kseq (kretry (mtx_lock_turn env (sint i))) (kret 0))"

definition sys_mtx_unlock :: "('x proc_st_scheme, int) kern" where
  "sys_mtx_unlock = kbind (unchecked_int 0) (\<lambda>i. kseq (mtx_xchg (sint i) 0) (kret 0))"

end
