(* ===== verification/Elf.thy ===== *)
theory Elf
  imports Bytes
begin

section \<open>elf.h: executables\<close>

text \<open>The headers of \<^verbatim>\<open>src/elf.h\<close>, with the fields the code reads, and their coding in bytes.\<close>

definition ELF_MAGIC :: u32 where "ELF_MAGIC = 0x464C457F"
definition ELF_PROG_LOAD :: u32 where "ELF_PROG_LOAD = 1"

record elfhdr =
  eh_magic :: u32
  eh_entry :: u32
  eh_phoff :: u32
  eh_phnum :: u16

record proghdr =
  ph_type :: u32
  ph_off :: u32
  ph_vaddr :: u32
  ph_paddr :: u32
  ph_filesz :: u32
  ph_memsz :: u32

definition lrd16 :: "u8 list \<Rightarrow> nat \<Rightarrow> u16" where
  "lrd16 bs k = le16 (bs ! k) (bs ! (k + 1))"

definition lrd32 :: "u8 list \<Rightarrow> nat \<Rightarrow> u32" where
  "lrd32 bs k = le32 (bs ! k) (bs ! (k + 1)) (bs ! (k + 2)) (bs ! (k + 3))"

definition elf_of :: "u8 list \<Rightarrow> elfhdr" where
  "elf_of bs = \<lparr>eh_magic = lrd32 bs 0, eh_entry = lrd32 bs 24, eh_phoff = lrd32 bs 28, eh_phnum = lrd16 bs 44\<rparr>"

definition ph_of :: "u8 list \<Rightarrow> proghdr" where
  "ph_of bs = \<lparr>ph_type = lrd32 bs 0, ph_off = lrd32 bs 4, ph_vaddr = lrd32 bs 8, ph_paddr = lrd32 bs 12,
     ph_filesz = lrd32 bs 16, ph_memsz = lrd32 bs 20\<rparr>"

end
