(* ===== verification/Exec.thy ===== *)
theory Exec
  imports Syscall Elf
begin

unbundle bit_operations_syntax

section \<open>exec.c: loading a program\<close>

text \<open>
  \<^verbatim>\<open>src/exec.c\<close>. The arguments are pairs of the address of a string in the caller's address
  space and its bytes, as \<open>fetchstr\<close> found them. The comparison of the result of \<open>readi\<close> with
  \<open>sizeof(elf)\<close> is unsigned, so a result of -1 passes it and an uninitialised header is used.
\<close>

text \<open>The segments: \<open>n\<close> headers left, the next at \<open>off\<close>; nothing stands for the jump to \<open>bad\<close>.\<close>

primrec exec_load :: "'x con_st_scheme env \<Rightarrow> nat \<Rightarrow> u32 \<Rightarrow> u32 \<Rightarrow> u32 \<Rightarrow> nat \<Rightarrow> ('x con_st_scheme, u32 option) kern" where
  "exec_load env ip pgdir sz off 0 = kret (Some sz)"
| "exec_load env ip pgdir sz off (Suc n) = kbind (readi env ip VarDst off 32) (\<lambda>(r, bs).
     if r \<noteq> 32 then kret None
     else let ph = ph_of bs in
       if ph_type ph \<noteq> ELF_PROG_LOAD then exec_load env ip pgdir sz (off + 32) n
       else if ph_memsz ph < ph_filesz ph then kret None
       else kbind (allocuvm pgdir sz (ph_vaddr ph + ph_memsz ph)) (\<lambda>sz.
         if sz = 0 then kret None
         else kbind (loaduvm env pgdir (ph_vaddr ph) ip (ph_off ph) (ph_filesz ph)) (\<lambda>r.
           if r < 0 then kret None else exec_load env ip pgdir sz (off + 32) n)))"

text \<open>Pushing the argument strings: the stack pointer and the addresses of the strings.\<close>

primrec exec_args :: "u32 \<Rightarrow> u32 \<Rightarrow> (u32 \<times> u8 list) list \<Rightarrow> nat \<Rightarrow> ('x proc_st_scheme, (u32 \<times> u32 list) option) kern" where
  "exec_args pgdir sp [] argc = kret (Some (sp, []))"
| "exec_args pgdir sp (a # argv) argc =
     (if argc \<ge> MAXARG then kret None
      else let len = length (snd a) + 1; sp1 = (sp - of_nat len) AND NOT 3 in
        kbind (copyout pgdir sp1 (rd_mem (fst a)) 0 len) (\<lambda>r.
          if r < 0 then kret None
          else kbind (exec_args pgdir sp1 argv (argc + 1)) (\<lambda>res.
            kret (map_option (\<lambda>(sp, ps). (sp, sp1 # ps)) res))))"

definition exec_ustack :: "u32 \<Rightarrow> u32 list \<Rightarrow> u8 list" where
  "exec_ustack sp ps = (let argc = of_nat (length ps) in
     concat (map le_bytes ([0xffffffff, argc, sp - (argc + 1) * 4] @ ps @ [0])))"

definition basename :: "u8 list \<Rightarrow> u8 list" where
  "basename path = rev (takeWhile (\<lambda>c. c \<noteq> slash) (rev path))"

text \<open>The part after the program is loaded; nothing stands for the jump to \<open>bad\<close>.\<close>

definition exec_stack :: "u32 \<Rightarrow> u32 \<Rightarrow> (u32 \<times> u8 list) list \<Rightarrow> ('x proc_st_scheme, (u32 \<times> u32) option) kern" where
  "exec_stack pgdir sz argv =
     (let sz = PGROUNDUP sz in
      kbind (allocuvm pgdir sz (sz + 2 * PGSIZE)) (\<lambda>sz.
        if sz = 0 then kret None
        else kseq (clearpteu pgdir (sz - 2 * PGSIZE))
         (kbind (exec_args pgdir sz argv 0) (\<lambda>res. case res of
              None \<Rightarrow> kret None
            | Some (sp, ps) \<Rightarrow>
                let us = exec_ustack sp ps; sp = sp - of_nat (length us) in
                kbind (copyout pgdir sp (rd_var us) 0 (length us)) (\<lambda>r.
                  kret (if r < 0 then None else Some (sz, sp)))))))"

definition exec_commit :: "u8 list \<Rightarrow> u32 \<Rightarrow> u32 \<Rightarrow> u32 \<Rightarrow> u32 \<Rightarrow> ('x proc_st_scheme, int) kern" where
  "exec_commit path pgdir sz sp entry = kbind myproc (\<lambda>c.
     kseq (upd_proc c (\<lambda>q. q\<lparr>p_name := safestrcpy_name 16 (basename path)\<rparr>))
    (kbind (kget (\<lambda>s. p_pgdir (ptable s c))) (\<lambda>oldpgdir.
     kseq (upd_proc c (\<lambda>q. q\<lparr>p_pgdir := pgdir, p_sz := sz, p_tf := (p_tf q)\<lparr>tf_eip := entry, tf_esp := sp\<rparr>\<rparr>))
    (kseq (switchuvm c)
    (kseq (freevm oldpgdir) (kret 0))))))"

definition exec :: "'x con_st_scheme env \<Rightarrow> u8 list \<Rightarrow> (u32 \<times> u8 list) list \<Rightarrow> ('x con_st_scheme, int) kern" where
  "exec env path argv = kbind (namei env path) (\<lambda>found. case found of None \<Rightarrow> kret (-1) | Some ip \<Rightarrow>
     kseq (ilock env ip)
    (kbind (readi env ip VarDst 0 52) (\<lambda>(r, bs).
     if r < 0 then fault ''exec: uninitialised header''
     else if r < 52 \<or> eh_magic (elf_of bs) \<noteq> ELF_MAGIC then kseq (iunlockput env ip) (kret (-1))
     else kbind setupkvm (\<lambda>pgdir.
       if pgdir = 0 then kseq (iunlockput env ip) (kret (-1))
       else let elf = elf_of bs in
         kbind (exec_load env ip pgdir 0 (eh_phoff elf) (unat (eh_phnum elf))) (\<lambda>res. case res of
             None \<Rightarrow> kseq (freevm pgdir) (kseq (iunlockput env ip) (kret (-1)))
           | Some sz \<Rightarrow>
               kseq (iunlockput env ip)
              (kbind (exec_stack pgdir sz argv) (\<lambda>res. case res of
                   None \<Rightarrow> kseq (freevm pgdir) (kret (-1))
                 | Some (sz, sp) \<Rightarrow> exec_commit path pgdir sz sp (eh_entry elf))))))))"

end
