(* ===== verification/Sysfile.thy ===== *)
theory Sysfile
  imports Exec
begin

unbundle bit_operations_syntax

section \<open>sysfile.c and trap.c: file system calls, dispatch and traps\<close>

text \<open>
  The system calls of \<^verbatim>\<open>src/sysfile.c\<close>, the dispatcher \<open>syscall\<close> and \<open>trap\<close> of
  \<^verbatim>\<open>src/trap.c\<close>.
\<close>

subsection \<open>Descriptors\<close>

definition argfd :: "nat \<Rightarrow> ('x proc_st_scheme, (nat \<times> nat) option) kern" where
  "argfd n = kbind (argint n) (\<lambda>a. case a of None \<Rightarrow> kret None | Some w \<Rightarrow>
     let fd = sint w in
     if fd < 0 \<or> fd \<ge> int NOFILE then kret None
     else kbind myproc (\<lambda>p. kbind (kget (\<lambda>s. p_ofile (ptable s p) ! nat fd)) (\<lambda>f.
       kret (map_option (\<lambda>f. (nat fd, f)) f))))"

definition fdalloc :: "nat \<Rightarrow> ('x proc_st_scheme, nat option) kern" where
  "fdalloc f = kbind myproc (\<lambda>p.
     kbind (kget (\<lambda>s. first_index (\<lambda>fd. p_ofile (ptable s p) ! fd = None) NOFILE)) (\<lambda>found. case found of
         None \<Rightarrow> kret None
       | Some fd \<Rightarrow> kseq (upd_proc p (\<lambda>q. q\<lparr>p_ofile := (p_ofile q)[fd := Some f]\<rparr>)) (kret (Some fd))))"

definition clear_fd :: "nat \<Rightarrow> ('x proc_st_scheme, unit) kern" where
  "clear_fd fd = kbind myproc (\<lambda>p. upd_proc p (\<lambda>q. q\<lparr>p_ofile := (p_ofile q)[fd := None]\<rparr>))"

definition sys_dup :: "('x file_st_scheme, int) kern" where
  "sys_dup = kbind (argfd 0) (\<lambda>a. case a of None \<Rightarrow> kret (-1) | Some (_, f) \<Rightarrow>
     kbind (fdalloc f) (\<lambda>fd. case fd of None \<Rightarrow> kret (-1) | Some fd \<Rightarrow>
       kseq (filedup f) (kret (int fd))))"

text \<open>The arguments of \<open>read\<close> and \<open>write\<close>: file, count and address.\<close>

definition rw_args :: "('x proc_st_scheme, (nat \<times> int \<times> u32) option) kern" where
  "rw_args = kbind (argfd 0) (\<lambda>a. case a of None \<Rightarrow> kret None | Some (_, f) \<Rightarrow>
     kbind (argint 2) (\<lambda>n. case n of None \<Rightarrow> kret None | Some n \<Rightarrow>
     kbind (argptr 1 n) (\<lambda>p. kret (map_option (\<lambda>p. (f, sint n, p)) p))))"

definition sys_read :: "'x file_st_scheme env \<Rightarrow> ('x file_st_scheme, int) kern" where
  "sys_read env = kbind rw_args (\<lambda>a. case a of None \<Rightarrow> kret (-1) | Some (f, n, p) \<Rightarrow> fileread env f p n)"

definition sys_write :: "'x file_st_scheme env \<Rightarrow> ('x file_st_scheme, int) kern" where
  "sys_write env = kbind rw_args (\<lambda>a. case a of None \<Rightarrow> kret (-1) | Some (f, n, p) \<Rightarrow> filewrite env f p n)"

definition sys_close :: "'x file_st_scheme env \<Rightarrow> ('x file_st_scheme, int) kern" where
  "sys_close env = kbind (argfd 0) (\<lambda>a. case a of None \<Rightarrow> kret (-1) | Some (fd, f) \<Rightarrow>
     kseq (clear_fd fd) (kseq (fileclose env f) (kret 0)))"

definition sys_fstat :: "'x file_st_scheme env \<Rightarrow> ('x file_st_scheme, int) kern" where
  "sys_fstat env = kbind (argfd 0) (\<lambda>a. case a of None \<Rightarrow> kret (-1) | Some (_, f) \<Rightarrow>
     kbind (argptr 1 20) (\<lambda>st. case st of None \<Rightarrow> kret (-1) | Some st \<Rightarrow> filestat env f st))"

subsection \<open>Links\<close>

definition link_bad :: "'x file_st_scheme env \<Rightarrow> nat \<Rightarrow> ('x file_st_scheme, int) kern" where
  "link_bad env ip = kseq (ilock env ip)
     (kseq (upd_inode ip (\<lambda>q. q\<lparr>i_nlink := i_nlink q - 1\<rparr>))
     (kseq (iupdate env ip)
     (kseq (iunlockput env ip)
     (kseq (commit_trans env) (kret (-1))))))"

definition sys_link :: "'x file_st_scheme env \<Rightarrow> ('x file_st_scheme, int) kern" where
  "sys_link env = kbind (argstr 0) (\<lambda>a. case a of None \<Rightarrow> kret (-1) | Some (_, old) \<Rightarrow>
     kbind (argstr 1) (\<lambda>b. case b of None \<Rightarrow> kret (-1) | Some (_, new) \<Rightarrow>
     kbind (namei env old) (\<lambda>found. case found of None \<Rightarrow> kret (-1) | Some ip \<Rightarrow>
     kseq (begin_trans env)
    (kseq (ilock env ip)
    (kbind (inode_of ip) (\<lambda>q.
     if i_type q = T_DIR then kseq (iunlockput env ip) (kseq (commit_trans env) (kret (-1)))
     else kseq (upd_inode ip (\<lambda>q. q\<lparr>i_nlink := i_nlink q + 1\<rparr>))
         (kseq (iupdate env ip)
         (kseq (iunlock ip)
         (kbind (nameiparent env new) (\<lambda>par. case par of
            None \<Rightarrow> link_bad env ip
          | Some (dp, name) \<Rightarrow>
              kseq (ilock env dp)
             (kbind (inode_of dp) (\<lambda>dq. kbind (inode_of ip) (\<lambda>iq.
              kbind (if i_dev dq \<noteq> i_dev iq then kret (-1) else dirlink env dp name (i_inum iq)) (\<lambda>r.
              if r < 0 then kseq (iunlockput env dp) (link_bad env ip)
              else kseq (iunlockput env dp)
                  (kseq (iput env ip)
                  (kseq (commit_trans env) (kret 0)))))))))))))))))"

function isdirempty_from :: "'x con_st_scheme env \<Rightarrow> nat \<Rightarrow> nat \<Rightarrow> ('x con_st_scheme, bool) kern" where
  "isdirempty_from env dp off = kbind (inode_of dp) (\<lambda>q.
     if off < unat (i_size q)
     then kbind (readi env dp VarDst (of_nat off) (of_nat DIRENT_SIZE)) (\<lambda>(r, bs).
        if r \<noteq> int DIRENT_SIZE then panic ''isdirempty: readi''
        else if de_inum (dirent_of bs) \<noteq> 0 then kret False
        else isdirempty_from env dp (off + DIRENT_SIZE))
     else kret True)"
  by pat_completeness auto
termination
proof (relation "measure (\<lambda>(_, _, off). 2 ^ 32 - off)")
  fix env :: "'x con_st_scheme env" and dp off q rb r bs
  assume "off < unat (i_size (q :: inode))"
  then show "((env, dp, off + DIRENT_SIZE), env, dp, off) \<in> measure (\<lambda>(_, _, off). 2 ^ 32 - off)"
    using unat_u32_less [of "i_size q"] by (simp add: DIRENT_SIZE_def)
qed simp

declare isdirempty_from.simps [simp del]

definition isdirempty :: "'x con_st_scheme env \<Rightarrow> nat \<Rightarrow> ('x con_st_scheme, bool) kern" where
  "isdirempty env dp = isdirempty_from env dp (2 * DIRENT_SIZE)"

definition unlink_bad :: "'x file_st_scheme env \<Rightarrow> nat \<Rightarrow> ('x file_st_scheme, int) kern" where
  "unlink_bad env dp = kseq (iunlockput env dp) (kseq (commit_trans env) (kret (-1)))"

text \<open>Removing the entry at \<open>off\<close> of \<open>dp\<close>, which refers to the locked inode \<open>ip\<close>.\<close>

definition unlink_entry :: "'x file_st_scheme env \<Rightarrow> nat \<Rightarrow> nat \<Rightarrow> u32 \<Rightarrow> ('x file_st_scheme, int) kern" where
  "unlink_entry env dp ip off =
     kbind (writei env dp (VarSrc (replicate DIRENT_SIZE 0)) off (of_nat DIRENT_SIZE)) (\<lambda>r.
     if r \<noteq> int DIRENT_SIZE then panic ''unlink: writei''
     else kbind (inode_of ip) (\<lambda>q.
       kseq (kwhen (i_type q = T_DIR) (kseq (upd_inode dp (\<lambda>q. q\<lparr>i_nlink := i_nlink q - 1\<rparr>)) (iupdate env dp)))
      (kseq (iunlockput env dp)
      (kseq (upd_inode ip (\<lambda>q. q\<lparr>i_nlink := i_nlink q - 1\<rparr>))
      (kseq (iupdate env ip)
      (kseq (iunlockput env ip)
      (kseq (commit_trans env) (kret 0))))))))"

definition sys_unlink :: "'x file_st_scheme env \<Rightarrow> ('x file_st_scheme, int) kern" where
  "sys_unlink env = kbind (argstr 0) (\<lambda>a. case a of None \<Rightarrow> kret (-1) | Some (_, path) \<Rightarrow>
     kbind (nameiparent env path) (\<lambda>par. case par of None \<Rightarrow> kret (-1) | Some (dp, name) \<Rightarrow>
     kseq (begin_trans env)
    (kseq (ilock env dp)
    (if namecmp name (bytes_of ''.'') = 0 \<or> namecmp name (bytes_of ''..'') = 0 then unlink_bad env dp
     else kbind (dirlookup env dp name) (\<lambda>found. case found of
         None \<Rightarrow> unlink_bad env dp
       | Some (ip, off) \<Rightarrow>
           kseq (ilock env ip)
          (kbind (inode_of ip) (\<lambda>q.
           if sint (i_nlink q) < 1 then panic ''unlink: nlink < 1''
           else kbind (if i_type q = T_DIR then isdirempty env ip else kret True) (\<lambda>ok.
             if \<not> ok then kseq (iunlockput env ip) (unlink_bad env dp)
             else unlink_entry env dp ip off))))))))"

subsection \<open>Creating and opening\<close>

definition create_new :: "'x file_st_scheme env \<Rightarrow> nat \<Rightarrow> u8 list \<Rightarrow> u16 \<Rightarrow> u16 \<Rightarrow> u16 \<Rightarrow> ('x file_st_scheme, nat) kern" where
  "create_new env dp name typ major minor = kbind (inode_of dp) (\<lambda>dq.
     kbind (ialloc env (i_dev dq) typ) (\<lambda>ip.
     kseq (ilock env ip)
    (kseq (upd_inode ip (\<lambda>q. q\<lparr>i_major := major, i_minor := minor, i_nlink := 1\<rparr>))
    (kseq (iupdate env ip)
    (kseq (kwhen (typ = T_DIR)
       (kseq (upd_inode dp (\<lambda>q. q\<lparr>i_nlink := i_nlink q + 1\<rparr>))
       (kseq (iupdate env dp)
       (kbind (inode_of ip) (\<lambda>iq. kbind (inode_of dp) (\<lambda>dq.
        kbind (dirlink env ip (bytes_of ''.'') (i_inum iq)) (\<lambda>r.
        if r < 0 then panic ''create dots''
        else kbind (dirlink env ip (bytes_of ''..'') (i_inum dq)) (\<lambda>r.
          kwhen (r < 0) (panic ''create dots'')))))))))
    (kbind (inode_of ip) (\<lambda>iq.
     kbind (dirlink env dp name (i_inum iq)) (\<lambda>r.
     if r < 0 then panic ''create: dirlink''
     else kseq (iunlockput env dp) (kret ip)))))))))"

definition create :: "'x file_st_scheme env \<Rightarrow> u8 list \<Rightarrow> u16 \<Rightarrow> u16 \<Rightarrow> u16 \<Rightarrow> ('x file_st_scheme, nat option) kern" where
  "create env path typ major minor = kbind (nameiparent env path) (\<lambda>par. case par of
       None \<Rightarrow> kret None
     | Some (dp, name) \<Rightarrow>
         kseq (ilock env dp)
        (kbind (dirlookup env dp name) (\<lambda>found. case found of
            Some (ip, _) \<Rightarrow>
              kseq (iunlockput env dp)
             (kseq (ilock env ip)
             (kbind (inode_of ip) (\<lambda>q.
              if typ = T_FILE \<and> i_type q = T_FILE then kret (Some ip)
              else kseq (iunlockput env ip) (kret None))))
          | None \<Rightarrow> kbind (create_new env dp name typ major minor) (\<lambda>ip. kret (Some ip)))))"

text \<open>The locked inode that \<open>sys_open\<close> opens.\<close>

definition open_inode :: "'x file_st_scheme env \<Rightarrow> u8 list \<Rightarrow> u32 \<Rightarrow> ('x file_st_scheme, nat option) kern" where
  "open_inode env path omode =
     (if omode AND O_CREATE \<noteq> 0
      then kseq (begin_trans env)
          (kbind (create env path T_FILE 0 0) (\<lambda>ip.
           kseq (commit_trans env) (kret ip)))
      else kbind (namei env path) (\<lambda>found. case found of
          None \<Rightarrow> kret None
        | Some ip \<Rightarrow>
            kseq (ilock env ip)
           (kbind (inode_of ip) (\<lambda>q.
            if i_type q = T_DIR \<and> omode \<noteq> O_RDONLY then kseq (iunlockput env ip) (kret None)
            else kret (Some ip)))))"

definition sys_open :: "'x file_st_scheme env \<Rightarrow> ('x file_st_scheme, int) kern" where
  "sys_open env = kbind (argstr 0) (\<lambda>a. case a of None \<Rightarrow> kret (-1) | Some (_, path) \<Rightarrow>
     kbind (argint 1) (\<lambda>m. case m of None \<Rightarrow> kret (-1) | Some omode \<Rightarrow>
     kbind (open_inode env path omode) (\<lambda>found. case found of None \<Rightarrow> kret (-1) | Some ip \<Rightarrow>
     kbind filealloc (\<lambda>f. case f of
         None \<Rightarrow> kseq (iunlockput env ip) (kret (-1))
       | Some f \<Rightarrow> kbind (fdalloc f) (\<lambda>fd. case fd of
             None \<Rightarrow> kseq (fileclose env f) (kseq (iunlockput env ip) (kret (-1)))
           | Some fd \<Rightarrow>
               kseq (iunlock ip)
              (kseq (upd_file f (\<lambda>q. q\<lparr>f_type := FD_INODE, f_ip := ip, f_off := 0,
                  f_readable := omode AND O_WRONLY = 0,
                  f_writable := omode AND O_WRONLY \<noteq> 0 \<or> omode AND O_RDWR \<noteq> 0\<rparr>))
               (kret (int fd))))))))"

definition sys_mkdir :: "'x file_st_scheme env \<Rightarrow> ('x file_st_scheme, int) kern" where
  "sys_mkdir env = kseq (begin_trans env)
     (kbind (argstr 0) (\<lambda>a.
      kbind (case a of None \<Rightarrow> kret None | Some (_, path) \<Rightarrow> create env path T_DIR 0 0) (\<lambda>ip. case ip of
          None \<Rightarrow> kseq (commit_trans env) (kret (-1))
        | Some ip \<Rightarrow> kseq (iunlockput env ip) (kseq (commit_trans env) (kret 0)))))"

definition sys_mknod :: "'x file_st_scheme env \<Rightarrow> ('x file_st_scheme, int) kern" where
  "sys_mknod env = kseq (begin_trans env)
     (kbind (argstr 0) (\<lambda>a.
      kbind (case a of None \<Rightarrow> kret None | Some (_, path) \<Rightarrow>
        kbind (argint 1) (\<lambda>major. case major of None \<Rightarrow> kret None | Some major \<Rightarrow>
        kbind (argint 2) (\<lambda>minor. case minor of None \<Rightarrow> kret None | Some minor \<Rightarrow>
          create env path T_DEV (ucast major) (ucast minor)))) (\<lambda>ip. case ip of
          None \<Rightarrow> kseq (commit_trans env) (kret (-1))
        | Some ip \<Rightarrow> kseq (iunlockput env ip) (kseq (commit_trans env) (kret 0)))))"

definition sys_chdir :: "'x file_st_scheme env \<Rightarrow> ('x file_st_scheme, int) kern" where
  "sys_chdir env = kbind (argstr 0) (\<lambda>a. case a of None \<Rightarrow> kret (-1) | Some (_, path) \<Rightarrow>
     kbind (namei env path) (\<lambda>found. case found of None \<Rightarrow> kret (-1) | Some ip \<Rightarrow>
     kseq (ilock env ip)
    (kbind (inode_of ip) (\<lambda>q.
     if i_type q \<noteq> T_DIR then kseq (iunlockput env ip) (kret (-1))
     else kseq (iunlock ip)
         (kbind myproc (\<lambda>c. kbind (kget (\<lambda>s. p_cwd (ptable s c))) (\<lambda>cwd.
          kseq (case cwd of None \<Rightarrow> fault ''iput: null pointer'' | Some old \<Rightarrow> iput env old)
         (kseq (upd_proc c (\<lambda>p. p\<lparr>p_cwd := Some ip\<rparr>)) (kret 0)))))))))"

text \<open>The arguments of \<open>exec\<close>, from entry \<open>i\<close> of the array at \<open>uargv\<close>; at most \<open>MAXARG\<close> entries.\<close>

primrec exec_argv :: "u32 \<Rightarrow> nat \<Rightarrow> nat \<Rightarrow> ('x proc_st_scheme, (u32 \<times> u8 list) list option) kern" where
  "exec_argv uargv i 0 = kret None"
| "exec_argv uargv i (Suc n) = kbind (fetchint (uargv + 4 * of_nat i)) (\<lambda>a. case a of None \<Rightarrow> kret None | Some uarg \<Rightarrow>
     if uarg = 0 then kret (Some [])
     else kbind (fetchstr uarg) (\<lambda>b. case b of None \<Rightarrow> kret None | Some arg \<Rightarrow>
       kbind (exec_argv uargv (i + 1) n) (\<lambda>rest. kret (map_option (\<lambda>args. arg # args) rest))))"

definition sys_exec :: "'x file_st_scheme env \<Rightarrow> ('x file_st_scheme, int) kern" where
  "sys_exec env = kbind (argstr 0) (\<lambda>a. case a of None \<Rightarrow> kret (-1) | Some (_, path) \<Rightarrow>
     kbind (argint 1) (\<lambda>b. case b of None \<Rightarrow> kret (-1) | Some uargv \<Rightarrow>
     kbind (exec_argv uargv 0 MAXARG) (\<lambda>argv. case argv of None \<Rightarrow> kret (-1) | Some argv \<Rightarrow>
     exec env path argv)))"

definition sys_pipe :: "'x file_st_scheme env \<Rightarrow> ('x file_st_scheme, int) kern" where
  "sys_pipe env = kbind (argptr 0 8) (\<lambda>a. case a of None \<Rightarrow> kret (-1) | Some fd \<Rightarrow>
     kbind (pipealloc env) (\<lambda>p. case p of None \<Rightarrow> kret (-1) | Some (rfile, wfile) \<Rightarrow>
     kbind (fdalloc rfile) (\<lambda>fd0. case fd0 of
         None \<Rightarrow> kseq (fileclose env rfile) (kseq (fileclose env wfile) (kret (-1)))
       | Some fd0 \<Rightarrow> kbind (fdalloc wfile) (\<lambda>fd1. case fd1 of
             None \<Rightarrow> kseq (clear_fd fd0) (kseq (fileclose env rfile) (kseq (fileclose env wfile) (kret (-1))))
           | Some fd1 \<Rightarrow>
               kseq (vstore32 fd (of_nat fd0)) (kseq (vstore32 (fd + 4) (of_nat fd1)) (kret 0))))))"

subsection \<open>Dispatch\<close>

text \<open>The table \<open>syscalls\<close>; the numbers are those of \<^verbatim>\<open>src/syscall.h\<close>.\<close>

definition syscalls :: "'x file_st_scheme env \<Rightarrow> ('x file_st_scheme, int) kern list" where
  "syscalls env =
    [sys_fork, sys_exit env, sys_wait env, sys_pipe env, sys_read env, sys_kill, sys_exec env,
     sys_fstat env, sys_chdir env, sys_dup, sys_getpid, sys_sbrk, sys_sleep env,
     kbind sys_uptime (\<lambda>t. kret (sint t)), sys_open env, sys_write env, sys_mknod env, sys_unlink env,
     sys_link env, sys_mkdir env, sys_close env,
     kbind sys_start_burst (\<lambda>t. kret (sint t)), kbind sys_end_burst (\<lambda>t. kret (sint t)), sys_print_bursts,
     sys_thread_create, sys_thread_join env, sys_mtx_create, sys_mtx_lock env, sys_mtx_unlock]"

definition set_eax :: "u32 \<Rightarrow> ('x proc_st_scheme, unit) kern" where
  "set_eax v = kbind myproc (\<lambda>p. upd_proc p (\<lambda>q. q\<lparr>p_tf := (p_tf q)\<lparr>tf_eax := v\<rparr>\<rparr>))"

definition syscall :: "'x file_st_scheme env \<Rightarrow> ('x file_st_scheme, unit) kern" where
  "syscall env = kbind proc_tf (\<lambda>tf. let num = sint (tf_eax tf) in
     if num > 0 \<and> num < int (length (syscalls env)) + 1
     then kseq sys_end_burst
         (kbind (syscalls env ! nat (num - 1)) (\<lambda>r.
          kseq (set_eax (of_int r))
          (kseq sys_start_burst (kret ()))))
     else kbind myproc (\<lambda>p. kbind (kget (\<lambda>s. ptable s p)) (\<lambda>q.
       kseq (cprintf (''%d %s: unknown sys call %d'' @ newline)
               [PInt (of_int (p_pid q)), PStr (Some (map (\<lambda>c. char_of (unat c)) (p_name q))), PInt (of_int num)])
        (set_eax (-1)))))"

subsection \<open>Traps\<close>


text \<open>
  What the devices hold when a trap comes: the number of the CPU, \<open>cr2\<close>, the bytes of the
  keyboard controller and the characters of the serial port. The acknowledgement to the
  interrupt controller has no effect on the modelled state.
\<close>

record devices =
  d_cpu :: u32
  d_cr2 :: u32
  d_kbd :: "u8 list"
  d_uart :: "u32 list"

definition user_mode :: "trapframe \<Rightarrow> bool" where
  "user_mode tf \<longleftrightarrow> tf_cs tf AND 3 = DPL_USER"

text \<open>\<open>exit\<close> does not return, so what follows it is not reached.\<close>

definition exit_if_killed :: "'x file_st_scheme env \<Rightarrow> trapframe \<Rightarrow> ('x file_st_scheme, unit) kern" where
  "exit_if_killed env tf = kbind (kget (\<lambda>s. case curproc s of None \<Rightarrow> False | Some p \<Rightarrow> p_killed (ptable s p))) (\<lambda>k.
     kwhen (k \<and> user_mode tf) (exit env))"

definition trap_other :: "devices \<Rightarrow> trapframe \<Rightarrow> ('x proc_st_scheme, unit) kern" where
  "trap_other dv tf = kbind (kget curproc) (\<lambda>c. case c of
       Some p \<Rightarrow>
         if tf_cs tf AND 3 \<noteq> 0
         then kbind (kget (\<lambda>s. ptable s p)) (\<lambda>q.
           kseq (cprintf (''pid %d %s: trap %d err %d on cpu %d eip 0x%x addr 0x%x--kill proc'' @ newline)
               [PInt (of_int (p_pid q)), PStr (Some (map (\<lambda>c. char_of (unat c)) (p_name q))), PInt (tf_trapno tf),
                PInt (tf_err tf), PInt (d_cpu dv), PInt (tf_eip tf), PInt (d_cr2 dv)])
            (upd_proc p (\<lambda>q. q\<lparr>p_killed := True\<rparr>)))
         else kseq (cprintf (''unexpected trap %d from cpu %d eip %x (cr2=0x%x)'' @ newline)
               [PInt (tf_trapno tf), PInt (d_cpu dv), PInt (tf_eip tf), PInt (d_cr2 dv)])
             (panic ''trap'')
     | None \<Rightarrow>
         kseq (cprintf (''unexpected trap %d from cpu %d eip %x (cr2=0x%x)'' @ newline)
               [PInt (tf_trapno tf), PInt (d_cpu dv), PInt (tf_eip tf), PInt (d_cr2 dv)])
             (panic ''trap''))"

definition trap_timer :: "devices \<Rightarrow> ('x proc_st_scheme, unit) kern" where
  "trap_timer dv = kwhen (d_cpu dv = 0)
     (kseq (acquire TicksLock)
     (kseq (kmod (\<lambda>s. s\<lparr>ticks := ticks s + 1\<rparr>))
     (kseq (wakeup ChanTicks) (release TicksLock))))"

definition trap_dispatch :: "devices \<Rightarrow> trapframe \<Rightarrow> ('x con_st_scheme, unit) kern" where
  "trap_dispatch dv tf = (let n = tf_trapno tf in
     if n = T_IRQ0 + IRQ_TIMER then trap_timer dv
     else if n = T_IRQ0 + IRQ_IDE then kret ()
     else if n = T_IRQ0 + IRQ_IDE + 1 then kret ()
     else if n = T_IRQ0 + IRQ_KBD then kbdintr (d_kbd dv)
     else if n = T_IRQ0 + IRQ_COM1 then consoleintr (d_uart dv)
     else if n = T_IRQ0 + 7 \<or> n = T_IRQ0 + IRQ_SPURIOUS
     then cprintf (''cpu%d: spurious interrupt at %x:%x'' @ newline)
            [PInt (d_cpu dv), PInt (ucast (tf_cs tf)), PInt (tf_eip tf)]
     else trap_other dv tf)"

definition trap :: "'x file_st_scheme env \<Rightarrow> devices \<Rightarrow> trapframe \<Rightarrow> ('x file_st_scheme, unit) kern" where
  "trap env dv tf =
     (if tf_trapno tf = T_SYSCALL
      then kbind myproc (\<lambda>p.
        kbind killed (\<lambda>k. kseq (kwhen k (exit env))
       (kseq (upd_proc p (\<lambda>q. q\<lparr>p_tf := tf\<rparr>))
       (kseq (syscall env)
       (kbind killed (\<lambda>k. kwhen k (exit env)))))))
      else
        kseq (trap_dispatch dv tf)
       (kseq (exit_if_killed env tf)
       (kseq (kbind (kget (\<lambda>s. case curproc s of None \<Rightarrow> False | Some p \<Rightarrow> p_state (ptable s p) = RUNNING)) (\<lambda>run.
           kwhen (run \<and> tf_trapno tf = T_IRQ0 + IRQ_TIMER) (yield env)))
        (exit_if_killed env tf))))"

end
