(* ===== verification/Dir_Spec.thy ===== *)
theory Dir_Spec
  imports Sysfile
begin

section \<open>Properties of inodes, names and paths\<close>

text \<open>
  The codings of inodes and directory entries in disk blocks are read back as they were
  written, and \<open>skipelem\<close> splits a path the way its comment says.
\<close>

subsection \<open>On-disk inodes\<close>

lemma blocks_apart:
  fixes a b n :: nat
  assumes "a \<noteq> b"
  shows "a * n + n \<le> b * n \<or> b * n + n \<le> a * n"
proof (cases "a < b")
  case True
  then have "Suc a * n \<le> b * n" by (intro mult_le_mono1) simp
  then show ?thesis by simp
next
  case False
  with assms have "Suc b * n \<le> a * n" by (intro mult_le_mono1) simp
  then show ?thesis by simp
qed

lemma write_addrs_upto:
  "rd32 (foldl (\<lambda>d i. wr32 d (k + 4 * i) (as ! i)) d [0..<n]) (k + 4 * i) = (if i < n then as ! i else rd32 d (k + 4 * i))"
proof (induction n)
  case (Suc n)
  show ?case
  proof (cases "i = n")
    case False
    then have "k + 4 * i + 4 \<le> k + 4 * n \<or> k + 4 * n + 4 \<le> k + 4 * i" by auto
    with Suc False show ?thesis by (simp add: rd32_wr32_other less_Suc_eq)
  qed (simp add: Suc)
qed simp

lemma write_addrs_outside:
  "j < k \<or> k + 4 * n \<le> j \<Longrightarrow> foldl (\<lambda>d i. wr32 d (k + 4 * i) (as ! i)) d [0..<n] j = d j"
  by (induction n) (auto simp: wr32_outside)

lemma rd16_cong:
  assumes "\<And>i. i < 2 \<Longrightarrow> d (k + i) = d' (k + i)"
  shows "rd16 d k = rd16 d' k"
  using assms [of 0] assms [of 1] by (simp add: rd16_def)

lemma rd32_cong:
  assumes "\<And>i. i < 4 \<Longrightarrow> d (k + i) = d' (k + i)"
  shows "rd32 d k = rd32 d' k"
  using assms [of 0] assms [of 1] assms [of 2] assms [of 3] by (simp add: rd32_def)

lemma write_dinode_outside: "j < k \<or> k + DINODE_SIZE \<le> j \<Longrightarrow> write_dinode d k ip j = d j"
  by (auto simp: write_dinode_def write_addrs_def write_addrs_outside wr32_outside wr16_outside
      DINODE_SIZE_def NADDRS_def NDIRECT_def NUM_INDIRECT_def NUM_DOUBLE_INDIRECT_def)

lemma read_dinode_cong:
  assumes "\<And>m. m < DINODE_SIZE \<Longrightarrow> d (k + m) = d' (k + m)"
  shows "read_dinode d k = read_dinode d' k"
proof -
  have s: "DINODE_SIZE = 64" "NADDRS = 13"
    by (simp_all add: DINODE_SIZE_def NADDRS_def NDIRECT_def NUM_INDIRECT_def NUM_DOUBLE_INDIRECT_def)
  have r16: "rd16 d (k + n) = rd16 d' (k + n)" if "n + 2 \<le> 64" for n
    by (rule rd16_cong) (use assms that in \<open>simp add: s add.assoc\<close>)
  have r32: "rd32 d (k + n) = rd32 d' (k + n)" if "n + 4 \<le> 64" for n
    by (rule rd32_cong) (use assms that in \<open>simp add: s add.assoc\<close>)
  have "map (\<lambda>i. rd32 d (k + 12 + 4 * i)) [0..<NADDRS] = map (\<lambda>i. rd32 d' (k + 12 + 4 * i)) [0..<NADDRS]"
    using r32 by (simp add: s add.assoc)
  then show ?thesis
    using r16 [of 0] r16 [of 2] r16 [of 4] r16 [of 6] r32 [of 8] by (simp add: read_dinode_def)
qed

text \<open>
  C24: inodes survive a round trip through their block: reading back what \<open>iupdate\<close> writes
  gives the type, device numbers, link count, size and all block addresses of the inode, and
  every other inode of the block is unchanged.
\<close>

theorem dinode_roundtrip:
  assumes "length (i_addrs ip) = NADDRS"
  shows "load_dinode (read_dinode (write_dinode d (dinode_off i) ip) (dinode_off i)) ip = ip
    \<and> (\<forall>j. dinode_off j = dinode_off i
         \<or> read_dinode (write_dinode d (dinode_off i) ip) (dinode_off j) = read_dinode d (dinode_off j))"
proof
  let ?k = "dinode_off i"
  have f: "rd16 (write_addrs e (?k + 12) as) (?k + n) = rd16 e (?k + n)" if "n + 2 \<le> 12" for e as n
    by (rule rd16_cong) (use that in \<open>simp add: write_addrs_def write_addrs_outside\<close>)
  have g: "rd32 (write_addrs e (?k + 12) as) (?k + 8) = rd32 e (?k + 8)" for e as
    by (rule rd32_cong) (simp add: write_addrs_def write_addrs_outside)
  have a: "map (\<lambda>m. rd32 (write_addrs e (?k + 12) (i_addrs ip)) (?k + 12 + 4 * m)) [0..<NADDRS] = i_addrs ip" for e
    using assms by (auto simp: write_addrs_def write_addrs_upto intro: nth_equalityI)
  show "load_dinode (read_dinode (write_dinode d ?k ip) ?k) ip = ip"
    using f [of 0] f [of 2] by (simp add: load_dinode_def read_dinode_def write_dinode_def a f g rd16_wr16_other rd16_wr32_other rd32_wr16_other)
  show "\<forall>j. dinode_off j = ?k \<or> read_dinode (write_dinode d ?k ip) (dinode_off j) = read_dinode d (dinode_off j)"
  proof
    fix j
    show "dinode_off j = ?k \<or> read_dinode (write_dinode d ?k ip) (dinode_off j) = read_dinode d (dinode_off j)"
    proof (cases "unat i mod IPB = unat j mod IPB")
      case False
      then have "dinode_off j + DINODE_SIZE \<le> ?k \<or> ?k + DINODE_SIZE \<le> dinode_off j"
        unfolding dinode_off_def using blocks_apart [of "unat i mod IPB" "unat j mod IPB" DINODE_SIZE] by blast
      then have "write_dinode d ?k ip (dinode_off j + m) = d (dinode_off j + m)" if "m < DINODE_SIZE" for m
        using that by (intro write_dinode_outside) auto
      then have "read_dinode (write_dinode d ?k ip) (dinode_off j) = read_dinode d (dinode_off j)"
        by (rule read_dinode_cong)
      then show ?thesis by simp
    qed (simp add: dinode_off_def)
  qed
qed


theorem dinode_roundtrip_witness:
  "read_dinode (write_dinode zero_block (dinode_off 5)
      \<lparr>i_dev = 1, i_inum = 5, i_ref = 1, i_busy = True, i_valid = True, i_type = T_FILE, i_major = 0, i_minor = 0,
       i_nlink = 1, i_size = 700, i_addrs = 41 # 42 # replicate 11 0\<rparr>) (dinode_off 5)
   = \<lparr>di_type = T_FILE, di_major = 0, di_minor = 0, di_nlink = 1, di_size = 700, di_addrs = 41 # 42 # replicate 11 0\<rparr>"
proof -
  let ?ip = "\<lparr>i_dev = 1, i_inum = 5, i_ref = 1, i_busy = True, i_valid = True, i_type = T_FILE, i_major = 0, i_minor = 0,
       i_nlink = 1, i_size = 700, i_addrs = 41 # 42 # replicate 11 0\<rparr>"
  have "length (i_addrs ?ip) = NADDRS" by (simp add: NADDRS_def NDIRECT_def NUM_INDIRECT_def NUM_DOUBLE_INDIRECT_def)
  then have "load_dinode (read_dinode (write_dinode zero_block (dinode_off 5) ?ip) (dinode_off 5)) ?ip = ?ip"
    using dinode_roundtrip [of ?ip zero_block 5] by blast
  then show ?thesis
    by (cases "read_dinode (write_dinode zero_block (dinode_off 5) ?ip) (dinode_off 5)") (simp add: load_dinode_def)
qed

subsection \<open>Names\<close>

text \<open>The part of a name that counts: at most \<open>DIRSIZ\<close> bytes, up to the first zero byte.\<close>

definition name_key :: "u8 list \<Rightarrow> u8 list" where
  "name_key nm = takeWhile (\<lambda>c. c \<noteq> 0) (take DIRSIZ nm)"

lemma strncmp_name_zero:
  "strncmp_name n p q = 0 \<longleftrightarrow> takeWhile (\<lambda>c. c \<noteq> 0) (take n p) = takeWhile (\<lambda>c. c \<noteq> 0) (take n q)"
proof (induction n arbitrary: p q)
  case (Suc n)
  have "uint a - uint b = 0 \<longleftrightarrow> a = b" for a b :: u8 by simp
  with Suc show ?case by (cases p; cases q; simp add: hd0_def)
qed simp

lemma takeWhile_take: "takeWhile P (take n xs) = take n (takeWhile P xs)"
  by (induction xs arbitrary: n) (auto simp: take_Cons split: nat.split)

lemma takeWhile_zeros: "\<forall>x \<in> set xs. x \<noteq> (0 :: u8) \<Longrightarrow> takeWhile (\<lambda>c. c \<noteq> 0) (xs @ replicate n 0) = xs"
  by (induction xs) (auto simp: takeWhile_eq_Nil_iff)

lemma name_key_strncpy: "name_key (strncpy_name nm) = name_key nm"
proof -
  let ?k = "takeWhile (\<lambda>c. c \<noteq> 0) nm"
  have "takeWhile (\<lambda>c. c \<noteq> 0) (take DIRSIZ ?k @ replicate n 0) = take DIRSIZ ?k" for n
    by (rule takeWhile_zeros) (auto dest!: in_set_takeD set_takeWhileD)
  then show ?thesis by (simp add: name_key_def strncpy_name_def takeWhile_take [of _ _ nm])
qed

lemma length_strncpy_name: "length (strncpy_name nm) = DIRSIZ"
  by (simp add: strncpy_name_def)


subsection \<open>Paths\<close>

text \<open>
  C26: \<open>skipelem\<close>: it skips the leading slashes, takes the first element of the path (cut to
  14 bytes) and answers the rest without its leading slashes; there is no element exactly when
  the path has nothing but slashes.
\<close>

theorem skipelem_splits:
  assumes "e \<noteq> []" "slash \<notin> set e" "rest = [] \<or> hd rest = slash"
  shows "skipelem (replicate k slash @ e @ rest) = Some (take DIRSIZ e, dropWhile (\<lambda>c. c = slash) rest)
    \<and> skipelem (replicate k slash) = None"
proof -
  have d: "dropWhile (\<lambda>c. c = slash) (replicate k slash @ zs) = dropWhile (\<lambda>c. c = slash) zs" for zs
    by (induction k) auto
  have e: "dropWhile (\<lambda>c. c = slash) (e @ rest) = e @ rest" using assms(1,2) by (cases e) auto
  have t: "takeWhile (\<lambda>c. c \<noteq> slash) (e @ rest) = e" "dropWhile (\<lambda>c. c \<noteq> slash) (e @ rest) = rest"
    using assms(2,3) by (induction e) (cases rest; auto)+
  show ?thesis using assms(1) d [of "[]"] by (simp add: skipelem_def d e t)
qed

theorem skipelem_splits_witness:
  "skipelem (bytes_of ''//usr/bin/sh'') = Some (bytes_of ''usr'', bytes_of ''bin/sh'')"
  using skipelem_splits [of "bytes_of ''usr''" "bytes_of ''/bin/sh''" "Suc (Suc 0)"]
  by (simp add: bytes_of_def slash_def DIRSIZ_def)

end
