(* ===== verification/Trap_Spec.thy ===== *)
theory Trap_Spec
  imports Sysfile Ptable
begin

section \<open>Properties of traps and process system calls\<close>

text \<open>
  A sample kernel state for witnesses, with a process that has one page of user memory, and
  the properties of \<open>trap\<close>, the burst bookkeeping, \<open>sys_sleep\<close> and the user-level locks.
\<close>

definition idle_devices :: devices where
  "idle_devices = \<lparr>d_cpu = 0, d_cr2 = 0, d_kbd = [], d_uart = []\<rparr>"

definition free_inode :: inode where
  "free_inode = \<lparr>i_dev = 0, i_inum = 0, i_ref = 0, i_busy = False, i_valid = False, i_type = 0, i_major = 0,
     i_minor = 0, i_nlink = 0, i_size = 0, i_addrs = replicate NADDRS 0\<rparr>"

definition free_buf :: buf where
  "free_buf = \<lparr>b_busy = False, b_valid = False, b_dirty = False, b_dev = -1, b_sector = 0, b_data = zero_block\<rparr>"

definition free_file :: kfile where
  "free_file = \<lparr>f_type = FD_NONE, f_ref = 0, f_readable = False, f_writable = False, f_pipe = 0, f_ip = 0, f_off = 0\<rparr>"

definition free_pipe :: pipe where
  "free_pipe = \<lparr>pi_data = (\<lambda>_. 0), pi_nread = 0, pi_nwrite = 0, pi_readopen = False, pi_writeopen = False\<rparr>"

text \<open>A page directory at \<open>0x80500000\<close> that maps user page 0 to the page at \<open>0x80700000\<close>.\<close>

definition kernel_mem :: memory where
  "kernel_mem = (\<lambda>_. 0)(0x80500000 := 7, 0x80500002 := 0x60, 0x80600000 := 7, 0x80600002 := 0x70,
     0x80700004 := 3)"

definition kernel_st :: file_st where
  "kernel_st = \<lparr>held = [], cons_locking = False, panicked = False, uart_on = False, serial_out = [],
     crt = (\<lambda>_. 0), crt_pos = 0, k_mem = kernel_mem, k_freelist = 0, k_use_lock = True,
     k_end = 0x80200000, vm_data = 0x8010a000, kpgdir = 0x80400000, cr3 = 0x500000, ts_esp0 = 0, ts_ss0 = 0,
     ptable = (\<lambda>_. zero_proc)
       (0 := zero_proc\<lparr>p_state := SLEEPING, p_chan := Some (ChanProc 0), p_pid := 1, p_pgdir := 0x80500000\<rparr>,
        1 := zero_proc\<lparr>p_state := RUNNING, p_pid := 2, p_parent := Some 0, p_pgdir := 0x80500000,
               p_sz := 4096, p_cwd := Some 0\<rparr>,
        2 := zero_proc\<lparr>p_state := ZOMBIE, p_pid := 3, p_parent := Some 1, p_pgdir := 0x80600000\<rparr>),
     curproc = Some 1, initproc = Some 0, nextpid = 4, ticks = 7,
     thread_locks = replicate MAX_NUM_LOCKS 0, nextLockId = 1, fork_first = False, wakeups = 5,
     bufs = (\<lambda>_. free_buf), mru = [0..<NBUF], disk = (\<lambda>_. zero_block), disksize = 1024, disk_writes = [],
     log_start = 1000, log_size = 10, log_busy = False, log_dev = 1, lh_n = 0, lh_sector = replicate LOGSIZE 0,
     inodes = (\<lambda>_. free_inode)(0 := free_inode\<lparr>i_dev := 1, i_inum := 1, i_ref := 3, i_valid := True,
        i_type := T_DIR, i_nlink := 1\<rparr>),
     devsw = (\<lambda>_. None)(CONSOLE := Some ConsoleDev),
     in_buf = (\<lambda>_. 0), in_r = 0, in_w = 0, in_e = 0, kbd_shift = 0,
     files = (\<lambda>_. free_file), pipes = (\<lambda>_. free_pipe)\<rparr>"

lemma kernel_st_simps [simp]:
  "held kernel_st = []" "k_mem kernel_st = kernel_mem" "cr3 kernel_st = 0x500000" "curproc kernel_st = Some 1" "initproc kernel_st = Some 0" "ticks kernel_st = 7"
  "nextLockId kernel_st = 1" "thread_locks kernel_st = replicate MAX_NUM_LOCKS 0" "wakeups kernel_st = 5"
  by (simp_all add: kernel_st_def)

lemma kernel_ptable [simp]:
  "ptable kernel_st 1 = zero_proc\<lparr>p_state := RUNNING, p_pid := 2, p_parent := Some 0, p_pgdir := 0x80500000,
     p_sz := 4096, p_cwd := Some 0\<rparr>"
  "ptable kernel_st (Suc 0) = zero_proc\<lparr>p_state := RUNNING, p_pid := 2, p_parent := Some 0, p_pgdir := 0x80500000,
     p_sz := 4096, p_cwd := Some 0\<rparr>"
  by (simp_all add: kernel_st_def)

lemma zero_proc_simps [simp]: "\<not> p_killed zero_proc" "p_state zero_proc = UNUSED" "p_tf zero_proc = zero_tf"
  by (simp_all add: zero_proc_def)

lemma user_page:
  assumes "k_mem s = kernel_mem" "cr3 s = 0x500000" "va < 4096"
  shows "va_read s va = Some (0x80700000 + va)"
proof -
  have v: "unat va < 4096" using assms(3) by (simp add: word_less_nat_alt)
  have d: "drop_bit 22 va = 0" "drop_bit 12 va = 0"
    using v by (simp_all add: word_unat_eq_iff drop_bit_eq_div unat_div)
  then have z: "PGROUNDDOWN va = 0" by (simp add: PGROUNDDOWN_shift)
  show ?thesis
    using assms(3) by (simp add: va_read_def user_pte_def pt_lookup_def assms(1,2) z d PDX_def PTX_def KERNBASE_def p2v_def kernel_mem_def
      ld32_def le32_def PTE_P_def PTE_ADDR_def Let_def word_le_nat_alt word_less_nat_alt PGSIZE_def)
qed

definition user_tf :: "u32 \<Rightarrow> trapframe" where
  "user_tf n = zero_trapframe\<lparr>tf_trapno := n, tf_cs := 35\<rparr>"

subsection \<open>Killed processes\<close>

lemma exit_no_Ret: "exit env s \<noteq> Ret x t"
  by (auto simp: exit_def kbind_eq_Ret kseq_eq_Ret split: if_splits)

lemma exit_if_killed_Ret:
  assumes "exit_if_killed env tf s = Ret x t"
  shows "t = s \<and> (user_mode tf \<longrightarrow> (\<forall>p. curproc s = Some p \<longrightarrow> \<not> p_killed (ptable s p)))"
  using assms by (auto simp: exit_if_killed_def kwhen_eq_Ret exit_no_Ret split: if_splits option.splits)

lemma killed_eq_Ret: "killed s = Ret k t \<longleftrightarrow> t = s \<and> (\<exists>p. curproc s = Some p \<and> k = p_killed (ptable s p))"
  by (auto simp: killed_def kbind_eq_Ret myproc_eq_Ret)

text \<open>
  C22: a killed process never returns to user mode: whenever \<open>trap\<close> returns to user code, by
  whatever system call, interrupt or exception it was entered and whatever happened meanwhile,
  the process that runs is not marked as killed.
\<close>

theorem killed_never_returns:
  assumes "trap env dv tf s = Ret () t" "user_mode tf" "curproc t = Some p"
  shows "\<not> p_killed (ptable t p)"
proof (cases "tf_trapno tf = T_SYSCALL")
  case True
  with assms(1) obtain s1 where "kbind killed (\<lambda>k. kwhen k (exit env)) s1 = Ret () t"
    by (auto simp: trap_def kbind_eq_Ret kseq_eq_Ret)
  then show ?thesis
    using assms(3) by (auto simp: kbind_eq_Ret killed_eq_Ret kwhen_eq_Ret exit_no_Ret split: if_splits)
next
  case False
  with assms(1) obtain s1 where "exit_if_killed env tf s1 = Ret () t"
    by (auto simp: trap_def kseq_eq_Ret)
  with assms(2,3) show ?thesis by (auto dest: exit_if_killed_Ret)
qed

theorem killed_never_returns_witness:
  "trap (\<lambda>p s. s) idle_devices (user_tf 46) kernel_st = Ret () kernel_st \<and> \<not> p_killed (ptable kernel_st 1)"
proof -
  have alive: "exit_if_killed env tf kernel_st = Ret () kernel_st" for env tf
    by (simp add: exit_if_killed_def kbind_def)
  have "trap (\<lambda>p s. s) idle_devices (user_tf 46) kernel_st = Ret () kernel_st"
    by (simp add: trap_def trap_dispatch_def alive user_tf_def T_SYSCALL_def T_IRQ0_def IRQ_TIMER_def IRQ_IDE_def)
  then show ?thesis
    using killed_never_returns [of "\<lambda>p s. s" idle_devices "user_tf 46" kernel_st kernel_st 1]
    by (simp add: user_mode_def user_tf_def DPL_USER_def)
qed

subsection \<open>Bursts\<close>

text \<open>
  The array of bursts overflows. \<open>sys_start_burst\<close> resets the index only above 100, so a
  process whose index is 99 gets the index 100 from it, one past the end of the array, and its
  next valid system call writes outside of the array.
\<close>

lemma burst_index_overflow:
  assumes "curproc s = Some p" "TicksLock \<notin> set (held s)" "p_burst_idx (ptable s p) = 99"
  shows "\<exists>t. sys_start_burst s = Ret (ticks s) t \<and> p_burst_idx (ptable t p) = 100
    \<and> (\<forall>env. syscall env (t\<lparr>ptable := (ptable t)(p := (ptable t p)\<lparr>p_tf := (p_tf (ptable t p))\<lparr>tf_eax := 11\<rparr>\<rparr>)\<rparr>)
         = Fault ''burstarr: index out of range'')"
  using assms
  by (simp add: sys_start_burst_def sys_uptime_def syscall_def syscalls_def proc_tf_def sys_end_burst_def
      MAX_NUM_BURSTS_def)

lemma burst_index_overflow_witness:
  "\<exists>t. sys_start_burst (kernel_st\<lparr>ptable := (ptable kernel_st)(1 := (ptable kernel_st 1)\<lparr>p_burst_idx := 99\<rparr>)\<rparr>)
     = Ret 7 t \<and> p_burst_idx (ptable t 1) = 100"
  using burst_index_overflow [of "kernel_st\<lparr>ptable := (ptable kernel_st)(1 := (ptable kernel_st 1)\<lparr>p_burst_idx := 99\<rparr>)\<rparr>" 1]
  by auto

subsection \<open>Sleeping for a time\<close>

lemma va_kernel_state:
  "vload8 va s = Ret c t \<Longrightarrow> t = s"
  "vload32 va s = Ret w t \<Longrightarrow> t = s"
  by (auto simp: vload8_def vload32_def kbind_eq_Ret split: option.splits)

lemma argint_state: "argint n s = Ret a t \<Longrightarrow> t = s"
  by (auto simp: argint_def fetchint_def proc_tf_def proc_sz_def kbind_eq_Ret myproc_eq_Ret
      dest: va_kernel_state split: if_splits)

text \<open>
  C27: \<open>sleep(n)\<close> does not return early: when \<open>sys_sleep\<close> returns 0, at least the number of
  ticks in its argument have gone by on the wrapping tick counter, whatever wakes the process.
\<close>

theorem sys_sleep_waits:
  assumes "sys_sleep env s = Ret 0 t"
  shows "\<exists>n. argint 0 s = Ret (Some n) s \<and> n \<le> ticks t - ticks s"
proof -
  obtain n where n: "argint 0 s = Ret (Some n) s"
    using assms by (auto simp: sys_sleep_def kbind_eq_Ret dest: argint_state split: option.splits)
  let ?s = "s\<lparr>held := TicksLock # held s\<rparr>"
  obtain s1 where s1: "kretry (sys_sleep_turn env n (ticks s)) ?s = Ret True s1" "ticks t = ticks s1"
    using assms n by (auto simp: sys_sleep_def kbind_eq_Ret kseq_eq_Ret acquire_eq_Ret release_eq_Ret split: if_splits)
  have "True \<longrightarrow> \<not> ticks s1 - ticks s < n"
    by (rule kretry_invariant [OF s1(1), where I = "\<lambda>_. True" and Q = "\<lambda>ok t. ok \<longrightarrow> \<not> ticks t - ticks s < n"])
      (auto simp: sys_sleep_turn_def kbind_eq_Ret kseq_eq_Ret killed_eq_Ret split: if_splits)
  with n s1(2) show ?thesis by auto
qed



definition tick3 :: "file_st env" where
  "tick3 p s = s\<lparr>ticks := ticks s + 3\<rparr>"

lemma kernel_argint: "argint 0 kernel_st = Ret (Some 3) kernel_st"
proof -
  have "vload8 va kernel_st = Ret (kernel_mem (0x80700000 + va)) kernel_st" if "va < 4096" for va
    using user_page [OF _ _ that, of kernel_st] by (simp add: vload8_def)
  then show ?thesis
    by (simp add: argint_def proc_tf_def fetchint_def proc_sz_def zero_tf_def vload32_def kernel_mem_def le32_def)
qed

theorem sys_sleep_waits_witness: "\<exists>t. sys_sleep tick3 kernel_st = Ret 0 t \<and> 3 \<le> ticks t - 7"
proof -
  let ?s = "kernel_st\<lparr>held := [TicksLock]\<rparr>"
  have k: "killed ?s = Ret False ?s" by (simp add: killed_def)
  have "sleep tick3 ChanTicks TicksLock ?s = Ret () (awake tick3 ChanTicks TicksLock 1 ?s)"
    by (subst sleep_eq [of _ _ 1]) (simp_all add: tick3_def leave_proc_def)
  then have t1: "sys_sleep_turn tick3 3 7 ?s = Ret None (awake tick3 ChanTicks TicksLock 1 ?s)"
    by (simp add: sys_sleep_turn_def k)
  have tk: "ticks (awake tick3 ChanTicks TicksLock 1 ?s) = 10"
    by (simp add: awake_def resumed_def Let_def tick3_def leave_proc_def asleep_def)
  then have "sys_sleep_turn tick3 3 7 (awake tick3 ChanTicks TicksLock 1 ?s)
      = Ret (Some True) (awake tick3 ChanTicks TicksLock 1 ?s)"
    by (simp add: sys_sleep_turn_def)
  then have "kretry (sys_sleep_turn tick3 3 7) ?s = Ret True (awake tick3 ChanTicks TicksLock 1 ?s)"
    by (subst kretry.simps, simp add: t1, subst kretry.simps, simp)
  then have "\<exists>t. sys_sleep tick3 kernel_st = Ret 0 t" by (simp add: sys_sleep_def kernel_argint)
  then show ?thesis using sys_sleep_waits [of tick3 kernel_st] kernel_argint by auto
qed

subsection \<open>User-level locks\<close>

lemma mtx_xchg_eq_Ret:
  "mtx_xchg i v s = Ret old t \<longleftrightarrow> 0 \<le> i \<and> i < int MAX_NUM_LOCKS \<and> old = thread_locks s ! nat i
     \<and> t = s\<lparr>thread_locks := (thread_locks s)[nat i := v]\<rparr>"
  by (auto simp: mtx_xchg_def kbind_def)



text \<open>
  Lock numbers run out without a check: once \<open>nextLockId\<close> is 100, \<open>sys_mtx_create\<close>
  writes outside of the array of locks.
\<close>

lemma mtx_create_overflow:
  assumes "argint 0 s = Ret (Some v) s" "nextLockId s = int MAX_NUM_LOCKS"
  shows "sys_mtx_create s = Fault ''thread_locks: index out of range''"
  using assms by (simp add: sys_mtx_create_def unchecked_int_def mtx_xchg_def MAX_NUM_LOCKS_def)

lemma mtx_create_overflow_witness:
  "sys_mtx_create (kernel_st\<lparr>nextLockId := int MAX_NUM_LOCKS\<rparr>) = Fault ''thread_locks: index out of range''"
proof -
  have "vload8 va (kernel_st\<lparr>nextLockId := n\<rparr>) = Ret (kernel_mem (0x80700000 + va)) (kernel_st\<lparr>nextLockId := n\<rparr>)"
    if "va < 4096" for va n
    using user_page [OF _ _ that, of "kernel_st\<lparr>nextLockId := n\<rparr>"] by (simp add: vload8_def)
  then have "argint 0 (kernel_st\<lparr>nextLockId := n\<rparr>) = Ret (Some 3) (kernel_st\<lparr>nextLockId := n\<rparr>)" for n
    by (simp add: argint_def proc_tf_def fetchint_def proc_sz_def zero_tf_def vload32_def kernel_mem_def le32_def)
  then show ?thesis by (intro mtx_create_overflow) simp_all
qed

end
