(* ===== verification/Fs_Spec.thy ===== *)
theory Fs_Spec
  imports Trap_Spec
begin

section \<open>Properties of the inode cache and of truncation\<close>

text \<open>
  \<open>above_log\<close> is the interface between the file system and what lies below it: a relation on
  states that only looks at what is above the log is kept by all operations of the buffer
  cache, the log and the block allocator, provided other processes keep it.
\<close>

definition env_within :: "('s \<Rightarrow> 's \<Rightarrow> bool) \<Rightarrow> 's env \<Rightarrow> bool" where
  "env_within R env \<longleftrightarrow> (\<forall>p s. R s (env p s))"

locale above_log = kern_relation R for R :: "'x log_st_scheme \<Rightarrow> 'x log_st_scheme \<Rightarrow> bool" +
  assumes below: "log_st.more t = log_st.more s \<Longrightarrow> R s t"
begin

lemma within_below: "(\<And>s. log_st.more (f s) = log_st.more s) \<Longrightarrow> within R (kmod f)"
  by (rule within_kmod) (rule below)

lemma within_locks: "within R (acquire l)" "within R (release l)"
  by (auto simp: within_def acquire_def release_def intro: below)

lemma within_upd:
  "within R (upd_proc p g)" "within R (upd_buf b h)" "within R (upd_data b k)" "within R (bdata b)"
  by (simp_all add: within_def below rel_refl)

lemma within_sched:
  assumes "env_within R env"
  shows "within R (sched env)"
proof (rule withinI)
  have l: "R s (leave_proc s)" for s by (rule below) (simp add: leave_proc_def)
  then show "R s t" if "sched env s = Switch t" for s t using sched_Switch [OF that] by simp
  show "R s t" if "sched env s = Ret x t" for s x t
  proof (rule sched_Ret [OF that])
    fix p assume "t = resumed env p s"
    then have "R (env p (leave_proc s)) t" by (intro below) (simp add: resumed_def Let_def)
    moreover have "R (leave_proc s) (env p (leave_proc s))" using assms by (simp add: env_within_def)
    ultimately show ?thesis using l rel_trans by blast
  qed
qed

lemmas log_rules = within_rules within_locks within_upd within_sched

lemma within_sleep: "env_within R env \<Longrightarrow> within R (sleep env ch lk)"
  unfolding sleep_def by (intro log_rules)

lemma within_wakeup: "within R (wakeup ch)"
  unfolding wakeup_def wakeup1_def by (intro log_rules)

lemma within_retry: "within R m \<Longrightarrow> within R (kretry m)"
  by (rule within_kretry [OF kern_relation_axioms])

lemma within_iderw: "within R (iderw b)"
  unfolding iderw_def by (intro log_rules within_below) simp

lemma within_at: "(\<And>s. \<exists>m. within R m \<and> n s = m s) \<Longrightarrow> within R n"
  unfolding within_def by metis

lemma within_bget_turn:
  assumes env: "env_within R env"
  shows "within R (bget_turn env dev sec)"
proof (rule within_at)
  fix s :: "'x log_st_scheme"
  let ?F = "find (\<lambda>b. b_dev (bufs s b) = dev \<and> b_sector (bufs s b) = sec) (mru s)"
  let ?G = "find (\<lambda>b. \<not> b_busy (bufs s b) \<and> \<not> b_dirty (bufs s b)) (rev (mru s))"
  let ?m = "case ?F of
      Some b \<Rightarrow> if \<not> b_busy (bufs s b)
        then kseq (upd_buf b (\<lambda>q. q\<lparr>b_busy := True\<rparr>)) (kseq (release BcacheLock) (kret (Some b)))
        else kseq (sleep env (ChanBuf b) BcacheLock) (kret None)
    | None \<Rightarrow> (case ?G of
        Some b \<Rightarrow> kseq (upd_buf b (\<lambda>q. q\<lparr>b_dev := dev, b_sector := sec, b_busy := True, b_valid := False, b_dirty := False\<rparr>))
             (kseq (release BcacheLock) (kret (Some b)))
      | None \<Rightarrow> panic ''bget: no buffers'')"
  have "within R ?m" by (intro log_rules within_sleep env)
  moreover have "bget_turn env dev sec s = ?m s" by (simp add: bget_turn_def split: option.split)
  ultimately show "\<exists>m. within R m \<and> bget_turn env dev sec s = m s" by blast
qed

lemma within_bget: "env_within R env \<Longrightarrow> within R (bget env dev sec)"
  unfolding bget_def by (intro log_rules within_retry within_bget_turn)

lemma within_bread: "env_within R env \<Longrightarrow> within R (bread env dev sec)"
  unfolding bread_def by (intro log_rules within_bget within_iderw)

lemma within_bwrite: "within R (bwrite b)"
  unfolding bwrite_def by (intro log_rules within_iderw)

lemma within_brelse: "within R (brelse b)"
  unfolding brelse_def by (intro log_rules within_wakeup within_below) simp

lemmas bio_rules = log_rules within_bread within_bwrite within_brelse

lemma within_readsb: "env_within R env \<Longrightarrow> within R (readsb env dev)"
  unfolding readsb_def by (intro bio_rules)

lemma within_log_write: "env_within R env \<Longrightarrow> within R (log_write env b)"
  unfolding log_write_def Let_def by (intro bio_rules within_below) simp_all

lemma within_write_head: "env_within R env \<Longrightarrow> within R (write_head env)"
  unfolding write_head_def by (intro bio_rules)

lemma within_install_trans: "env_within R env \<Longrightarrow> within R (install_trans env)"
  unfolding install_trans_def by (intro bio_rules)

lemma within_begin_trans: "env_within R env \<Longrightarrow> within R (begin_trans env)"
  unfolding begin_trans_def begin_turn_def by (intro bio_rules within_retry within_sleep within_below) simp_all

lemma within_commit_trans: "env_within R env \<Longrightarrow> within R (commit_trans env)"
  unfolding commit_trans_def
  by (intro bio_rules within_wakeup within_write_head within_install_trans within_below) simp_all

lemma within_bzero: "env_within R env \<Longrightarrow> within R (bzero env dev b)"
  unfolding bzero_def by (intro bio_rules within_log_write)

lemma within_balloc_loop: "env_within R env \<Longrightarrow> within R (balloc_loop env dev sb bs)"
proof (induction bs)
  case Nil
  then show ?case by (simp add: within_def)
next
  case (Cons b bs)
  then show ?case unfolding balloc_loop.simps by (intro bio_rules within_log_write within_bzero) simp_all
qed

lemma within_balloc: "env_within R env \<Longrightarrow> within R (balloc env dev)"
  unfolding balloc_def by (intro bio_rules within_readsb within_balloc_loop)

lemma within_bfree: "env_within R env \<Longrightarrow> within R (bfree env dev b)"
  unfolding bfree_def Let_def by (intro bio_rules within_readsb within_log_write)

lemmas block_rules = bio_rules within_sleep within_wakeup within_retry within_readsb within_log_write
  within_begin_trans within_commit_trans within_balloc within_bfree

end


subsection \<open>The inode cache\<close>

definition icache_ok :: "'x fs_st_scheme \<Rightarrow> bool" where
  "icache_ok s \<longleftrightarrow> (\<forall>i < NINODE. \<forall>j < NINODE. 0 < i_ref (inodes s i) \<longrightarrow> 0 < i_ref (inodes s j)
     \<longrightarrow> i_dev (inodes s i) = i_dev (inodes s j) \<longrightarrow> i_inum (inodes s i) = i_inum (inodes s j) \<longrightarrow> i = j)"

abbreviation icache_rel :: "'x fs_st_scheme \<Rightarrow> 'x fs_st_scheme \<Rightarrow> bool" where
  "icache_rel s t \<equiv> icache_ok s \<longrightarrow> icache_ok t"

interpretation icache: above_log "icache_rel :: 'x fs_st_scheme \<Rightarrow> 'x fs_st_scheme \<Rightarrow> bool"
proof unfold_locales
  fix s t :: "'x fs_st_scheme"
  assume "log_st.more t = log_st.more s"
  then show "icache_rel s t" using log_more_inodes [of t s] by (simp add: icache_ok_def)
qed auto

lemma icache_okD:
  "icache_ok s \<Longrightarrow> i < NINODE \<Longrightarrow> j < NINODE \<Longrightarrow> 0 < i_ref (inodes s i) \<Longrightarrow> 0 < i_ref (inodes s j)
   \<Longrightarrow> i_dev (inodes s i) = i_dev (inodes s j) \<Longrightarrow> i_inum (inodes s i) = i_inum (inodes s j) \<Longrightarrow> i = j"
  unfolding icache_ok_def by blast

lemma icache_ok_frame:
  fixes s t :: "'x fs_st_scheme"
  assumes "icache_ok s"
    and "\<And>i. 0 < i_ref (inodes t i) \<Longrightarrow> 0 < i_ref (inodes s i)
      \<and> i_dev (inodes t i) = i_dev (inodes s i) \<and> i_inum (inodes t i) = i_inum (inodes s i)"
  shows "icache_ok t"
  unfolding icache_ok_def
proof (intro allI impI)
  fix i j
  assume "i < NINODE" "j < NINODE" "0 < i_ref (inodes t i)" "0 < i_ref (inodes t j)"
    "i_dev (inodes t i) = i_dev (inodes t j)" "i_inum (inodes t i) = i_inum (inodes t j)"
  with assms(2) [of i] assms(2) [of j] show "i = j" by (intro icache_okD [OF assms(1)]) simp_all
qed

lemma icache_upd:
  assumes "\<And>q. i_dev (f q) = i_dev q" "\<And>q. i_inum (f q) = i_inum q" "\<And>q. 0 < i_ref (f q) \<Longrightarrow> 0 < i_ref q"
  shows "within icache_rel (upd_inode ip f)"
  unfolding upd_inode_def
proof (rule icache.within_kmod, rule impI)
  fix s :: "'b fs_st_scheme"
  assume "icache_ok s"
  then show "icache_ok (s\<lparr>inodes := (inodes s)(ip := f (inodes s ip))\<rparr>)"
    by (rule icache_ok_frame) (use assms(3) [of "inodes s ip"] in \<open>simp add: assms(1,2) split: if_splits\<close>)
qed

lemma icache_inode_of: "within icache_rel (inode_of ip)"
  by (simp add: within_def)

lemmas icache_rules = icache.block_rules icache_inode_of icache_upd

lemma icache_iupdate: "env_within icache_rel env \<Longrightarrow> within icache_rel (iupdate env ip)"
  unfolding iupdate_def by (intro icache_rules)

lemma icache_ilock: "env_within icache_rel env \<Longrightarrow> within icache_rel (ilock env ip)"
  unfolding ilock_def ilock_turn_def by (intro icache_rules) (simp_all add: load_dinode_def)

lemma icache_iunlock: "within icache_rel (iunlock ip)"
  unfolding iunlock_def by (intro icache_rules) simp_all

lemma icache_bmap: "env_within icache_rel env \<Longrightarrow> within icache_rel (bmap env ip bn)"
  unfolding bmap_def bmap_addr_def bmap_entry_def Let_def by (intro icache_rules) simp_all

lemma icache_itrunc: "env_within icache_rel env \<Longrightarrow> within icache_rel (itrunc env ip)"
  unfolding itrunc_def by (intro icache_rules icache_iupdate) simp_all

lemma icache_iput: "env_within icache_rel env \<Longrightarrow> within icache_rel (iput env ip)"
  unfolding iput_def by (intro icache_rules icache_iupdate icache_itrunc) simp_all

lemma icache_iunlockput: "env_within icache_rel env \<Longrightarrow> within icache_rel (iunlockput env ip)"
  unfolding iunlockput_def by (intro icache_rules icache_iunlock icache_iput)


text \<open>What \<open>iget\<close> does: it counts one more reference in the slot of the inode, or takes a free slot.\<close>

lemma iget_Ret:
  assumes "iget dev inum s = Ret ip t"
  obtains "ip < NINODE" "0 < i_ref (inodes s ip)" "i_dev (inodes s ip) = dev" "i_inum (inodes s ip) = inum"
      "inodes t = (inodes s)(ip := (inodes s ip)\<lparr>i_ref := i_ref (inodes s ip) + 1\<rparr>)"
  | "ip < NINODE" "i_ref (inodes s ip) = 0"
      "\<And>i. i < NINODE \<Longrightarrow> \<not> (0 < i_ref (inodes s i) \<and> i_dev (inodes s i) = dev \<and> i_inum (inodes s i) = inum)"
      "inodes t = (inodes s)(ip := (inodes s ip)\<lparr>i_dev := dev, i_inum := inum, i_ref := 1, i_busy := False, i_valid := False\<rparr>)"
proof -
  have h: "IcacheLock \<notin> set (held s)" using assms by (auto simp: iget_def kseq_def kbind_def acquire_def split: if_splits)
  let ?P = "\<lambda>i. i_ref (inodes s i) > 0 \<and> i_dev (inodes s i) = dev \<and> i_inum (inodes s i) = inum"
  show ?thesis
  proof (cases "first_index ?P NINODE")
    case (Some i)
    then have "iget dev inum s = Ret i (s\<lparr>inodes := (inodes s)(i := (inodes s i)\<lparr>i_ref := i_ref (inodes s i) + 1\<rparr>)\<rparr>)"
      using h by (simp add: iget_def)
    with assms have it: "ip = i" "inodes t = (inodes s)(i := (inodes s i)\<lparr>i_ref := i_ref (inodes s i) + 1\<rparr>)" by auto
    have "i < NINODE" "?P i" using Some by (simp_all add: first_index_Some_iff)
    then show ?thesis using it that(1) by simp
  next
    case None
    then obtain i where i: "first_index (\<lambda>i. i_ref (inodes s i) = 0) NINODE = Some i"
      using assms h by (auto simp: iget_def split: option.splits)
    let ?q = "(inodes s i)\<lparr>i_dev := dev, i_inum := inum, i_ref := 1, i_busy := False, i_valid := False\<rparr>"
    have "iget dev inum s = Ret i (s\<lparr>inodes := (inodes s)(i := ?q)\<rparr>)"
      using h None i by (simp add: iget_def)
    with assms have it: "ip = i" "inodes t = (inodes s)(i := ?q)" by auto
    have "i < NINODE" "i_ref (inodes s i) = 0" using i by (simp_all add: first_index_Some_iff)
    moreover have "\<And>i. i < NINODE \<Longrightarrow> \<not> ?P i" using None by (simp add: first_index_None_iff)
    ultimately show ?thesis using it that(2) by simp
  qed
qed

lemma iget_no_Switch: "iget dev inum s \<noteq> Switch t"
  by (auto simp: iget_def kseq_def kbind_def acquire_def release_def split: option.splits outcome.splits if_splits)

lemma icache_ok_iget:
  assumes s: "icache_ok s" and g: "iget dev inum s = Ret ip t"
  shows "icache_ok t"
proof (rule iget_Ret [OF g])
  assume r: "0 < i_ref (inodes s ip)"
    and t: "inodes t = (inodes s)(ip := (inodes s ip)\<lparr>i_ref := i_ref (inodes s ip) + 1\<rparr>)"
  show ?thesis by (rule icache_ok_frame [OF s]) (use r in \<open>simp add: t split: if_splits\<close>)
next
  assume none: "\<And>i. i < NINODE \<Longrightarrow> \<not> (0 < i_ref (inodes s i) \<and> i_dev (inodes s i) = dev \<and> i_inum (inodes s i) = inum)"
    and t: "inodes t = (inodes s)(ip := (inodes s ip)\<lparr>i_dev := dev, i_inum := inum, i_ref := 1, i_busy := False, i_valid := False\<rparr>)"
  show ?thesis
    unfolding icache_ok_def
  proof (intro allI impI)
    fix i j
    assume a: "i < NINODE" "j < NINODE" "0 < i_ref (inodes t i)" "0 < i_ref (inodes t j)"
      "i_dev (inodes t i) = i_dev (inodes t j)" "i_inum (inodes t i) = i_inum (inodes t j)"
    show "i = j"
    proof (cases "i = ip \<or> j = ip")
      case True
      then show ?thesis using a none [of i] none [of j] by (auto simp: t split: if_splits)
    next
      case False
      then show ?thesis using a by (intro icache_okD [OF s]) (simp_all add: t)
    qed
  qed
qed

lemma icache_keeps: "within icache_rel m \<Longrightarrow> icache_ok s \<Longrightarrow> m s = Ret x t \<Longrightarrow> icache_ok t"
  by (drule withinD) auto

lemma icache_iget: "within icache_rel (iget dev inum)"
  by (rule withinI) (auto simp: iget_no_Switch dest: icache_ok_iget)

lemma icache_ialloc_loop: "env_within icache_rel env \<Longrightarrow> within icache_rel (ialloc_loop env dev typ is)"
proof (induction "is")
  case Nil
  then show ?case by (simp add: within_def)
next
  case (Cons i "is")
  then show ?case unfolding ialloc_loop.simps Let_def by (intro icache_rules icache_iget) simp_all
qed

lemma icache_ialloc: "env_within icache_rel env \<Longrightarrow> within icache_rel (ialloc env dev typ)"
  unfolding ialloc_def by (intro icache_rules icache_ialloc_loop)

text \<open>
  C29: the inode cache. If no inode is in two slots of the cache, then the same holds after
  every operation on it, also when other processes run while the operation sleeps and keep
  the cache in this state: \<open>iget\<close>, \<open>ialloc\<close>, \<open>ilock\<close>, \<open>iunlock\<close>, \<open>iupdate\<close>, \<open>bmap\<close>, \<open>itrunc\<close>,
  \<open>iput\<close>, and \<open>idup\<close> of an inode that has a reference.
\<close>

theorem icache_invariant:
  assumes "icache_ok s" "env_within (\<lambda>s t. icache_ok s \<longrightarrow> icache_ok t) env"
  shows "(iget dev inum s = Ret ip t \<longrightarrow> icache_ok t)
    \<and> (ialloc env dev typ s = Ret ip t \<longrightarrow> icache_ok t)
    \<and> (ilock env i s = Ret () t \<longrightarrow> icache_ok t)
    \<and> (iunlock i s = Ret () t \<longrightarrow> icache_ok t)
    \<and> (iupdate env i s = Ret () t \<longrightarrow> icache_ok t)
    \<and> (bmap env i bn s = Ret addr t \<longrightarrow> icache_ok t)
    \<and> (itrunc env i s = Ret () t \<longrightarrow> icache_ok t)
    \<and> (iput env i s = Ret () t \<longrightarrow> icache_ok t)
    \<and> (0 < i_ref (inodes s i) \<longrightarrow> idup i s = Ret ip t \<longrightarrow> icache_ok t)"
proof (intro conjI impI)
  note within = icache_keeps [OF _ assms(1)]
  show "icache_ok t" if "iget dev inum s = Ret ip t" by (rule icache_ok_iget [OF assms(1) that])
  show "icache_ok t" if "ialloc env dev typ s = Ret ip t" by (rule within [OF icache_ialloc [OF assms(2)] that])
  show "icache_ok t" if "ilock env i s = Ret () t" by (rule within [OF icache_ilock [OF assms(2)] that])
  show "icache_ok t" if "iunlock i s = Ret () t" by (rule within [OF icache_iunlock that])
  show "icache_ok t" if "iupdate env i s = Ret () t" by (rule within [OF icache_iupdate [OF assms(2)] that])
  show "icache_ok t" if "bmap env i bn s = Ret addr t" by (rule within [OF icache_bmap [OF assms(2)] that])
  show "icache_ok t" if "itrunc env i s = Ret () t" by (rule within [OF icache_itrunc [OF assms(2)] that])
  show "icache_ok t" if "iput env i s = Ret () t" by (rule within [OF icache_iput [OF assms(2)] that])
  show "icache_ok t" if "0 < i_ref (inodes s i)" "idup i s = Ret ip t"
    by (rule icache_ok_frame [OF assms(1)])
      (use that in \<open>auto simp: idup_def kseq_eq_Ret acquire_eq_Ret release_eq_Ret split: if_splits\<close>)
qed

theorem icache_invariant_witness:
  "icache_ok kernel_st \<and> env_within (\<lambda>s t :: file_st. icache_ok s \<longrightarrow> icache_ok t) (\<lambda>_ s. s)
   \<and> (\<exists>t. iget 1 20 kernel_st = Ret 1 t \<and> icache_ok t)"
proof -
  have i: "inodes kernel_st = (\<lambda>_. free_inode)(0 := free_inode\<lparr>i_dev := 1, i_inum := 1, i_ref := 3, i_valid := True,
        i_type := T_DIR, i_nlink := 1\<rparr>)" by (simp add: kernel_st_def)
  have ok: "icache_ok kernel_st" by (auto simp: icache_ok_def i free_inode_def split: if_splits)
  have e: "env_within (\<lambda>s t :: file_st. icache_ok s \<longrightarrow> icache_ok t) (\<lambda>_ s. s)" by (simp add: env_within_def)
  have "first_index (\<lambda>k. 0 < i_ref (inodes kernel_st k) \<and> i_dev (inodes kernel_st k) = 1 \<and> i_inum (inodes kernel_st k) = 20) NINODE = None"
    by (auto simp: first_index_None_iff i free_inode_def)
  moreover have "first_index (\<lambda>k. i_ref (inodes kernel_st k) = 0) NINODE = Some 1"
    by (simp add: first_index_Some_iff i free_inode_def NINODE_def)
  ultimately have g: "\<exists>t. iget 1 20 kernel_st = Ret 1 t" by (simp add: iget_def)
  then show ?thesis using ok e icache_invariant [OF ok e] by blast
qed

subsection \<open>Truncation\<close>

abbreviation indirect_rel :: "nat \<Rightarrow> 'x fs_st_scheme \<Rightarrow> 'x fs_st_scheme \<Rightarrow> bool" where
  "indirect_rel ip s t \<equiv> i_addrs (inodes t ip) ! NDIRECT = i_addrs (inodes s ip) ! NDIRECT"

interpretation indirect: above_log "indirect_rel ip :: 'x fs_st_scheme \<Rightarrow> 'x fs_st_scheme \<Rightarrow> bool" for ip
proof unfold_locales
  fix s t :: "'x fs_st_scheme"
  assume "log_st.more t = log_st.more s"
  then show "indirect_rel ip s t" using log_more_inodes [of t s] by simp
qed auto

lemma direct_blocks_indirect:
  assumes env: "env_within (indirect_rel ip) env" and i: "i < NDIRECT"
  shows "within (indirect_rel ip) (kbind (inode_of ip) (\<lambda>q. kwhen (i_addrs q ! i \<noteq> 0)
     (kseq (bfree env (i_dev q) (i_addrs q ! i)) (upd_inode ip (\<lambda>q. q\<lparr>i_addrs := (i_addrs q)[i := 0]\<rparr>)))))"
proof -
  have "within (indirect_rel ip) (inode_of ip)" by (simp add: within_def)
  moreover have "within (indirect_rel ip) (upd_inode ip (\<lambda>q. q\<lparr>i_addrs := (i_addrs q)[i := 0]\<rparr>))"
    using i by (simp add: within_def)
  ultimately show ?thesis by (intro indirect.block_rules env)
qed

lemma kfor_stops:
  assumes "\<And>i s x t. f i s = Ret x t \<Longrightarrow> i \<notin> bad"
  shows "kfor is f s = Ret () t \<Longrightarrow> set is \<inter> bad = {}"
proof (induction "is" arbitrary: s)
  case (Cons i "is")
  then show ?case using assms by (fastforce simp: kseq_eq_Ret)
qed simp

lemma within_kfor_set:
  assumes "kern_relation R" "\<And>i. i \<in> set is \<Longrightarrow> within R (f i)"
  shows "within R (kfor is f)"
  using assms(2)
  by (induction "is") (simp_all add: kern_relation.within_kret [OF assms(1)] kern_relation.within_kseq [OF assms(1)])

text \<open>
  \<open>itrunc\<close> cannot free a file with an indirect block. Its loop over the entries of the
  indirect block runs to \<open>NINDIRECT\<close>, 256, while a block has 128 entries, so it reads past
  the end of the buffer: from a state where the inode has an indirect block \<open>itrunc\<close> never
  returns normally.
\<close>

lemma itrunc_indirect:
  assumes "i_addrs (inodes s ip) ! NDIRECT \<noteq> 0"
    and env: "env_within (\<lambda>s t. i_addrs (inodes t ip) ! NDIRECT = i_addrs (inodes s ip) ! NDIRECT) env"
  shows "itrunc env ip s \<noteq> Ret () t"
proof
  let ?f = "\<lambda>i. kbind (inode_of ip) (\<lambda>q. kwhen (i_addrs q ! i \<noteq> 0)
     (kseq (bfree env (i_dev q) (i_addrs q ! i)) (upd_inode ip (\<lambda>q. q\<lparr>i_addrs := (i_addrs q)[i := 0]\<rparr>))))"
  let ?g = "\<lambda>bp j. if j \<ge> PTRS_PER_BLOCK then fault ''itrunc: read past the end of the buffer''
     else kbind (bdata bp) (\<lambda>d. kwhen (blk_ptr d j \<noteq> 0) (kbind (inode_of ip) (\<lambda>q. bfree env (i_dev q) (blk_ptr d j))))"
  assume "itrunc env ip s = Ret () t"
  then obtain s1 where s1: "kfor [0..<NDIRECT] ?f s = Ret () s1"
    and rest: "i_addrs (inodes s1 ip) ! NDIRECT = 0 \<or> (\<exists>bp s2 s3. kfor [0..<NINDIRECT] (?g bp) s2 = Ret () s3)"
    unfolding itrunc_def by (clarsimp simp: kseq_eq_Ret kbind_eq_Ret kwhen_eq_Ret split: if_split_asm; blast)
  have "within (indirect_rel ip) (kfor [0..<NDIRECT] ?f)"
    by (rule within_kfor_set [OF indirect.kern_relation_axioms direct_blocks_indirect [OF env]]) simp
  then have "i_addrs (inodes s1 ip) ! NDIRECT \<noteq> 0" using withinD s1 assms(1) by force
  with rest obtain bp s2 s3 where "kfor [0..<NINDIRECT] (?g bp) s2 = Ret () s3" by blast
  then have "set [0..<NINDIRECT] \<inter> {PTRS_PER_BLOCK..} = {}"
    by (rule kfor_stops [rotated]) (auto split: if_splits)
  moreover have "PTRS_PER_BLOCK \<in> set [0..<NINDIRECT]"
    by (simp add: NINDIRECT_def PTRS_PER_BLOCK_def NUM_INDIRECT_def BSIZE_def)
  ultimately show False by auto
qed


lemma itrunc_indirect_witness:
  "itrunc (\<lambda>_ s. s) 0 (kernel_st\<lparr>inodes := (\<lambda>_. free_inode\<lparr>i_addrs := replicate NADDRS 99\<rparr>)\<rparr>) \<noteq> Ret () kernel_st"
  by (rule itrunc_indirect) (simp_all add: env_within_def NADDRS_def NUM_INDIRECT_def NDIRECT_def NUM_DOUBLE_INDIRECT_def nth_Cons' nth_append)

end
