(* ===== verification/Pipe_Spec.thy ===== *)
theory Pipe_Spec
  imports Fs_Spec
begin

section \<open>Pipes are queues\<close>

text \<open>
  \<open>byte_queue\<close> is what a pipe promises: a bounded queue of bytes. The ring buffer with its two
  wrapping counters provides it, and \<open>pipewrite\<close> and \<open>piperead\<close> are queue operations.
\<close>

locale byte_queue =
  fixes inv :: "'q \<Rightarrow> bool" and contents :: "'q \<Rightarrow> u8 list" and capacity :: nat
    and full :: "'q \<Rightarrow> bool" and empty :: "'q \<Rightarrow> bool"
    and put :: "u8 \<Rightarrow> 'q \<Rightarrow> 'q" and front :: "'q \<Rightarrow> u8" and drop_front :: "'q \<Rightarrow> 'q"
  assumes bounded: "inv q \<Longrightarrow> length (contents q) \<le> capacity"
    and full_iff: "inv q \<Longrightarrow> full q \<longleftrightarrow> length (contents q) = capacity"
    and empty_iff: "inv q \<Longrightarrow> empty q \<longleftrightarrow> contents q = []"
    and put_contents: "inv q \<Longrightarrow> \<not> full q \<Longrightarrow> inv (put c q) \<and> contents (put c q) = contents q @ [c]"
    and front_contents: "inv q \<Longrightarrow> \<not> empty q \<Longrightarrow> inv (drop_front q) \<and> contents q = front q # contents (drop_front q)"
begin

primrec puts :: "u8 list \<Rightarrow> 'q \<Rightarrow> 'q" where
  "puts [] q = q"
| "puts (c # cs) q = puts cs (put c q)"

lemma puts_contents:
  "inv q \<Longrightarrow> length (contents q) + length cs \<le> capacity \<Longrightarrow> inv (puts cs q) \<and> contents (puts cs q) = contents q @ cs"
proof (induction cs arbitrary: q)
  case (Cons c cs)
  then have "\<not> full q" using full_iff by simp
  with Cons show ?case using put_contents [of q c] by simp
qed simp

end

definition pipe_ok :: "pipe \<Rightarrow> bool" where
  "pipe_ok q \<longleftrightarrow> unat (pi_nwrite q - pi_nread q) \<le> PIPESIZE"

definition pipe_contents :: "pipe \<Rightarrow> u8 list" where
  "pipe_contents q = map (\<lambda>i. pi_data q ((unat (pi_nread q) + i) mod PIPESIZE)) [0..<unat (pi_nwrite q - pi_nread q)]"

definition pipe_get :: "pipe \<Rightarrow> pipe" where
  "pipe_get q = q\<lparr>pi_nread := pi_nread q + 1\<rparr>"

text \<open>The counters wrap around at a multiple of the size of the ring.\<close>

lemma unat_plus_mod: "unat (a + b :: u32) mod PIPESIZE = (unat a + unat b) mod PIPESIZE"
proof -
  have "unat (a + b) = (unat a + unat b) mod 4294967296" by (simp add: unat_word_ariths)
  then show ?thesis by (simp add: PIPESIZE_def mod_mod_cancel)
qed

lemma unat_Suc_u32: "unat (w :: u32) < 4294967295 \<Longrightarrow> unat (w + 1) = Suc (unat w)"
  by (simp add: unat_word_ariths)

lemma pipe_distance:
  assumes "pipe_ok q" "pi_nwrite q \<noteq> pi_nread q + of_nat PIPESIZE"
  shows "unat (pi_nwrite q - pi_nread q) < PIPESIZE"
proof -
  have "unat (pi_nwrite q - pi_nread q) \<noteq> PIPESIZE"
  proof
    assume "unat (pi_nwrite q - pi_nread q) = PIPESIZE"
    then have "of_nat (unat (pi_nwrite q - pi_nread q)) = (of_nat PIPESIZE :: u32)" by simp
    then have "pi_nwrite q - pi_nread q = of_nat PIPESIZE" by (simp del: of_nat_numeral)
    then show False using assms(2) by (simp add: algebra_simps)
  qed
  then show ?thesis using assms(1) by (simp add: pipe_ok_def)
qed

interpretation pipe_queue: byte_queue pipe_ok pipe_contents PIPESIZE
  "\<lambda>q. pi_nwrite q = pi_nread q + of_nat PIPESIZE" "\<lambda>q. pi_nread q = pi_nwrite q"
  pipe_put "\<lambda>q. pi_data q (unat (pi_nread q) mod PIPESIZE)" pipe_get
proof
  fix q :: pipe and c :: u8
  assume ok: "pipe_ok q"
  let ?n = "unat (pi_nwrite q - pi_nread q)"
  show "length (pipe_contents q) \<le> PIPESIZE" using ok by (simp add: pipe_contents_def pipe_ok_def)
  show "pi_nwrite q = pi_nread q + of_nat PIPESIZE \<longleftrightarrow> length (pipe_contents q) = PIPESIZE"
  proof
    assume "pi_nwrite q = pi_nread q + of_nat PIPESIZE"
    then show "length (pipe_contents q) = PIPESIZE" by (simp add: pipe_contents_def PIPESIZE_def)
  next
    assume "length (pipe_contents q) = PIPESIZE"
    then show "pi_nwrite q = pi_nread q + of_nat PIPESIZE"
      using pipe_distance [OF ok] by (auto simp: pipe_contents_def)
  qed
  show "pi_nread q = pi_nwrite q \<longleftrightarrow> pipe_contents q = []"
    by (auto simp: pipe_contents_def unat_eq_0)
  show "pipe_ok (pipe_put c q) \<and> pipe_contents (pipe_put c q) = pipe_contents q @ [c]"
    if "pi_nwrite q \<noteq> pi_nread q + of_nat PIPESIZE"
  proof -
    have n: "?n < PIPESIZE" by (rule pipe_distance [OF ok that])
    have d: "unat (pi_nwrite q + 1 - pi_nread q) = Suc ?n"
      using unat_Suc_u32 [of "pi_nwrite q - pi_nread q"] n by (simp add: algebra_simps PIPESIZE_def)
    have w: "unat (pi_nwrite q) mod PIPESIZE = (unat (pi_nread q) + ?n) mod PIPESIZE"
      using unat_plus_mod [of "pi_nread q" "pi_nwrite q - pi_nread q"] by simp
    have "(unat (pi_nread q) + i) mod PIPESIZE \<noteq> (unat (pi_nread q) + ?n) mod PIPESIZE" if "i < ?n" for i
    proof
      assume "(unat (pi_nread q) + i) mod PIPESIZE = (unat (pi_nread q) + ?n) mod PIPESIZE"
      then have "i mod PIPESIZE = ?n mod PIPESIZE" by (simp add: nat_mod_eq_iff)
      then show False using that n by simp
    qed
    then show ?thesis
      using n by (auto simp: pipe_ok_def pipe_contents_def pipe_put_def d w)
  qed
  show "pipe_ok (pipe_get q) \<and> pipe_contents q = pi_data q (unat (pi_nread q) mod PIPESIZE) # pipe_contents (pipe_get q)"
    if "pi_nread q \<noteq> pi_nwrite q"
  proof -
    have "?n \<noteq> 0" using that by (simp add: unat_eq_0)
    then obtain m where m: "?n = Suc m" by (cases ?n) auto
    have d: "unat (pi_nwrite q - (pi_nread q + 1)) = m"
      using m unat_minus_one [of "pi_nwrite q - pi_nread q"] that by (simp add: algebra_simps)
    have "(unat (pi_nread q + 1) + i) mod PIPESIZE = (unat (pi_nread q) + Suc i) mod PIPESIZE" for i
      using unat_plus_mod [of "pi_nread q" 1] by (metis add_Suc_right add_Suc_shift mod_add_left_eq unat_1 Suc_eq_plus1)
    then show ?thesis
      using ok m d by (simp add: pipe_ok_def pipe_contents_def pipe_get_def upt_conv_Cons comp_def del: upt_Suc flip: map_Suc_upt)
  qed
qed


subsection \<open>Writing and reading\<close>

text \<open>The bytes a source of \<open>pipewrite\<close> delivers, as long as only pipes and locks change.\<close>

definition source_is :: "ksrc \<Rightarrow> u8 list \<Rightarrow> 'x file_st_scheme \<Rightarrow> bool" where
  "source_is src bs s \<longleftrightarrow> (\<forall>i < length bs. \<forall>h ps. get_byte src (of_nat i) (s\<lparr>held := h, pipes := ps\<rparr>)
     = Ret (bs ! i) (s\<lparr>held := h, pipes := ps\<rparr>))"

lemma kretry_done: "turn s = Ret (Some x) t \<Longrightarrow> kretry turn s = Ret x t"
  by (subst kretry.simps) simp

lemma pipewrite_loop_room:
  assumes "source_is src bs s" "length bs < 2 ^ 31"
  shows "pipe_ok (ps p) \<Longrightarrow> length (pipe_contents (ps p)) + n \<le> PIPESIZE \<Longrightarrow> k + n = length bs \<Longrightarrow>
    pipewrite_loop env p src (of_nat k) n (s\<lparr>held := h, pipes := ps\<rparr>)
      = Ret True (s\<lparr>held := h, pipes := ps(p := pipe_queue.puts (drop k bs) (ps p))\<rparr>)"
proof (induction n arbitrary: k ps)
  case 0
  then show ?case by simp
next
  case (Suc n)
  let ?s = "s\<lparr>held := h, pipes := ps\<rparr>"
  let ?ps = "ps(p := pipe_put (bs ! k) (ps p))"
  have nf: "pi_nwrite (ps p) \<noteq> pi_nread (ps p) + of_nat PIPESIZE"
    using Suc.prems pipe_queue.full_iff [of "ps p"] by simp
  have "pipewrite_turn env p ?s = Ret (Some True) ?s" using nf by (simp add: pipewrite_turn_def)
  then have r: "kretry (pipewrite_turn env p) ?s = Ret True ?s" by (rule kretry_done)
  have g: "get_byte src (of_nat k) ?s = Ret (bs ! k) ?s" using assms(1) Suc.prems by (simp add: source_is_def)
  have ok: "pipe_ok (?ps p)" "length (pipe_contents (?ps p)) + n \<le> PIPESIZE"
    using pipe_queue.put_contents [OF Suc.prems(1) nf, of "bs ! k"] Suc.prems(2) by simp_all
  have "pipewrite_loop env p src (of_nat (Suc k)) n (s\<lparr>held := h, pipes := ?ps\<rparr>)
      = Ret True (s\<lparr>held := h, pipes := ?ps(p := pipe_queue.puts (drop (Suc k) bs) (?ps p))\<rparr>)"
    by (rule Suc.IH) (use ok Suc.prems in simp_all)
  moreover have "drop k bs = bs ! k # drop (Suc k) bs" using Suc.prems by (intro Cons_nth_drop_Suc [symmetric]) simp
  ultimately show ?case using r g by (simp add: add.commute fun_upd_def cong: if_cong)
qed

lemma put_byte_pipes: "put_byte dst i c s = Ret x t \<Longrightarrow> pipes t = pipes s \<and> held t = held s"
  for s :: "'x file_st_scheme"
  by (auto simp: put_byte_def vstore8_def split: kdst.splits option.splits)

lemma piperead_loop_takes:
  assumes "pipe_ok (pipes s p)" "piperead_loop p dst i n s = Ret cs t"
  shows "cs = take n (pipe_contents (pipes s p)) \<and> pipe_ok (pipes t p)
    \<and> pipe_contents (pipes t p) = drop n (pipe_contents (pipes s p))"
  using assms
proof (induction n arbitrary: i s cs)
  case 0
  then show ?case by simp
next
  case (Suc n)
  let ?q = "pipes s p"
  show ?case
  proof (cases "pi_nread ?q = pi_nwrite ?q")
    case True
    then have "pipe_contents ?q = []" using pipe_queue.empty_iff [OF Suc.prems(1)] by simp
    then show ?thesis using Suc.prems True by simp
  next
    case False
    let ?c = "pi_data ?q (unat (pi_nread ?q) mod PIPESIZE)"
    let ?s = "s\<lparr>pipes := (pipes s)(p := pipe_get ?q)\<rparr>"
    have f: "pipe_ok (pipe_get ?q)" "pipe_contents ?q = ?c # pipe_contents (pipe_get ?q)"
      using pipe_queue.front_contents [OF Suc.prems(1) False] by auto
    obtain u ds where u: "put_byte dst i ?c ?s = Ret () u" "piperead_loop p dst (i + 1) n u = Ret ds t" "cs = ?c # ds"
      using Suc.prems(2) False by (auto simp: Let_def kseq_eq_Ret kbind_eq_Ret pipe_get_def)
    have "pipes u p = pipe_get ?q" using put_byte_pipes [OF u(1)] by simp
    then show ?thesis using Suc.IH [of u "i + 1" ds] u f by simp
  qed
qed

text \<open>
  C37: pipes are first-in first-out queues of 512 bytes. With room for all bytes \<open>pipewrite\<close> returns
  without sleeping and has appended them to the contents of the pipe; a \<open>piperead\<close> of a
  pipe that is not empty delivers its first bytes, as many as asked for or as there are, and
  leaves the others. Both hold across the wrap-around of the counters.
\<close>

theorem pipe_fifo:
  assumes ok: "pipe_ok (pipes s p)" and l: "PipeLock p \<notin> set (held s)" "PtableLock \<notin> set (held s)"
    and bs: "source_is src bs s" "length bs < 2 ^ 31" "length (pipe_contents (pipes s p)) + length bs \<le> PIPESIZE"
  shows "(\<exists>t. pipewrite env p src (int (length bs)) s = Ret (int (length bs)) t \<and> pipe_ok (pipes t p)
      \<and> pipe_contents (pipes t p) = pipe_contents (pipes s p) @ bs)
    \<and> (\<forall>n r cs t. pipe_contents (pipes s p) \<noteq> [] \<longrightarrow> piperead env p dst n s = Ret (r, cs) t \<longrightarrow>
        cs = take (nat n) (pipe_contents (pipes s p)) \<and> r = int (length cs) \<and> pipe_ok (pipes t p)
        \<and> pipe_contents (pipes t p) = drop (nat n) (pipe_contents (pipes s p)))"
proof (intro conjI allI impI)
  let ?ps = "(pipes s)(p := pipe_queue.puts bs (pipes s p))"
  have "pipewrite_loop env p src 0 (length bs) (s\<lparr>held := PipeLock p # held s\<rparr>)
      = Ret True (s\<lparr>held := PipeLock p # held s, pipes := ?ps\<rparr>)"
    using pipewrite_loop_room [OF bs(1,2), where ps = "pipes s" and p = p and n = "length bs" and k = 0 and env = env
        and h = "PipeLock p # held s"] ok bs(3) by simp
  then have "pipewrite env p src (int (length bs)) s
      = Ret (int (length bs)) (s\<lparr>pipes := ?ps, ptable := wake_table (ChanPipeRead p) (ptable s)\<rparr>)"
    using l by (simp add: pipewrite_def wakeup_eq)
  then show "\<exists>t. pipewrite env p src (int (length bs)) s = Ret (int (length bs)) t \<and> pipe_ok (pipes t p)
      \<and> pipe_contents (pipes t p) = pipe_contents (pipes s p) @ bs"
    using pipe_queue.puts_contents [OF ok bs(3)] by simp
next
  fix n r cs t
  assume ne: "pipe_contents (pipes s p) \<noteq> []" and rd: "piperead env p dst n s = Ret (r, cs) t"
  let ?s = "s\<lparr>held := PipeLock p # held s\<rparr>"
  have "piperead_turn env p ?s = Ret (Some True) ?s"
    using pipe_queue.empty_iff [OF ok] ne by (simp add: piperead_turn_def)
  then have "kretry (piperead_turn env p) ?s = Ret True ?s" by (rule kretry_done)
  with rd l obtain u v where u: "piperead_loop p dst 0 (nat n) ?s = Ret cs u" "wakeup (ChanPipeWrite p) u = Ret () v"
      "release (PipeLock p) v = Ret () t" "r = int (length cs)"
    by (auto simp: piperead_def kseq_eq_Ret kbind_eq_Ret)
  have "pipes t = pipes u" using u(2,3)
    by (auto simp: wakeup_def wakeup1_eq kseq_eq_Ret acquire_eq_Ret release_eq_Ret)
  then show "cs = take (nat n) (pipe_contents (pipes s p))" "r = int (length cs)" "pipe_ok (pipes t p)"
    "pipe_contents (pipes t p) = drop (nat n) (pipe_contents (pipes s p))"
    using piperead_loop_takes [of ?s p dst 0 "nat n" cs u] ok u(1,4) by simp_all
qed

theorem pipe_fifo_witness:
  "pipe_ok (pipes kernel_st 0) \<and> source_is (VarSrc [1, 2]) [1, 2] kernel_st
   \<and> (\<exists>t. pipewrite (\<lambda>_ s. s) 0 (VarSrc [1, 2]) 2 kernel_st = Ret 2 t \<and> pipe_contents (pipes t 0) = [1, 2])"
proof -
  have q: "pipes kernel_st 0 = free_pipe" by (simp add: kernel_st_def)
  have ok: "pipe_ok (pipes kernel_st 0)" "pipe_contents (pipes kernel_st 0) = []"
    by (simp_all add: q free_pipe_def pipe_ok_def pipe_contents_def)
  have src: "source_is (VarSrc [1, 2]) [1, 2] kernel_st"
    by (auto simp: source_is_def get_byte_def less_Suc_eq)
  have "(\<exists>t. pipewrite (\<lambda>_ s. s) 0 (VarSrc [1, 2]) (int (length [1, 2 :: u8])) kernel_st = Ret (int (length [1, 2 :: u8])) t
      \<and> pipe_ok (pipes t 0) \<and> pipe_contents (pipes t 0) = pipe_contents (pipes kernel_st 0) @ [1, 2])"
    by (rule conjunct1 [OF pipe_fifo [OF ok(1) _ _ src]]) (simp_all add: ok PIPESIZE_def)
  then show ?thesis using ok src by auto
qed

end
