(* ===== verification/Bio_Spec.thy ===== *)
theory Bio_Spec
  imports Log
begin

section \<open>The buffer cache as a view of the disk\<close>

text \<open>
  \<open>cache s V D W B\<close> says what the buffers of \<^verbatim>\<open>bio.c\<close> stand for: the disk holds \<open>D\<close>, the
  kernel sees \<open>V\<close>, the sectors of \<open>W\<close> are dirty and \<open>B\<close> gives the buffers that are held. The
  lemmas give \<open>bread\<close>, \<open>bwrite\<close> and \<open>brelse\<close> in these terms.
\<close>

subsection \<open>What the cache stands for\<close>

definition cache :: "'x bio_st_scheme \<Rightarrow> (u32 \<Rightarrow> block) \<Rightarrow> (u32 \<Rightarrow> block) \<Rightarrow> u32 set \<Rightarrow> (u32 \<Rightarrow> nat option) \<Rightarrow> bool" where
  "cache s V D W B \<longleftrightarrow>
     distinct (mru s) \<and> set (mru s) = {..<NBUF} \<and> disk s = D
     \<and> BcacheLock \<notin> set (held s) \<and> PtableLock \<notin> set (held s)
     \<and> (\<forall>b c. b < NBUF \<longrightarrow> c < NBUF \<longrightarrow> b_dev (bufs s b) = 1 \<longrightarrow> b_dev (bufs s c) = 1
          \<longrightarrow> b_sector (bufs s b) = b_sector (bufs s c) \<longrightarrow> b = c)
     \<and> (\<forall>b < NBUF. b_dev (bufs s b) = 1 \<longrightarrow> b_valid (bufs s b) \<and> b_data (bufs s b) = V (b_sector (bufs s b))
             \<and> (b_busy (bufs s b) \<longleftrightarrow> B (b_sector (bufs s b)) = Some b)
             \<and> (b_dirty (bufs s b) \<longleftrightarrow> b_sector (bufs s b) \<in> W))
     \<and> (\<forall>b < NBUF. b_dev (bufs s b) \<noteq> 1 \<longrightarrow> \<not> b_busy (bufs s b) \<and> \<not> b_dirty (bufs s b))
     \<and> (\<forall>sec b. B sec = Some b \<longrightarrow> b < NBUF \<and> b_dev (bufs s b) = 1 \<and> b_sector (bufs s b) = sec)
     \<and> (\<forall>sec \<in> W. \<exists>b < NBUF. b_dev (bufs s b) = 1 \<and> b_sector (bufs s b) = sec)
     \<and> (\<forall>sec. sec \<notin> W \<longrightarrow> B sec = None \<longrightarrow> V sec = D sec)"

text \<open>What no operation on buffers changes.\<close>

definition bio_frame :: "'x bio_st_scheme \<Rightarrow> 'x bio_st_scheme \<Rightarrow> bool" where
  "bio_frame s t \<longleftrightarrow> bio_st.more t = bio_st.more s \<and> disksize t = disksize s \<and> held t = held s"

lemma bio_frame_refl: "bio_frame s s"
  and bio_frame_trans: "bio_frame s t \<Longrightarrow> bio_frame t u \<Longrightarrow> bio_frame s u"
  by (simp_all add: bio_frame_def)

lemma cacheD:
  assumes "cache s V D W B"
  shows cache_mru: "distinct (mru s)" "set (mru s) = {..<NBUF}" and cache_disk: "disk s = D"
    and cache_locks: "BcacheLock \<notin> set (held s)" "PtableLock \<notin> set (held s)"
    and cache_unique: "\<And>b c. b < NBUF \<Longrightarrow> c < NBUF \<Longrightarrow> b_dev (bufs s b) = 1 \<Longrightarrow> b_dev (bufs s c) = 1
          \<Longrightarrow> b_sector (bufs s b) = b_sector (bufs s c) \<Longrightarrow> b = c"
    and cache_buf: "\<And>b. b < NBUF \<Longrightarrow> b_dev (bufs s b) = 1 \<Longrightarrow>
          b_valid (bufs s b) \<and> b_data (bufs s b) = V (b_sector (bufs s b))
             \<and> (b_busy (bufs s b) \<longleftrightarrow> B (b_sector (bufs s b)) = Some b)
             \<and> (b_dirty (bufs s b) \<longleftrightarrow> b_sector (bufs s b) \<in> W)"
    and cache_free: "\<And>b. b < NBUF \<Longrightarrow> b_dev (bufs s b) \<noteq> 1 \<Longrightarrow> \<not> b_busy (bufs s b) \<and> \<not> b_dirty (bufs s b)"
    and cache_busy: "\<And>sec b. B sec = Some b \<Longrightarrow> b < NBUF \<and> b_dev (bufs s b) = 1 \<and> b_sector (bufs s b) = sec"
    and cache_dirty: "\<And>sec. sec \<in> W \<Longrightarrow> \<exists>b < NBUF. b_dev (bufs s b) = 1 \<and> b_sector (bufs s b) = sec"
    and cache_view: "\<And>sec. sec \<notin> W \<Longrightarrow> B sec = None \<Longrightarrow> V sec = D sec"
  using assms unfolding cache_def by (elim conjE, assumption | blast)+

text \<open>Changing one buffer.\<close>

lemma cache_upd:
  assumes c: "cache s V D W B" and b: "b < NBUF"
    and q: "b_dev q = 1" "b_valid q" "b_data q = V' (b_sector q)" "b_busy q \<longleftrightarrow> B' (b_sector q) = Some b"
      "b_dirty q \<longleftrightarrow> b_sector q \<in> W'"
    and old: "b_dev (bufs s b) = 1 \<Longrightarrow> b_sector (bufs s b) \<noteq> b_sector q \<Longrightarrow>
        b_sector (bufs s b) \<notin> W \<and> B (b_sector (bufs s b)) = None"
    and new: "\<And>c. c < NBUF \<Longrightarrow> c \<noteq> b \<Longrightarrow> b_dev (bufs s c) = 1 \<Longrightarrow> b_sector (bufs s c) \<noteq> b_sector q"
    and same: "\<And>sec. sec \<noteq> b_sector q \<Longrightarrow> V' sec = V sec \<and> B' sec = B sec \<and> (sec \<in> W' \<longleftrightarrow> sec \<in> W) \<and> D' sec = D sec"
    and here: "b_sector q \<notin> W' \<Longrightarrow> B' (b_sector q) = None \<Longrightarrow> V' (b_sector q) = D' (b_sector q)"
    and here': "B' (b_sector q) = None \<or> B' (b_sector q) = Some b"
    and t: "bufs t = (bufs s)(b := q)" "disk t = D'" "mru t = mru s \<or> mru t = b # remove1 b (mru s)" "held t = held s"
  shows "cache t V' D' W' B'"
proof -
  note cs = cacheD [OF c]
  have m: "distinct (mru t)" "set (mru t) = {..<NBUF}"
  proof -
    have "set (remove1 b (mru s)) = {..<NBUF} - {b}" using set_remove1_eq [OF cs(1)] cs(2) by simp
    then have "distinct (b # remove1 b (mru s))" "set (b # remove1 b (mru s)) = {..<NBUF}"
      using cs(1) b by (simp_all add: insert_absorb)
    with t(3) cs(1,2) show "distinct (mru t)" "set (mru t) = {..<NBUF}" by metis+
  qed
  have u: "\<forall>i j. i < NBUF \<longrightarrow> j < NBUF \<longrightarrow> b_dev (bufs t i) = 1 \<longrightarrow> b_dev (bufs t j) = 1
          \<longrightarrow> b_sector (bufs t i) = b_sector (bufs t j) \<longrightarrow> i = j"
  proof (intro allI impI)
    fix i j
    assume a: "i < NBUF" "j < NBUF" "b_dev (bufs t i) = 1" "b_dev (bufs t j) = 1" "b_sector (bufs t i) = b_sector (bufs t j)"
    show "i = j"
    proof (cases "i = b"; cases "j = b")
      assume "i = b" "j \<noteq> b" then show ?thesis using a new [of j] by (simp add: t(1))
    next
      assume "i \<noteq> b" "j = b" then show ?thesis using a new [of i] by (simp add: t(1))
    next
      assume "i \<noteq> b" "j \<noteq> b" then show ?thesis using a cs(6) [of i j] by (simp add: t(1))
    qed simp
  qed
  have f: "(b_dev (bufs t i) = 1 \<longrightarrow> b_valid (bufs t i) \<and> b_data (bufs t i) = V' (b_sector (bufs t i))
             \<and> (b_busy (bufs t i) \<longleftrightarrow> B' (b_sector (bufs t i)) = Some i)
             \<and> (b_dirty (bufs t i) \<longleftrightarrow> b_sector (bufs t i) \<in> W'))
          \<and> (b_dev (bufs t i) \<noteq> 1 \<longrightarrow> \<not> b_busy (bufs t i) \<and> \<not> b_dirty (bufs t i))" if "i < NBUF" for i
  proof (cases "i = b")
    case True
    then show ?thesis using q by (simp add: t(1))
  next
    case False
    show ?thesis
    proof (cases "b_dev (bufs s i) = 1")
      case True
      then show ?thesis using False cs(7) [OF that True] same [OF new [OF that False True]] by (simp add: t(1))
    next
      case b1: False
      then show ?thesis using False cs(8) [OF that b1] by (simp add: t(1))
    qed
  qed
  have g: "i < NBUF \<and> b_dev (bufs t i) = 1 \<and> b_sector (bufs t i) = sec" if "B' sec = Some i" for sec i
  proof (cases "sec = b_sector q")
    case True
    then show ?thesis using that here' b q(1) by (simp add: t(1))
  next
    case False
    then have "B sec = Some i" using that same by metis
    then show ?thesis using cs(9) [of sec i] old False by (cases "i = b") (auto simp: t(1))
  qed
  have w: "\<exists>i < NBUF. b_dev (bufs t i) = 1 \<and> b_sector (bufs t i) = sec" if "sec \<in> W'" for sec
  proof (cases "sec = b_sector q")
    case True
    then show ?thesis using b q(1) by (intro exI [of _ b]) (simp add: t(1))
  next
    case False
    then have "sec \<in> W" using that same by blast
    then obtain i where "i < NBUF" "b_dev (bufs s i) = 1" "b_sector (bufs s i) = sec" using cs(10) by blast
    then show ?thesis using old False \<open>sec \<in> W\<close> by (intro exI [of _ i]) (auto simp: t(1))
  qed
  have v: "V' sec = D' sec" if "sec \<notin> W'" "B' sec = None" for sec
    using that here same [of sec] cs(11) [of sec] by (cases "sec = b_sector q") auto
  show ?thesis
    unfolding cache_def t(2,4) using m cs(4,5) u f g w v by (intro conjI allI impI ballI refl) blast+
qed



lemma find_SomeD: "find P xs = Some x \<Longrightarrow> x \<in> set xs \<and> P x"
  by (induction xs) (auto split: if_splits)

lemma cache_capacity:
  assumes c: "cache s V D W B" and card: "card (W \<union> dom B) < NBUF"
  shows "\<exists>b < NBUF. \<not> b_busy (bufs s b) \<and> \<not> b_dirty (bufs s b)"
proof (rule ccontr)
  assume "\<not> ?thesis"
  then have a: "b_busy (bufs s b) \<or> b_dirty (bufs s b)" if "b < NBUF" for b using that by blast
  have dev: "b_dev (bufs s b) = 1" if "b < NBUF" for b using a [OF that] cache_free [OF c that] by blast
  let ?f = "\<lambda>b. b_sector (bufs s b)"
  have "inj_on ?f {..<NBUF}" by (rule inj_onI) (use cache_unique [OF c] dev in blast)
  then have "card (?f ` {..<NBUF}) = NBUF" by (simp add: card_image)
  moreover have "?f ` {..<NBUF} \<subseteq> W \<union> dom B"
  proof
    fix sec assume "sec \<in> ?f ` {..<NBUF}"
    then obtain b where "b < NBUF" "sec = ?f b" by blast
    then show "sec \<in> W \<union> dom B" using a [of b] cache_buf [OF c _ dev, of b] by auto
  qed
  moreover have "finite (W \<union> dom B)"
  proof (rule finite_subset)
    show "W \<union> dom B \<subseteq> ?f ` {..<NBUF}"
      using cache_dirty [OF c] cache_busy [OF c] by (auto simp: image_iff dom_def)
  qed simp
  ultimately show False using card_mono [of "W \<union> dom B" "?f ` {..<NBUF}"] card by simp
qed

lemma bread_cached:
  assumes c: "cache s V D W B" and B: "B sec = None" and b: "b < NBUF" "b_dev (bufs s b) = 1" "b_sector (bufs s b) = sec"
  shows "bread env 1 sec s = Ret b (s\<lparr>held := held s, bufs := (bufs s)(b := (bufs s b)\<lparr>b_busy := True\<rparr>)\<rparr>)"
proof -
  let ?s = "s\<lparr>held := BcacheLock # held s\<rparr>"
  have "find (\<lambda>b. b_dev (bufs s b) = 1 \<and> b_sector (bufs s b) = sec) (mru s) = Some b"
  proof (cases "find (\<lambda>b. b_dev (bufs s b) = 1 \<and> b_sector (bufs s b) = sec) (mru s)")
    case None
    then show ?thesis using b cache_mru(2) [OF c] by (simp add: find_None_iff)
  next
    case (Some b')
    then have "b' < NBUF" "b_dev (bufs s b') = 1" "b_sector (bufs s b') = sec"
      using find_SomeD [OF Some] cache_mru(2) [OF c] by auto
    then show ?thesis using Some cache_unique [OF c, of b' b] b by simp
  qed
  moreover have "\<not> b_busy (bufs s b)" "b_valid (bufs s b)" using cache_buf [OF c b(1,2)] b(3) B by simp_all
  ultimately have "bget_turn env 1 sec ?s = Ret (Some b) (s\<lparr>held := held s, bufs := (bufs s)(b := (bufs s b)\<lparr>b_busy := True\<rparr>)\<rparr>)"
    by (simp add: bget_turn_def)
  then have "bget env 1 sec s = Ret b (s\<lparr>held := held s, bufs := (bufs s)(b := (bufs s b)\<lparr>b_busy := True\<rparr>)\<rparr>)"
    using cache_locks(1) [OF c] by (simp add: bget_def kretry_now)
  then show ?thesis using \<open>b_valid (bufs s b)\<close> by (simp add: bread_def)
qed

lemma iderw_read:
  assumes "b_busy (bufs s b)" "\<not> b_valid (bufs s b)" "\<not> b_dirty (bufs s b)" "b_dev (bufs s b) = 1"
    "b_sector (bufs s b) < disksize s"
  shows "iderw b s = Ret () (s\<lparr>bufs := (bufs s)(b := (bufs s b)\<lparr>b_data := disk s (b_sector (bufs s b)), b_valid := True\<rparr>)\<rparr>)"
proof -
  have "\<not> disksize s \<le> b_sector (bufs s b)" using assms(5) by simp
  with assms(1-4) show ?thesis by (simp add: iderw_def)
qed

lemma bread_recycles:
  assumes c: "cache s V D W B" and no: "\<And>b. b < NBUF \<Longrightarrow> b_dev (bufs s b) = 1 \<Longrightarrow> b_sector (bufs s b) \<noteq> sec"
    and free: "\<exists>b < NBUF. \<not> b_busy (bufs s b) \<and> \<not> b_dirty (bufs s b)" and sz: "sec < disksize s"
  shows "\<exists>b < NBUF. \<not> b_busy (bufs s b) \<and> \<not> b_dirty (bufs s b) \<and>
    bread env 1 sec s = Ret b (s\<lparr>held := held s, bufs := (bufs s)(b := (bufs s b)\<lparr>b_dev := 1, b_sector := sec,
       b_busy := True, b_dirty := False, b_data := D sec, b_valid := True\<rparr>)\<rparr>)"
proof -
  let ?s = "s\<lparr>held := BcacheLock # held s\<rparr>"
  have n: "find (\<lambda>b. b_dev (bufs s b) = 1 \<and> b_sector (bufs s b) = sec) (mru s) = None"
    using no cache_mru(2) [OF c] by (auto simp: find_None_iff)
  obtain b where f: "find (\<lambda>b. \<not> b_busy (bufs s b) \<and> \<not> b_dirty (bufs s b)) (rev (mru s)) = Some b"
  proof (cases "find (\<lambda>b. \<not> b_busy (bufs s b) \<and> \<not> b_dirty (bufs s b)) (rev (mru s))")
    case None
    then show ?thesis using free cache_mru(2) [OF c] by (auto simp: find_None_iff)
  qed
  from find_SomeD [OF f] have lt: "b < NBUF" and b: "\<not> b_busy (bufs s b)" "\<not> b_dirty (bufs s b)"
    using cache_mru(2) [OF c] by auto
  let ?q = "(bufs s b)\<lparr>b_dev := 1, b_sector := sec, b_busy := True, b_valid := False, b_dirty := False\<rparr>"
  have "bget_turn env 1 sec ?s = Ret (Some b) (s\<lparr>held := held s, bufs := (bufs s)(b := ?q)\<rparr>)"
    using n f by (simp add: bget_turn_def)
  then have "bget env 1 sec s = Ret b (s\<lparr>held := held s, bufs := (bufs s)(b := ?q)\<rparr>)"
    using cache_locks(1) [OF c] by (simp add: bget_def kretry_now)
  then have "bread env 1 sec s = Ret b (s\<lparr>held := held s, bufs := (bufs s)(b := (bufs s b)\<lparr>b_dev := 1, b_sector := sec,
       b_busy := True, b_dirty := False, b_data := D sec, b_valid := True\<rparr>)\<rparr>)"
    using sz cache_disk [OF c] by (simp add: bread_def iderw_read)
  then show ?thesis using lt b by blast
qed

lemma cache_other:
  assumes "cache s V D W B" "b < NBUF" "b_dev (bufs s b) = 1" "b_sector (bufs s b) = sec"
    and "c < NBUF" "c \<noteq> b" "b_dev (bufs s c) = 1"
  shows "b_sector (bufs s c) \<noteq> sec"
  using cache_unique [OF assms(1,5,2,7,3)] assms(4,6) by auto

lemma bread_cache:
  assumes c: "cache s V D W B" and B: "B sec = None" and sz: "sec < disksize s"
    and cap: "sec \<in> W \<or> card (W \<union> dom B) < NBUF"
  obtains b t where "bread env 1 sec s = Ret b t" "cache t V D W (B(sec := Some b))" "bio_frame s t"
    "disk_writes t = disk_writes s"
proof (cases "\<exists>b < NBUF. b_dev (bufs s b) = 1 \<and> b_sector (bufs s b) = sec")
  case True
  then obtain b where b: "b < NBUF" "b_dev (bufs s b) = 1" "b_sector (bufs s b) = sec" by blast
  let ?t = "s\<lparr>held := held s, bufs := (bufs s)(b := (bufs s b)\<lparr>b_busy := True\<rparr>)\<rparr>"
  have old: "b_valid (bufs s b)" "b_data (bufs s b) = V sec" "b_dirty (bufs s b) \<longleftrightarrow> sec \<in> W"
    using cache_buf [OF c b(1,2)] by (simp_all add: b(3))
  have "cache ?t V D W (B(sec := Some b))"
    by (rule cache_upd [OF c b(1), where q = "(bufs s b)\<lparr>b_busy := True\<rparr>"])
      (simp_all add: b old cache_disk [OF c] cache_other [OF c b])
  then show ?thesis using that bread_cached [OF c B b] by (simp add: bio_frame_def)
next
  case False
  then have no: "b_sector (bufs s b) \<noteq> sec" if "b < NBUF" "b_dev (bufs s b) = 1" for b using that by blast
  have w: "sec \<notin> W" using cache_dirty [OF c] False by blast
  then have free: "\<exists>b < NBUF. \<not> b_busy (bufs s b) \<and> \<not> b_dirty (bufs s b)" using cap cache_capacity [OF c] by blast
  obtain b where b: "b < NBUF" "\<not> b_busy (bufs s b)" "\<not> b_dirty (bufs s b)"
    and r: "bread env 1 sec s = Ret b (s\<lparr>held := held s, bufs := (bufs s)(b := (bufs s b)\<lparr>b_dev := 1, b_sector := sec,
       b_busy := True, b_dirty := False, b_data := D sec, b_valid := True\<rparr>)\<rparr>)"
    using bread_recycles [OF c no free sz] by blast
  let ?q = "(bufs s b)\<lparr>b_dev := 1, b_sector := sec, b_busy := True, b_dirty := False, b_data := D sec, b_valid := True\<rparr>"
  have "cache (s\<lparr>held := held s, bufs := (bufs s)(b := ?q)\<rparr>) V D W (B(sec := Some b))"
  proof (rule cache_upd [OF c b(1), where q = ?q])
    show "b_sector (bufs s b) \<notin> W \<and> B (b_sector (bufs s b)) = None"
      if d: "b_dev (bufs s b) = 1" "b_sector (bufs s b) \<noteq> b_sector ?q"
    proof -
      have "B (b_sector (bufs s b)) \<noteq> Some b" "b_sector (bufs s b) \<notin> W"
        using cache_buf [OF c b(1) d(1)] b by auto
      moreover have "B (b_sector (bufs s b)) = None \<or> B (b_sector (bufs s b)) = Some b"
        using cache_busy [OF c, of "b_sector (bufs s b)"] cache_unique [OF c _ b(1) _ d(1)] by (cases "B (b_sector (bufs s b))") auto
      ultimately show ?thesis by blast
    qed
  qed (simp_all add: w no cache_view [OF c w B] cache_disk [OF c])
  then show ?thesis using that r by (simp add: bio_frame_def)
qed

lemma upd_data_cache:
  assumes c: "cache s V D W B" and B: "B sec = Some b"
  obtains t where "upd_data b f s = Ret () t" "cache t (V(sec := f (V sec))) D W B" "bio_frame s t"
    "disk_writes t = disk_writes s"
proof -
  have b1: "b < NBUF" and b2: "b_dev (bufs s b) = 1" and b3: "b_sector (bufs s b) = sec"
    using cache_busy [OF c B] by simp_all
  note b = b1 b2 b3
  have old: "b_valid (bufs s b)" "b_data (bufs s b) = V sec" "b_busy (bufs s b)" "b_dirty (bufs s b) \<longleftrightarrow> sec \<in> W"
    using cache_buf [OF c b1 b2] B by (simp_all add: b3)
  let ?q = "(bufs s b)\<lparr>b_data := f (b_data (bufs s b))\<rparr>"
  have "cache (s\<lparr>bufs := (bufs s)(b := ?q)\<rparr>) (V(sec := f (V sec))) D W B"
    by (rule cache_upd [OF c, where q = ?q and b = b])
      (simp_all add: b old B cache_disk [OF c] cache_other [OF c b1 b2 b3])
  then show ?thesis using that by (simp add: bio_frame_def)
qed

lemma bwrite_cache:
  assumes c: "cache s V D W B" and B: "B sec = Some b" and sz: "sec < disksize s"
  obtains t where "bwrite b s = Ret () t" "cache t V (D(sec := V sec)) (W - {sec}) B" "bio_frame s t"
    "disk_writes t = (sec, V sec) # disk_writes s"
proof -
  have b1: "b < NBUF" and b2: "b_dev (bufs s b) = 1" and b3: "b_sector (bufs s b) = sec"
    using cache_busy [OF c B] by simp_all
  note b = b1 b2 b3
  have old: "b_valid (bufs s b)" "b_data (bufs s b) = V sec" "b_busy (bufs s b)" "b_dirty (bufs s b) \<longleftrightarrow> sec \<in> W"
    using cache_buf [OF c b1 b2] B by (simp_all add: b3)
  let ?q = "(bufs s b)\<lparr>b_dirty := False, b_valid := True\<rparr>"
  let ?t = "s\<lparr>bufs := (bufs s)(b := ?q), disk := D(sec := V sec), disk_writes := (sec, V sec) # disk_writes s\<rparr>"
  have "\<not> disksize s \<le> sec" using sz by simp
  then have r: "bwrite b s = Ret () ?t"
    using b old B cache_disk [OF c] by (simp add: bwrite_def iderw_def)
  have "cache ?t V (D(sec := V sec)) (W - {sec}) B"
    by (rule cache_upd [OF c, where q = ?q and b = b])
      (simp_all add: b old B cache_disk [OF c] cache_other [OF c b1 b2 b3])
  then show ?thesis using that r by (simp add: bio_frame_def)
qed

lemma brelse_cache:
  assumes c: "cache s V D W B" and B: "B sec = Some b" and v: "sec \<in> W \<or> V sec = D sec"
  obtains t where "brelse b s = Ret () t" "cache t V D W (B(sec := None))" "bio_frame s t"
    "disk_writes t = disk_writes s"
proof -
  have b1: "b < NBUF" and b2: "b_dev (bufs s b) = 1" and b3: "b_sector (bufs s b) = sec"
    using cache_busy [OF c B] by simp_all
  note b = b1 b2 b3
  have old: "b_valid (bufs s b)" "b_data (bufs s b) = V sec" "b_busy (bufs s b)" "b_dirty (bufs s b) \<longleftrightarrow> sec \<in> W"
    using cache_buf [OF c b1 b2] B by (simp_all add: b3)
  let ?q = "(bufs s b)\<lparr>b_busy := False\<rparr>"
  let ?t = "s\<lparr>held := held s, mru := b # remove1 b (mru s), bufs := (bufs s)(b := ?q),
     ptable := wake_table (ChanBuf b) (ptable s)\<rparr>"
  have r: "brelse b s = Ret () ?t"
    using b old B cache_locks [OF c] by (simp add: brelse_def wakeup_eq)
  have "cache ?t V D W (B(sec := None))"
    by (rule cache_upd [OF c, where q = ?q and b = b])
      (use v in \<open>auto simp: b old B cache_disk [OF c] cache_other [OF c b1 b2 b3]\<close>)
  then show ?thesis using that r by (simp add: bio_frame_def)
qed

lemma log_more:
  fixes s t :: "'x log_st_scheme"
  assumes "bio_frame s t"
  shows "log_start t = log_start s" "log_size t = log_size s" "log_busy t = log_busy s" "log_dev t = log_dev s"
    "lh_n t = lh_n s" "lh_sector t = lh_sector s" "disksize t = disksize s" "held t = held s"
  using assms by (cases s; cases t; simp add: bio_frame_def)+

end
