(* ===== verification/Log_Crash.thy ===== *)
theory Log_Crash
  imports Bio_Spec Ptable
begin

section \<open>The log across crashes\<close>

text \<open>
  The order in which \<open>commit_trans\<close> writes the disk, what \<open>recover_from_log\<close> does with a disk
  that a crash left behind, and that the two together make a commit atomic.
\<close>

subsection \<open>The header block\<close>

abbreviation no_busy :: "u32 \<Rightarrow> nat option" where "no_busy \<equiv> \<lambda>_. None"

definition header :: "int \<Rightarrow> u32 list \<Rightarrow> block \<Rightarrow> block" where
  "header n secs d = foldl (\<lambda>d i. wr32 d (4 + 4 * i) (secs ! i)) (wr32 d 0 (of_int n)) [0..<nat n]"

lemma header_upto:
  "rd32 (foldl (\<lambda>d i. wr32 d (4 + 4 * i) (secs ! i)) d [0..<n]) 0 = rd32 d 0"
  "i < n \<Longrightarrow> rd32 (foldl (\<lambda>d i. wr32 d (4 + 4 * i) (secs ! i)) d [0..<n]) (4 + 4 * i) = secs ! i"
proof (induction n)
  case (Suc n)
  { case 1 then show ?case using Suc by (simp add: rd32_wr32_other) }
  { case 2
    show ?case
    proof (cases "i = n")
      case False
      then have "4 + 4 * i + 4 \<le> 4 + 4 * n" using 2 by simp
      with False 2 Suc(2) show ?thesis by (simp add: rd32_wr32_other)
    qed simp }
qed simp_all

lemma header_fields:
  "rd32 (header n secs d) 0 = of_int n"
  "i < nat n \<Longrightarrow> rd32 (header n secs d) (4 + 4 * i) = secs ! i"
  by (simp_all add: header_def header_upto)

lemma kfor_upd_data:
  "kfor is (\<lambda>i. upd_data b (f i)) s = upd_data b (\<lambda>d. foldl (\<lambda>d i. f i d) d is) s"
  by (induction "is" arbitrary: s) simp_all

lemma write_head_cache:
  assumes c: "cache s V D W no_busy" and dev: "log_dev s = 1" and sz: "log_start s < disksize s"
    and cap: "card W < NBUF" and st: "log_start s \<notin> W"
  obtains t where "write_head env s = Ret () t"
    "cache t (V(log_start s := header (lh_n s) (lh_sector s) (V (log_start s))))
       (D(log_start s := header (lh_n s) (lh_sector s) (V (log_start s)))) W no_busy"
    "bio_frame s t" "disk_writes t = (log_start s, header (lh_n s) (lh_sector s) (V (log_start s))) # disk_writes s"
proof -
  let ?a = "log_start s" and ?n = "lh_n s" and ?secs = "lh_sector s"
  obtain b s1 where s1: "bread env 1 ?a s = Ret b s1" "cache s1 V D W (no_busy(?a := Some b))" "bio_frame s s1"
    "disk_writes s1 = disk_writes s"
    by (rule bread_cache [OF c _ sz]) (use cap in simp_all)
  note l1 = log_more [OF s1(3)]
  let ?B = "no_busy(?a := Some b)"
  obtain s2 where s2: "upd_data b (header ?n ?secs) s1 = Ret () s2"
    "cache s2 (V(?a := header ?n ?secs (V ?a))) D W ?B" "bio_frame s1 s2" "disk_writes s2 = disk_writes s1"
    by (rule upd_data_cache [OF s1(2), of ?a b "header ?n ?secs"]) simp_all
  note l2 = log_more [OF s2(3)]
  obtain s3 where s3: "bwrite b s2 = Ret () s3"
    "cache s3 (V(?a := header ?n ?secs (V ?a))) (D(?a := header ?n ?secs (V ?a))) (W - {?a}) ?B" "bio_frame s2 s3"
    "disk_writes s3 = (?a, header ?n ?secs (V ?a)) # disk_writes s2"
    by (rule bwrite_cache [OF s2(2), of ?a b]) (use sz l1 l2 in simp_all)
  obtain s4 where s4: "brelse b s3 = Ret () s4"
    "cache s4 (V(?a := header ?n ?secs (V ?a))) (D(?a := header ?n ?secs (V ?a))) (W - {?a}) (?B(?a := None))" "bio_frame s3 s4"
    "disk_writes s4 = disk_writes s3"
    by (rule brelse_cache [OF s3(2), of ?a b]) simp_all
  have comb: "kseq (upd_data b (\<lambda>d. wr32 d 0 (of_int ?n)))
      (kseq (kfor [0..<nat ?n] (\<lambda>i. upd_data b (\<lambda>d. wr32 d (4 + 4 * i) (?secs ! i)))) m) s1
    = kseq (upd_data b (header ?n ?secs)) m s1" for m :: "('a log_st_scheme, unit) kern"
    by (simp add: kfor_upd_data header_def)
  have "write_head env s = Ret () s4"
    unfolding write_head_def using s1(1) s2(1) s3(1) s4(1) by (simp add: dev l1 comb del: upd_data_apply)
  moreover have "?B(?a := None) = no_busy" by auto
  moreover have "W - {?a} = W" using st by simp
  moreover have "bio_frame s s4" using bio_frame_trans s1(3) s2(3) s3(3) s4(3) by metis
  ultimately show ?thesis using that s4(2,4) s3(4) s2(4) s1(4) by simp
qed


subsection \<open>Installing a transaction\<close>

definition apply_writes :: "(u32 \<Rightarrow> block) \<Rightarrow> (u32 \<times> block) list \<Rightarrow> u32 \<Rightarrow> block" where
  "apply_writes D ws = foldl (\<lambda>D w. D(fst w := snd w)) D ws"

lemma apply_writes_simps [simp]:
  "apply_writes D [] = D" "apply_writes D (w # ws) = apply_writes (D(fst w := snd w)) ws"
  "apply_writes D (ws @ vs) = apply_writes (apply_writes D ws) vs"
  by (simp_all add: apply_writes_def)

lemma apply_writes_map_of: "apply_writes D ws a = (case map_of (rev ws) a of None \<Rightarrow> D a | Some b \<Rightarrow> b)"
  by (induction ws arbitrary: D) (auto simp: map_add_def split: option.splits)

lemma apply_writes_other: "a \<notin> fst ` set ws \<Longrightarrow> apply_writes D ws a = D a"
  by (induction ws arbitrary: D) auto

lemma apply_writes_again:
  assumes "fst ` set vs \<subseteq> fst ` set ws" "a \<notin> fst ` set ws \<Longrightarrow> D a = D' a"
  shows "apply_writes (apply_writes D vs) ws a = apply_writes D' ws a"
proof (cases "a \<in> fst ` set ws")
  case True
  then have "a \<in> fst ` set (rev ws)" by simp
  then obtain b where "map_of (rev ws) a = Some b" by (metis map_of_eq_None_iff not_None_eq)
  then show ?thesis by (simp add: apply_writes_map_of)
next
  case False
  then have "a \<notin> fst ` set vs" using assms(1) by blast
  with False assms(2) show ?thesis by (simp add: apply_writes_other)
qed

definition log_block :: "u32 \<Rightarrow> nat \<Rightarrow> u32" where
  "log_block start i = start + of_nat i + 1"

text \<open>The writes that install the first \<open>n\<close> blocks of the log on disk \<open>D\<close>.\<close>

definition install_writes :: "u32 \<Rightarrow> u32 list \<Rightarrow> (u32 \<Rightarrow> block) \<Rightarrow> nat \<Rightarrow> (u32 \<times> block) list" where
  "install_writes start secs D n = map (\<lambda>i. (secs ! i, D (log_block start i))) [0..<n]"

lemma install_writes_Suc:
  "install_writes start secs D (Suc n) = install_writes start secs D n @ [(secs ! n, D (log_block start n))]"
  by (simp add: install_writes_def)

lemma fst_install_writes: "fst ` set (install_writes start secs D n) = (\<lambda>i. secs ! i) ` {..<n}"
  by (simp add: install_writes_def image_image atLeast0LessThan)

text \<open>
  A log that can be installed: its entries are sectors of the disk outside of the log, and
  the log is on the disk.
\<close>

definition log_shape :: "u32 \<Rightarrow> u32 list \<Rightarrow> nat \<Rightarrow> u32 \<Rightarrow> bool" where
  "log_shape start secs n sz \<longleftrightarrow> n < LOGSIZE \<and> length secs = LOGSIZE \<and> start < sz
     \<and> (\<forall>i < n. log_block start i < sz \<and> log_block start i \<noteq> start \<and> secs ! i < sz \<and> secs ! i \<noteq> start
          \<and> (\<forall>j < n. secs ! i \<noteq> log_block start j))"

definition install_step :: "'x log_st_scheme env \<Rightarrow> nat \<Rightarrow> ('x log_st_scheme, unit) kern" where
  "install_step env tail =
     kbind (kget log_dev) (\<lambda>dev. kbind (kget log_start) (\<lambda>start.
     kbind (bread env dev (start + of_nat tail + 1)) (\<lambda>lbuf.
     kbind (kget (\<lambda>s. lh_sector s ! tail)) (\<lambda>sec.
     kbind (bread env dev sec) (\<lambda>dbuf.
     kbind (bdata lbuf) (\<lambda>d.
     kseq (upd_data dbuf (\<lambda>_. d))
    (kseq (bwrite dbuf)
    (kseq (brelse lbuf) (brelse dbuf)))))))))"

lemma install_trans_steps: "install_trans env = kbind (kget lh_n) (\<lambda>n. kfor [0..<nat n] (install_step env))"
  by (simp add: install_trans_def install_step_def [abs_def])

lemma install_step_cache:
  assumes c: "cache s V D W no_busy" and dev: "log_dev s = 1"
    and l: "ls = log_block (log_start s) i" "ls < disksize s" "ls \<notin> W"
    and sec: "sec = lh_sector s ! i" "sec < disksize s" "sec \<noteq> ls"
    and cap: "card W < NBUF" "sec \<in> W \<or> card (insert ls W) < NBUF"
  obtains t where "install_step env i s = Ret () t" "cache t (V(sec := V ls)) (D(sec := V ls)) (W - {sec}) no_busy"
    "bio_frame s t" "disk_writes t = (sec, V ls) # disk_writes s"
proof -
  obtain lb s1 where s1: "bread env 1 ls s = Ret lb s1" "cache s1 V D W (no_busy(ls := Some lb))" "bio_frame s s1"
    "disk_writes s1 = disk_writes s"
    by (rule bread_cache [OF c _ l(2)]) (use cap in simp_all)
  note l1 = log_more [OF s1(3)]
  let ?B1 = "no_busy(ls := Some lb)"
  obtain db s2 where s2: "bread env 1 sec s1 = Ret db s2" "cache s2 V D W (?B1(sec := Some db))" "bio_frame s1 s2"
    "disk_writes s2 = disk_writes s1"
    by (rule bread_cache [OF s1(2), of sec]) (use sec cap l1 in simp_all)
  note l2 = log_more [OF s2(3)]
  let ?B2 = "?B1(sec := Some db)"
  have "lb < NBUF" "b_dev (bufs s2 lb) = 1" "b_sector (bufs s2 lb) = ls"
    using cache_busy [OF s2(2), of ls lb] sec(3) by auto
  then have d: "b_data (bufs s2 lb) = V ls" using cache_buf [OF s2(2), of lb] by simp
  obtain s3 where s3: "upd_data db (\<lambda>_. V ls) s2 = Ret () s3" "cache s3 (V(sec := V ls)) D W ?B2" "bio_frame s2 s3"
    "disk_writes s3 = disk_writes s2"
    by (rule upd_data_cache [OF s2(2), of sec db "\<lambda>_. V ls"]) simp_all
  note l3 = log_more [OF s3(3)]
  obtain s4 where s4: "bwrite db s3 = Ret () s4" "cache s4 (V(sec := V ls)) (D(sec := V ls)) (W - {sec}) ?B2"
    "bio_frame s3 s4" "disk_writes s4 = (sec, V ls) # disk_writes s3"
    by (rule bwrite_cache [OF s3(2), of sec db]) (use sec l1 l2 l3 in simp_all)
  have v: "V ls = D ls" using cache_view [OF c l(3)] by simp
  obtain s5 where s5: "brelse lb s4 = Ret () s5"
    "cache s5 (V(sec := V ls)) (D(sec := V ls)) (W - {sec}) (?B2(ls := None))" "bio_frame s4 s5" "disk_writes s5 = disk_writes s4"
    by (rule brelse_cache [OF s4(2), of ls lb]) (use sec(3) v in simp_all)
  obtain s6 where s6: "brelse db s5 = Ret () s6"
    "cache s6 (V(sec := V ls)) (D(sec := V ls)) (W - {sec}) (?B2(ls := None, sec := None))" "bio_frame s5 s6"
    "disk_writes s6 = disk_writes s5"
    by (rule brelse_cache [OF s5(2), of sec db]) (use sec(3) in simp_all)
  have "bread env 1 (log_start s + of_nat i + 1) s = Ret lb s1" using s1(1) l(1) by (simp add: log_block_def)
  then have "install_step env i s = Ret () s6"
    unfolding install_step_def using s2(1) s3(1) s4(1) s5(1) s6(1)
    by (simp add: dev l1 d sec(1) del: upd_data_apply)
  moreover have "?B2(ls := None, sec := None) = no_busy" by auto
  moreover have "bio_frame s s6" using bio_frame_trans s1(3) s2(3) s3(3) s4(3) s5(3) s6(3) by metis
  ultimately show ?thesis using that s6(2,4) s5(4) s4(4) s3(4) s2(4) s1(4) by simp
qed

lemma install_upto_cache:
  assumes c: "cache s V D W no_busy" and dev: "log_dev s = 1"
    and shape: "log_shape (log_start s) (lh_sector s) n (disksize s)"
    and W: "W = {} \<or> W = (\<lambda>i. lh_sector s ! i) ` {..<n}" and k: "k \<le> n"
  shows "\<exists>t W'. kfor [0..<k] (install_step env) s = Ret () t
    \<and> cache t (apply_writes V (install_writes (log_start s) (lh_sector s) V k))
        (apply_writes D (install_writes (log_start s) (lh_sector s) V k)) W' no_busy
    \<and> bio_frame s t \<and> disk_writes t = rev (install_writes (log_start s) (lh_sector s) V k) @ disk_writes s
    \<and> W' = W - (\<lambda>i. lh_sector s ! i) ` {..<k}"
  using k
proof (induction k)
  case 0
  then show ?case using c by (simp add: install_writes_def bio_frame_refl)
next
  case (Suc k)
  let ?st = "log_start s" and ?secs = "lh_sector s"
  let ?ws = "install_writes ?st ?secs V k"
  from Suc obtain t where t: "kfor [0..<k] (install_step env) s = Ret () t"
    "cache t (apply_writes V ?ws) (apply_writes D ?ws) (W - (\<lambda>i. ?secs ! i) ` {..<k}) no_busy" "bio_frame s t"
    "disk_writes t = rev ?ws @ disk_writes s" by auto
  note lt = log_more [OF t(3)]
  have kn: "k < n" using Suc.prems by simp
  have sh: "log_block ?st k < disksize s" "?secs ! k < disksize s" "?secs ! i \<noteq> log_block ?st k" if "i < n" for i
    using shape kn that unfolding log_shape_def by blast+
  have nn: "n < NBUF" using shape by (simp add: log_shape_def LOGSIZE_def NBUF_def)
  have cardW: "card W \<le> n" "finite W"
    using W card_image_le [of "{..<n}" "\<lambda>i. ?secs ! i"] by auto
  have lsW: "log_block ?st k \<notin> W" using W sh(3) by force
  have cap: "?secs ! k \<in> W - (\<lambda>i. ?secs ! i) ` {..<k} \<or> card (insert (log_block ?st k) (W - (\<lambda>i. ?secs ! i) ` {..<k})) < NBUF"
  proof (cases "W = {}")
    case True
    then show ?thesis by (simp add: NBUF_def)
  next
    case False
    then have W': "W = (\<lambda>i. ?secs ! i) ` {..<n}" using W by simp
    show ?thesis
    proof (cases "?secs ! k \<in> (\<lambda>i. ?secs ! i) ` {..<k}")
      case False
      then show ?thesis using W' kn by blast
    next
      case True
      then have "?secs ! k \<in> W" "?secs ! k \<in> (\<lambda>i. ?secs ! i) ` {..<k}" using W' kn by auto
      then have "card (W - (\<lambda>i. ?secs ! i) ` {..<k}) < card W"
        using cardW(2) by (intro psubset_card_mono) auto
      then have "card (insert (log_block ?st k) (W - (\<lambda>i. ?secs ! i) ` {..<k})) \<le> n"
        using cardW card_insert_le_m1 [of n] by (simp add: card_insert_if)
      then show ?thesis using nn by simp
    qed
  qed
  have vl: "apply_writes V ?ws (log_block ?st k) = V (log_block ?st k)"
  proof (rule apply_writes_other, rule notI)
    assume "log_block ?st k \<in> fst ` set ?ws"
    then obtain i where "i < k" "log_block ?st k = ?secs ! i" by (auto simp: fst_install_writes)
    then show False using sh(3) [of i] kn by simp
  qed
  have cW: "card (W - (\<lambda>i. ?secs ! i) ` {..<k}) < NBUF"
    using card_mono [of W "W - (\<lambda>i. ?secs ! i) ` {..<k}"] cardW nn by simp
  have p: "log_dev t = 1" "log_block ?st k = log_block (log_start t) k" "log_block ?st k < disksize t"
    "log_block ?st k \<notin> W - (\<lambda>i. ?secs ! i) ` {..<k}" "?secs ! k = lh_sector t ! k" "?secs ! k < disksize t"
    "?secs ! k \<noteq> log_block ?st k"
    using lt dev sh kn lsW by simp_all
  obtain u where u: "install_step env k t = Ret () u"
    "cache u ((apply_writes V ?ws)(?secs ! k := apply_writes V ?ws (log_block ?st k)))
       ((apply_writes D ?ws)(?secs ! k := apply_writes V ?ws (log_block ?st k)))
       (W - (\<lambda>i. ?secs ! i) ` {..<k} - {?secs ! k}) no_busy"
    "bio_frame t u" "disk_writes u = (?secs ! k, apply_writes V ?ws (log_block ?st k)) # disk_writes t"
    by (rule install_step_cache [OF t(2) p cW cap that])
  have "W - (\<lambda>i. ?secs ! i) ` {..<k} - {?secs ! k} = W - (\<lambda>i. ?secs ! i) ` {..<Suc k}"
    by (auto simp: lessThan_Suc)
  then show ?case
    using t(1,4) u vl bio_frame_trans [OF t(3) u(3)]
    by (simp add: kfor_append install_writes_Suc fun_upd_def)
qed



subsection \<open>Commit\<close>

lemma cache_log_fields [simp]:
  "cache (s\<lparr>lh_n := n\<rparr>) V D W B = cache s V D W B" "cache (s\<lparr>lh_sector := secs\<rparr>) V D W B = cache s V D W B"
  "cache (s\<lparr>log_busy := x\<rparr>) V D W B = cache s V D W B"
  for s :: "'x log_st_scheme"
  by (simp_all add: cache_def)

text \<open>
  A transaction that is ready to commit: the log blocks are on the disk, the blocks they are
  for are the dirty ones in the cache, with the same content, and the header on the disk
  still says that the log is empty.
\<close>

definition log_ready :: "'x log_st_scheme \<Rightarrow> nat \<Rightarrow> bool" where
  "log_ready s n \<longleftrightarrow> lh_n s = int n \<and> 0 < n \<and> log_dev s = 1 \<and> LogLock \<notin> set (held s)
     \<and> log_shape (log_start s) (lh_sector s) n (disksize s)
     \<and> rd32 (disk s (log_start s)) 0 = 0
     \<and> cache s (apply_writes (disk s) (install_writes (log_start s) (lh_sector s) (disk s) n)) (disk s)
         ((\<lambda>i. lh_sector s ! i) ` {..<n}) no_busy"

text \<open>The writes of a commit: the header, the blocks, and the empty header.\<close>

definition commit_writes :: "'x log_st_scheme \<Rightarrow> nat \<Rightarrow> (u32 \<times> block) list" where
  "commit_writes s n =
     (let h = header (int n) (lh_sector s) (disk s (log_start s)) in
      (log_start s, h) # install_writes (log_start s) (lh_sector s) (disk s) n
        @ [(log_start s, header 0 (lh_sector s) h)])"

lemma install_writes_cong:
  "(\<And>i. i < n \<Longrightarrow> D (log_block a i) = D' (log_block a i)) \<Longrightarrow> install_writes a secs D n = install_writes a secs D' n"
  by (simp add: install_writes_def)

lemma commit_trans_writes:
  assumes r: "log_ready s n"
  shows "\<exists>t. commit_trans env s = Ret () t \<and> disk_writes t = rev (commit_writes s n) @ disk_writes s
    \<and> disk t = apply_writes (disk s) (commit_writes s n) \<and> \<not> log_busy t \<and> lh_n t = 0"
proof -
  let ?st = "log_start s" and ?secs = "lh_sector s" and ?D = "disk s"
  let ?W = "(\<lambda>i. ?secs ! i) ` {..<n}"
  let ?ws = "install_writes ?st ?secs ?D n"
  let ?V = "apply_writes ?D ?ws"
  let ?h = "header (int n) ?secs (?D ?st)"
  note r' = r [unfolded log_ready_def]
  have c: "cache s ?V ?D ?W no_busy" and n: "lh_n s = int n" "0 < n" and dev: "log_dev s = 1"
    and lk: "LogLock \<notin> set (held s)" and sh: "log_shape ?st ?secs n (disksize s)"
    using r' by blast+
  have shi: "?secs ! i \<noteq> ?st" "log_block ?st i \<noteq> ?st" "\<forall>j < n. ?secs ! i \<noteq> log_block ?st j" if "i < n" for i
    using sh that unfolding log_shape_def by blast+
  have stW: "?st \<notin> ?W" using shi(1) by force
  have "card ?W \<le> n" using card_image_le [of "{..<n}" "\<lambda>i. ?secs ! i"] by simp
  moreover have nn: "n < NBUF" "?st < disksize s" using sh by (simp_all add: log_shape_def LOGSIZE_def NBUF_def)
  ultimately have cap: "card ?W < NBUF" by simp
  have fw: "fst ` set ?ws = ?W" by (rule fst_install_writes)
  have vst: "?V ?st = ?D ?st" by (rule apply_writes_other) (use stW fw in simp)
  have vlb: "?V (log_block ?st i) = ?D (log_block ?st i)" if "i < n" for i
    by (rule apply_writes_other) (use shi(3) that fw in force)
  obtain s1 where s1: "write_head env s = Ret () s1" "cache s1 (?V(?st := ?h)) (?D(?st := ?h)) ?W no_busy"
    "bio_frame s s1" "disk_writes s1 = (?st, ?h) # disk_writes s"
    by (rule write_head_cache [OF c dev nn(2) cap stW, of env, unfolded n(1) vst, OF that])
  note l1 = log_more [OF s1(3)]
  have iw: "install_writes ?st ?secs (?V(?st := ?h)) n = ?ws"
    by (rule install_writes_cong) (use shi(2) vlb in simp)
  obtain s2 where s2: "kfor [0..<n] (install_step env) s1 = Ret () s2"
    "cache s2 (apply_writes (?V(?st := ?h)) ?ws) (apply_writes (?D(?st := ?h)) ?ws) {} no_busy" "bio_frame s1 s2"
    "disk_writes s2 = rev ?ws @ disk_writes s1"
    using install_upto_cache [OF s1(2), of n n env] dev sh l1 iw by auto
  note l2 = log_more [OF s2(3)]
  let ?s3 = "s2\<lparr>lh_n := 0\<rparr>"
  have v2: "apply_writes (?V(?st := ?h)) ?ws ?st = ?h" by (subst apply_writes_other) (use stW fw in simp_all)
  have c3: "cache ?s3 (apply_writes (?V(?st := ?h)) ?ws) (apply_writes (?D(?st := ?h)) ?ws) {} no_busy" using s2(2) by simp
  let ?he = "header 0 ?secs ?h"
  have e: "log_start ?s3 = ?st" "lh_n ?s3 = 0" "lh_sector ?s3 = ?secs" "log_dev ?s3 = 1" "disksize ?s3 = disksize s"
    "disk_writes ?s3 = disk_writes s2"
    by (simp_all add: l1 l2 dev)
  note w = write_head_cache [OF c3, of env, unfolded e v2]
  obtain s4 where s4: "write_head env ?s3 = Ret () s4"
    "cache s4 ((apply_writes (?V(?st := ?h)) ?ws)(?st := ?he)) ((apply_writes (?D(?st := ?h)) ?ws)(?st := ?he)) {} no_busy"
    "bio_frame ?s3 s4" "disk_writes s4 = (?st, ?he) # disk_writes s2"
    by (rule w [OF refl nn(2) _ _ that]) (simp_all add: NBUF_def)
  note l4 = log_more [OF s4(3)]
  let ?t = "s4\<lparr>held := held s4, log_busy := False, ptable := wake_table ChanLog (ptable s4)\<rparr>"
  have it: "install_trans env s1 = Ret () s2" using s2(1) l1 n by (simp add: install_trans_steps)
  have lk4: "LogLock \<notin> set (held s4)" "PtableLock \<notin> set (held s4)"
    using lk l1 l2 l4 cache_locks(2) [OF s4(2)] by simp_all
  have "commit_trans env s = Ret () ?t"
    unfolding commit_trans_def using n s1(1) it s4(1) lk4 by (simp add: wakeup_eq)
  moreover have "disk s4 = (apply_writes (?D(?st := ?h)) ?ws)(?st := ?he)" by (rule cache_disk [OF s4(2)])
  ultimately show ?thesis
    using s1(4) s2(4) s4(4) l4(5) by (simp add: commit_writes_def Let_def)
qed


subsection \<open>Recovery\<close>

lemma kfor_lh_sector:
  "kfor [0..<m] (\<lambda>i. kmod (\<lambda>s. s\<lparr>lh_sector := (lh_sector s)[i := g i]\<rparr>)) s
     = Ret () (s\<lparr>lh_sector := foldl (\<lambda>l i. l[i := g i]) (lh_sector s) [0..<m]\<rparr>)"
  for s :: "'x log_st_scheme"
  by (induction m) (simp_all add: kfor_append)

lemma length_foldl_update [simp]: "length (foldl (\<lambda>l i. l[i := g i]) l [0..<m]) = length l"
  by (induction m) simp_all

lemma nth_foldl_update: "i < m \<Longrightarrow> m \<le> length l \<Longrightarrow> foldl (\<lambda>l i. l[i := g i]) l [0..<m] ! i = g i"
  by (induction m) (auto simp: nth_list_update)

lemma read_head_cache:
  assumes c: "cache s V D {} no_busy" and dev: "log_dev s = 1" and sz: "log_start s < disksize s"
    and n: "sint (rd32 (V (log_start s)) 0) = int n" "n \<le> LOGSIZE" and l: "length (lh_sector s) = LOGSIZE"
  obtains t where "read_head env s = Ret () t" "cache t V D {} no_busy" "lh_n t = int n"
    "\<And>i. i < n \<Longrightarrow> lh_sector t ! i = rd32 (V (log_start s)) (4 + 4 * i)" "length (lh_sector t) = LOGSIZE"
    "log_start t = log_start s" "log_dev t = 1" "disksize t = disksize s"
proof -
  let ?a = "log_start s" and ?d = "V (log_start s)"
  obtain b s1 where s1: "bread env 1 ?a s = Ret b s1" "cache s1 V D {} (no_busy(?a := Some b))" "bio_frame s s1"
    by (rule bread_cache [OF c _ sz]) (simp_all add: NBUF_def)
  note l1 = log_more [OF s1(3)]
  have "b < NBUF" "b_dev (bufs s1 b) = 1" "b_sector (bufs s1 b) = ?a"
    using cache_busy [OF s1(2), of ?a b] by auto
  then have d: "b_data (bufs s1 b) = ?d" using cache_buf [OF s1(2), of b] by simp
  let ?secs = "foldl (\<lambda>l i. l[i := rd32 ?d (4 + 4 * i)]) (lh_sector s) [0..<n]"
  let ?s2 = "s1\<lparr>lh_n := int n, lh_sector := ?secs\<rparr>"
  have c2: "cache ?s2 V D {} (no_busy(?a := Some b))" using s1(2) by simp
  have v: "?a \<in> {} \<or> V ?a = D ?a" using cache_view [OF c] by simp
  have B: "(no_busy(?a := Some b)) ?a = Some b" by simp
  obtain t where t: "brelse b ?s2 = Ret () t" "cache t V D {} (no_busy(?a := Some b, ?a := None))" "bio_frame ?s2 t"
    by (rule brelse_cache [OF c2 B v]) blast
  note lt = log_more [OF t(3)]
  have "read_head env s = Ret () t"
    unfolding read_head_def using s1(1) t(1) n by (simp add: dev d Let_def kfor_lh_sector l1)
  moreover have "no_busy(?a := Some b, ?a := None) = no_busy" by auto
  moreover have "lh_sector t ! i = rd32 ?d (4 + 4 * i)" if "i < n" for i
  proof -
    have "?secs ! i = rd32 ?d (4 + 4 * i)" by (rule nth_foldl_update [OF that]) (use n(2) l in simp)
    then show ?thesis using lt(6) by simp
  qed
  ultimately show ?thesis using that t(2) lt l1 l dev by simp
qed

lemma recover_installs:
  assumes c: "cache s D D {} no_busy" and dev: "log_dev s = 1" and l: "length (lh_sector s) = LOGSIZE"
    and n: "sint (rd32 (D (log_start s)) 0) = int n"
    and secs: "\<And>i. i < n \<Longrightarrow> secs ! i = rd32 (D (log_start s)) (4 + 4 * i)"
    and sh: "log_shape (log_start s) secs n (disksize s)"
  shows "\<exists>t. recover_from_log env s = Ret () t
    \<and> (\<forall>a. a = log_start s \<or> disk t a = apply_writes D (install_writes (log_start s) secs D n) a)"
proof -
  let ?st = "log_start s"
  have nL: "n \<le> LOGSIZE" "?st < disksize s" using sh by (simp_all add: log_shape_def)
  obtain s1 where s1: "read_head env s = Ret () s1" "cache s1 D D {} no_busy" "lh_n s1 = int n"
    "\<And>i. i < n \<Longrightarrow> lh_sector s1 ! i = rd32 (D ?st) (4 + 4 * i)" "length (lh_sector s1) = LOGSIZE"
    "log_start s1 = ?st" "log_dev s1 = 1" "disksize s1 = disksize s"
    by (rule read_head_cache [OF c dev nL(2) n nL(1) l]) blast
  have same: "lh_sector s1 ! i = secs ! i" if "i < n" for i using s1(4) secs that by simp
  have iw: "install_writes ?st (lh_sector s1) D n = install_writes ?st secs D n"
    using same by (simp add: install_writes_def)
  have sh1: "log_shape (log_start s1) (lh_sector s1) n (disksize s1)"
    using sh same s1(5,6,8) by (simp add: log_shape_def)
  obtain s2 where s2: "kfor [0..<n] (install_step env) s1 = Ret () s2"
    "cache s2 (apply_writes D (install_writes ?st secs D n)) (apply_writes D (install_writes ?st secs D n)) {} no_busy"
    "bio_frame s1 s2"
    using install_upto_cache [OF s1(2,7) sh1, of n env] iw s1(6) by auto
  note l2 = log_more [OF s2(3)]
  have it: "install_trans env s1 = Ret () s2" using s2(1) s1(3) by (simp add: install_trans_steps)
  let ?s3 = "s2\<lparr>lh_n := 0\<rparr>"
  have c3: "cache ?s3 (apply_writes D (install_writes ?st secs D n)) (apply_writes D (install_writes ?st secs D n)) {} no_busy"
    using s2(2) by simp
  have e: "log_dev ?s3 = 1" "log_start ?s3 < disksize ?s3" "card ({} :: u32 set) < NBUF" "log_start ?s3 \<notin> {}"
    "log_start ?s3 = ?st"
    using l2 s1(6-8) nL by (simp_all add: NBUF_def)
  obtain t h where t: "write_head env ?s3 = Ret () t"
    "cache t ((apply_writes D (install_writes ?st secs D n))(?st := h)) ((apply_writes D (install_writes ?st secs D n))(?st := h)) {} no_busy"
    by (rule write_head_cache [OF c3 e(1-4), of env, unfolded e(5)]) blast
  have "recover_from_log env s = Ret () t"
    using s1(1) it t(1) by (simp add: recover_from_log_def)
  then show ?thesis using cache_disk [OF t(2)] by auto
qed

text \<open>The machine after a crash: the disk as it was, an empty cache.\<close>

definition reboot :: "'x log_st_scheme \<Rightarrow> (u32 \<Rightarrow> block) \<Rightarrow> 'x log_st_scheme" where
  "reboot s D = s\<lparr>disk := D, mru := [0..<NBUF], lh_n := 0, held := [],
     bufs := (\<lambda>_. \<lparr>b_busy = False, b_valid = False, b_dirty = False, b_dev = -1, b_sector = 0, b_data = zero_block\<rparr>)\<rparr>"

lemma reboot_cache: "cache (reboot s D) D D {} no_busy"
  by (auto simp: cache_def reboot_def)

lemma reboot_simps [simp]:
  "log_dev (reboot s D) = log_dev s" "log_start (reboot s D) = log_start s" "lh_sector (reboot s D) = lh_sector s"
  "disksize (reboot s D) = disksize s"
  by (simp_all add: reboot_def)


lemma sint_small: "n < 2 ^ 31 \<Longrightarrow> sint (of_int (int n) :: u32) = int n"
  by (simp add: signed_of_nat signed_take_bit_int_eq_self)

lemma install_writes_take: "set (take j (install_writes st secs D n)) \<subseteq> set (install_writes st secs D n)"
  by (rule set_take_subset)

text \<open>
  C1: commits are atomic across crashes. Let a transaction be ready to commit. Then
  \<open>commit_trans\<close> returns, and whichever number of its disk writes were done when the machine
  crashes, recovery from the disk found at the next boot returns, and leaves every block
  outside of the log header as it was before the transaction, when no write was done, or
  as the whole transaction wrote it, when the header had been written.
\<close>

theorem commit_crash_atomic:
  assumes r: "log_ready s n"
  shows "\<exists>t. commit_trans env s = Ret () t \<and> disk_writes t = rev (commit_writes s n) @ disk_writes s
    \<and> (\<forall>k \<le> length (commit_writes s n).
         \<exists>u. recover_from_log env (reboot s (apply_writes (disk s) (take k (commit_writes s n)))) = Ret () u
           \<and> (\<forall>a. a = log_start s \<or> disk u a = (if k = 0 then disk s a
                else apply_writes (disk s) (install_writes (log_start s) (lh_sector s) (disk s) n) a)))"
proof -
  let ?st = "log_start s" and ?secs = "lh_sector s" and ?D = "disk s"
  let ?ws = "install_writes ?st ?secs ?D n"
  let ?h = "header (int n) ?secs (?D ?st)"
  let ?he = "header 0 ?secs ?h"
  have dev: "log_dev s = 1" and sh: "log_shape ?st ?secs n (disksize s)" and z: "rd32 (?D ?st) 0 = 0"
    using r by (simp_all add: log_ready_def)
  have l: "length ?secs = LOGSIZE" and n31: "n < 2 ^ 31" using sh by (simp_all add: log_shape_def LOGSIZE_def)
  have sh0: "log_shape ?st ?secs 0 (disksize s)" using sh by (simp add: log_shape_def LOGSIZE_def)
  have shi: "?secs ! i \<noteq> ?st" "log_block ?st i \<noteq> ?st" "\<forall>j < n. ?secs ! i \<noteq> log_block ?st j" if "i < n" for i
    using sh that unfolding log_shape_def by blast+
  have fw: "fst ` set ?ws = (\<lambda>i. ?secs ! i) ` {..<n}" by (rule fst_install_writes)
  have lw: "length ?ws = n" by (simp add: install_writes_def)
  have sub: "fst ` set (take j ?ws) \<subseteq> fst ` set ?ws" for j using install_writes_take by (rule image_mono)
  have st_out: "?st \<notin> fst ` set ?ws" unfolding fw using shi(1) by force
  have lb_out: "log_block ?st i \<notin> fst ` set ?ws" if "i < n" for i unfolding fw using shi(3) that by force
  have R: "\<exists>u. recover_from_log env (reboot s D) = Ret () u
      \<and> (\<forall>a. a = ?st \<or> disk u a = apply_writes D (install_writes ?st ?secs D m) a)"
    if "sint (rd32 (D ?st) 0) = int m" "\<And>i. i < m \<Longrightarrow> ?secs ! i = rd32 (D ?st) (4 + 4 * i)"
      "log_shape ?st ?secs m (disksize s)" for D m
    using recover_installs [OF reboot_cache, of s D m ?secs env] that dev l by simp
  have main: "\<exists>u. recover_from_log env (reboot s (apply_writes ?D (take k (commit_writes s n)))) = Ret () u
           \<and> (\<forall>a. a = ?st \<or> disk u a = (if k = 0 then ?D a else apply_writes ?D ?ws a))"
    if k: "k \<le> length (commit_writes s n)" for k
  proof (cases k)
    case 0
    then show ?thesis using R [of ?D 0] z sh0 by (simp add: install_writes_def)
  next
    case (Suc j)
    show ?thesis
    proof (cases "j \<le> n")
      case True
      let ?E = "apply_writes (?D(?st := ?h)) (take j ?ws)"
      have tk: "apply_writes ?D (take k (commit_writes s n)) = ?E"
        using Suc True lw by (simp add: commit_writes_def Let_def)
      have Est: "?E ?st = ?h" using sub st_out by (subst apply_writes_other) auto
      have "?E (log_block ?st i) = ?D (log_block ?st i)" if "i < n" for i
        using sub [of j] lb_out [OF that] shi(2) [OF that] by (subst apply_writes_other) auto
      then have iw: "install_writes ?st ?secs ?E n = ?ws" by (rule install_writes_cong)
      have again: "apply_writes ?E ?ws a = apply_writes ?D ?ws a" if "a \<noteq> ?st" for a
        by (rule apply_writes_again [OF sub]) (use that in simp)
      have "\<exists>u. recover_from_log env (reboot s ?E) = Ret () u
          \<and> (\<forall>a. a = ?st \<or> disk u a = apply_writes ?E (install_writes ?st ?secs ?E n) a)"
        by (rule R) (use sint_small [OF n31] sh in \<open>simp_all add: Est header_fields\<close>)
      then obtain u where "recover_from_log env (reboot s ?E) = Ret () u"
        and "\<And>a. a = ?st \<or> disk u a = apply_writes ?E ?ws a"
        unfolding iw by blast
      then show ?thesis unfolding tk using again Suc by (intro exI [of _ u]) (metis nat.distinct(1))
    next
      case False
      then have kk: "take k (commit_writes s n) = commit_writes s n"
        using k Suc lw by (simp add: commit_writes_def Let_def)
      let ?E = "(apply_writes (?D(?st := ?h)) ?ws)(?st := ?he)"
      have tk: "apply_writes ?D (take k (commit_writes s n)) = ?E"
        unfolding kk by (simp add: commit_writes_def Let_def)
      have again: "?E a = apply_writes ?D ?ws a" if "a \<noteq> ?st" for a
        using apply_writes_again [of "[]" ?ws a "?D(?st := ?h)" ?D] that by simp
      have "\<exists>u. recover_from_log env (reboot s ?E) = Ret () u
          \<and> (\<forall>a. a = ?st \<or> disk u a = apply_writes ?E (install_writes ?st ?secs ?E 0) a)"
        by (rule R) (use sh0 in \<open>simp_all add: header_fields\<close>)
      then obtain u where "recover_from_log env (reboot s ?E) = Ret () u" and "\<And>a. a = ?st \<or> disk u a = ?E a"
        by (auto simp: install_writes_def)
      then show ?thesis unfolding tk using again Suc by (intro exI [of _ u]) (metis nat.distinct(1))
    qed
  qed
  then show ?thesis using commit_trans_writes [OF r, of env] by blast
qed

text \<open>
  A log with one block: sector 50 is changed in buffer 0 and copied to the log, and its place on
  the disk still has the old data.
\<close>

definition log_sample :: log_st where
  "log_sample = \<lparr>held = [], cons_locking = False, panicked = False, uart_on = False, serial_out = [],
     crt = (\<lambda>_. 0), crt_pos = 0, k_mem = (\<lambda>_. 0), k_freelist = 0, k_use_lock = False,
     k_end = 0x80200000, vm_data = 0x8010a000, kpgdir = 0x80400000, cr3 = 0x400000, ts_esp0 = 0, ts_ss0 = 0,
     ptable = (\<lambda>_. zero_proc), curproc = None, initproc = None, nextpid = 1, ticks = 0,
     thread_locks = replicate MAX_NUM_LOCKS 0, nextLockId = 1, fork_first = True, wakeups = 0,
     bufs = (\<lambda>b. if b = 0
       then \<lparr>b_busy = False, b_valid = True, b_dirty = True, b_dev = 1, b_sector = 50, b_data = (\<lambda>_. 7)\<rparr>
       else \<lparr>b_busy = False, b_valid = False, b_dirty = False, b_dev = -1, b_sector = 0, b_data = zero_block\<rparr>),
     mru = [0..<NBUF], disk = (\<lambda>_. zero_block)(1001 := (\<lambda>_. 7)), disksize = 1024, disk_writes = [],
     log_start = 1000, log_size = 10, log_busy = True, log_dev = 1, lh_n = 1,
     lh_sector = 50 # replicate 9 0\<rparr>"

lemma log_sample_ready: "log_ready log_sample 1"
proof -
  have w: "install_writes 1000 (50 # replicate 9 0) ((\<lambda>_. zero_block)(1001 := (\<lambda>_. 7))) 1 = [(50, \<lambda>_. 7)]"
    by (simp add: install_writes_def log_block_def)
  have c: "cache log_sample ((\<lambda>_. zero_block)(1001 := (\<lambda>_. 7), 50 := (\<lambda>_. 7))) ((\<lambda>_. zero_block)(1001 := (\<lambda>_. 7))) {50} no_busy"
    by (auto simp: cache_def log_sample_def NBUF_def)
  have i: "(\<lambda>i. (50 # replicate 9 0 :: u32 list) ! i) ` {..<1} = {50}" by auto
  show ?thesis
    using c w i by (simp add: log_ready_def log_sample_def log_shape_def LOGSIZE_def log_block_def)
qed

theorem commit_crash_atomic_witness:
  "log_ready log_sample 1 \<and> 1 \<le> length (commit_writes log_sample 1)
   \<and> (\<exists>u. recover_from_log (\<lambda>_ s. s) (reboot log_sample (apply_writes (disk log_sample)
              (take 1 (commit_writes log_sample 1)))) = Ret () u
        \<and> disk log_sample 50 = zero_block \<and> disk u 50 = (\<lambda>_. 7))"
proof -
  have l: "(1::nat) \<le> length (commit_writes log_sample 1)" by (simp add: commit_writes_def Let_def)
  obtain u where u: "recover_from_log (\<lambda>_ s. s) (reboot log_sample (apply_writes (disk log_sample)
              (take 1 (commit_writes log_sample 1)))) = Ret () u"
      and d: "\<And>a. a = log_start log_sample \<or> disk u a = apply_writes (disk log_sample)
         (install_writes (log_start log_sample) (lh_sector log_sample) (disk log_sample) 1) a"
    using commit_crash_atomic [OF log_sample_ready, of "\<lambda>_ s. s"] l by (metis zero_neq_one)
  have "disk log_sample 50 = zero_block" "disk u 50 = (\<lambda>_. 7)"
    using d [of 50] by (simp_all add: log_sample_def install_writes_def log_block_def)
  then show ?thesis using log_sample_ready l u by blast
qed

end
