(* ===== verification/Block_Spec.thy ===== *)
theory Block_Spec
  imports Fs Log_Crash
begin

section \<open>Allocating blocks inside a transaction\<close>

text \<open>
  \<open>log_write\<close>, \<open>bzero\<close>, \<open>balloc\<close> and \<open>bfree\<close> in terms of what the kernel sees through the cache: which
  block \<open>balloc\<close> chooses, how the bitmap changes, and that nothing else does but the blocks of the log.
\<close>

definition log_area :: "'x log_st_scheme \<Rightarrow> u32 set" where
  "log_area s = (\<lambda>i. log_start s + of_nat i + 1) ` {..<LOGSIZE}"

text \<open>A transaction with room for \<open>k\<close> more blocks, and the cache with room for them.\<close>

definition trans_ok :: "'x log_st_scheme \<Rightarrow> u32 set \<Rightarrow> (u32 \<Rightarrow> nat option) \<Rightarrow> nat \<Rightarrow> bool" where
  "trans_ok s W B k \<longleftrightarrow> log_busy s \<and> 0 \<le> lh_n s \<and> lh_n s + int k \<le> int LOGSIZE \<and> lh_n s + int k \<le> log_size s - 1
     \<and> log_area s \<inter> W = {} \<and> log_area s \<inter> dom B = {} \<and> (\<forall>a \<in> log_area s. a < disksize s) \<and> card (W \<union> dom B) + k < NBUF"

lemma log_slot_le: "0 \<le> n \<Longrightarrow> log_slot secs n sec \<le> nat n"
  by (auto simp: log_slot_def first_index_Some_iff split: option.splits)

lemma dirty_cache:
  assumes c: "cache s V D W B" and B: "B sec = Some b"
  shows "cache (s\<lparr>bufs := (bufs s)(b := (bufs s b)\<lparr>b_dirty := True\<rparr>)\<rparr>) V D (insert sec W) B"
proof -
  have b1: "b < NBUF" and b2: "b_dev (bufs s b) = 1" and b3: "b_sector (bufs s b) = sec"
    using cache_busy [OF c B] by simp_all
  have old: "b_valid (bufs s b)" "b_data (bufs s b) = V sec" "b_busy (bufs s b)"
    using cache_buf [OF c b1 b2] B by (simp_all add: b3)
  show ?thesis
    by (rule cache_upd [OF c, where q = "(bufs s b)\<lparr>b_dirty := True\<rparr>" and b = b])
      (simp_all add: b1 b2 b3 old B cache_disk [OF c] cache_other [OF c b1 b2 b3])
qed

lemma cache_more: "cache (s\<lparr>lh_sector := x\<rparr>) V D W B = cache s V D W B" "cache (s\<lparr>lh_n := n\<rparr>) V D W B = cache s V D W B"
  by (simp_all add: cache_def)

lemma log_more_frame: "bio_frame s t \<Longrightarrow> log_st.more t = log_st.more s"
  by (cases s; cases t; simp add: bio_frame_def)

lemma log_write_cache:
  assumes c: "cache s V D W B" and B: "B sec = Some b" and a: "sec \<notin> log_area s"
    and busy: "log_busy s" and n: "0 \<le> lh_n s" "lh_n s < int LOGSIZE" "lh_n s < log_size s - 1"
    and area: "log_area s \<inter> W = {}" "log_area s \<inter> dom B = {}" "\<forall>a \<in> log_area s. a < disksize s"
    and cap: "card (W \<union> dom B) < NBUF"
  obtains t l where "log_write env b s = Ret () t" "l \<in> log_area s" "cache t (V(l := V sec)) (D(l := V sec)) (insert sec W) B"
    "log_start t = log_start s" "log_size t = log_size s" "log_busy t" "disksize t = disksize s"
    "lh_n s \<le> lh_n t" "lh_n t \<le> lh_n s + 1" "log_st.more t = log_st.more s"
proof -
  have b1: "b < NBUF" and b2: "b_dev (bufs s b) = 1" and b3: "b_sector (bufs s b) = sec"
    using cache_busy [OF c B] by simp_all
  define i where "i = log_slot (lh_sector s) (lh_n s) sec"
  define l where "l = log_start s + of_nat i + 1"
  have "i < LOGSIZE" using log_slot_le [of "lh_n s" "lh_sector s" sec] n by (simp add: i_def)
  then have l: "l \<in> log_area s" by (auto simp: l_def log_area_def)
  then have l': "l \<notin> W" "B l = None" "l < disksize s" "l \<noteq> sec" using area a by (auto simp: domIff)
  let ?s = "s\<lparr>lh_sector := (lh_sector s)[i := sec]\<rparr>"
  have c0: "cache ?s V D W B" using c by (simp add: cache_more)
  have "l < disksize ?s" using l'(3) by simp
  from bread_cache [OF c0 l'(2) this, of env] cap obtain lb t1 where
    t1: "bread env 1 l ?s = Ret lb t1" "cache t1 V D W (B(l := Some lb))" "bio_frame ?s t1" by blast
  have "(B(l := Some lb)) sec = Some b" using B l'(4) by simp
  from cache_busy [OF t1(2) this] cache_buf [OF t1(2)] have d: "b_data (bufs t1 b) = V sec" by auto
  have bl: "(B(l := Some lb)) l = Some lb" by simp
  from upd_data_cache [OF t1(2) bl, of "\<lambda>_. V sec"] obtain t2 where
    t2: "upd_data lb (\<lambda>_. V sec) t1 = Ret () t2" "cache t2 (V(l := V sec)) D W (B(l := Some lb))" "bio_frame t1 t2" by blast
  have "l < disksize t2" using l'(3) log_more [OF t1(3)] log_more [OF t2(3)] by simp
  moreover have w: "(V(l := V sec)) l = V sec" "W - {l} = W" "(B(l := Some lb))(l := None) = B"
    using l'(1,2) by (simp_all add: fun_upd_idem)
  ultimately obtain t3 where
    t3: "bwrite lb t2 = Ret () t3" "cache t3 (V(l := V sec)) (D(l := V sec)) W (B(l := Some lb))" "bio_frame t2 t3"
    using bwrite_cache [OF t2(2) bl, unfolded w] by blast
  have "l \<in> W \<or> (V(l := V sec)) l = (D(l := V sec)) l" by simp
  then obtain t4 where
    t4: "brelse lb t3 = Ret () t4" "cache t4 (V(l := V sec)) (D(l := V sec)) W B" "bio_frame t3 t4"
    using brelse_cache [OF t3(2) bl, unfolded w(3)] by blast
  note f = log_more [OF bio_frame_trans [OF bio_frame_trans [OF bio_frame_trans [OF t1(3) t2(3)] t3(3)] t4(3)]]
  have fm: "log_st.more t4 = log_st.more s"
    using log_more_frame [OF bio_frame_trans [OF bio_frame_trans [OF bio_frame_trans [OF t1(3) t2(3)] t3(3)] t4(3)]] by simp
  let ?u = "if i = nat (lh_n s) then t4\<lparr>lh_n := lh_n s + 1\<rparr> else t4"
  let ?t = "?u\<lparr>bufs := (bufs ?u)(b := (bufs ?u b)\<lparr>b_dirty := True\<rparr>)\<rparr>"
  have cu: "cache ?u (V(l := V sec)) (D(l := V sec)) W B" using t4(2) by (simp add: cache_more)
  have "log_write env b s = Ret () ?t"
    using n busy b2 b3 t1(1) d t2(1) t3(1) t4(1) by (simp add: log_write_def Let_def i_def [symmetric] l_def [symmetric])
  then show ?thesis using that [OF _ l dirty_cache [OF cu B]] f fm n(1) busy by simp
qed

lemma log_area_cong: "log_start t = log_start s \<Longrightarrow> log_area t = log_area s"
  by (simp add: log_area_def)

lemma trans_ok_frame: "bio_frame s t \<Longrightarrow> trans_ok t W B k = trans_ok s W B k"
  using log_more [of s t] log_area_cong [of t s] by (simp add: trans_ok_def)

lemma card_insert_less: "card A + Suc k < n \<Longrightarrow> card (insert x A) + k < n"
  by (cases "finite A") (auto simp: card_insert_if)

text \<open>Changing a block that was read, logging it and releasing it.\<close>

lemma logged_update:
  assumes c: "cache s V D W (B(sec := Some b))" and B: "B sec = None" and a: "sec \<notin> log_area s" and ok: "trans_ok s W B (Suc k)"
  obtains t1 t2 t V' D' where "upd_data b f s = Ret () t1" "log_write env b t1 = Ret () t2" "brelse b t2 = Ret () t"
    "cache t V' D' (insert sec W) B" "trans_ok t (insert sec W) B k" "log_start t = log_start s" "disksize t = disksize s"
    "V' sec = f (V sec)" "\<forall>x. x \<notin> log_area s \<longrightarrow> x \<noteq> sec \<longrightarrow> V' x = V x" "log_st.more t = log_st.more s"
proof -
  let ?B = "B(sec := Some b)"
  have bs: "?B sec = Some b" by simp
  from upd_data_cache [OF c bs, of f] obtain t1 where t1: "upd_data b f s = Ret () t1"
    "cache t1 (V(sec := f (V sec))) D W ?B" "bio_frame s t1" by blast
  note f1 = log_more [OF t1(3)]
  have area: "log_area t1 = log_area s" using f1 by (intro log_area_cong) simp
  have d: "W \<union> dom ?B = insert sec (W \<union> dom B)" by auto
  have p1: "card (W \<union> dom ?B) < NBUF" unfolding d using ok card_insert_less [of "W \<union> dom B" k NBUF sec] by (simp add: trans_ok_def)
  have p2: "log_area t1 \<inter> dom ?B = {}" using ok a by (auto simp: trans_ok_def area)
  have p3: "sec \<notin> log_area t1" "log_busy t1" "0 \<le> lh_n t1" "lh_n t1 < int LOGSIZE" "lh_n t1 < log_size t1 - 1"
    "log_area t1 \<inter> W = {}" "\<forall>a \<in> log_area t1. a < disksize t1"
    using a ok f1 area by (simp_all add: trans_ok_def)
  obtain t2 l where t2: "log_write env b t1 = Ret () t2" "l \<in> log_area t1"
    "cache t2 ((V(sec := f (V sec)))(l := (V(sec := f (V sec))) sec)) (D(l := (V(sec := f (V sec))) sec)) (insert sec W) ?B"
    "log_start t2 = log_start t1" "log_size t2 = log_size t1" "log_busy t2" "disksize t2 = disksize t1"
    "lh_n t1 \<le> lh_n t2" "lh_n t2 \<le> lh_n t1 + 1" "log_st.more t2 = log_st.more t1"
    using log_write_cache [OF t1(2) bs p3(1-6) p2 p3(7) p1, of env] by blast
  from brelse_cache [OF t2(3) bs] obtain t where t: "brelse b t2 = Ret () t"
    "cache t ((V(sec := f (V sec)))(l := (V(sec := f (V sec))) sec)) (D(l := (V(sec := f (V sec))) sec)) (insert sec W) (?B(sec := None))"
    "bio_frame t2 t" by blast
  note f2 = log_more [OF t(3)]
  have "?B(sec := None) = B" using B by (simp add: fun_upd_idem)
  moreover have "trans_ok t2 (insert sec W) B k"
    using ok a f1 t2(4-9) area log_area_cong [OF t2(4)] card_insert_less [of "W \<union> dom B" k NBUF sec]
    by (auto simp: trans_ok_def)
  then have "trans_ok t (insert sec W) B k" using trans_ok_frame [OF t(3)] by blast
  moreover have "l \<noteq> sec" using a t2(2) area by auto
  moreover have "log_st.more t = log_st.more s" using log_more_frame [OF t1(3)] t2(10) log_more_frame [OF t(3)] by simp
  ultimately show ?thesis
    using that [OF t1(1) t2(1) t(1)] t(2) f1 f2 t2(2,4,7) area by (simp add: fun_upd_other)
qed

lemma bzero_cache:
  assumes c: "cache s V D W B" and B: "B sec = None" and a: "sec \<notin> log_area s" "sec < disksize s" and ok: "trans_ok s W B (Suc k)"
  obtains t V' D' where "bzero env 1 sec s = Ret () t"
    "cache t V' D' (insert sec W) B" "trans_ok t (insert sec W) B k" "log_start t = log_start s" "disksize t = disksize s"
    "V' sec = zero_block" "\<forall>x. x \<notin> log_area s \<longrightarrow> x \<noteq> sec \<longrightarrow> V' x = V x"
proof -
  have "sec \<in> W \<or> card (W \<union> dom B) < NBUF" using ok by (simp add: trans_ok_def)
  from bread_cache [OF c B a(2) this] obtain b u where u: "bread env 1 sec s = Ret b u" "cache u V D W (B(sec := Some b))"
    "bio_frame s u" by blast
  note f = log_more [OF u(3)]
  have area: "log_area u = log_area s" using f by (intro log_area_cong) simp
  have "trans_ok u W B (Suc k)" using ok trans_ok_frame [OF u(3)] by blast
  moreover have "sec \<notin> log_area u" using a area by simp
  ultimately obtain t1 t2 t V' D' where t: "upd_data b (\<lambda>_. zero_block) u = Ret () t1" "log_write env b t1 = Ret () t2" "brelse b t2 = Ret () t"
    "cache t V' D' (insert sec W) B" "trans_ok t (insert sec W) B k" "log_start t = log_start u" "disksize t = disksize u"
    "V' sec = zero_block" "\<forall>x. x \<notin> log_area u \<longrightarrow> x \<noteq> sec \<longrightarrow> V' x = V x"
    using logged_update [OF u(2) B, where f = "\<lambda>_. zero_block" and env = env] by metis
  have "bzero env 1 sec s = Ret () t" using u(1) t(1-3) by (simp add: bzero_def)
  then show ?thesis using that t(4-9) f area by simp
qed

subsection \<open>The bitmap\<close>

definition allocated :: "(u32 \<Rightarrow> block) \<Rightarrow> u32 \<Rightarrow> nat \<Rightarrow> bool" where
  "allocated V ni k \<longleftrightarrow> bm_bit (V (BBLOCK (of_nat k) ni)) (k mod BPB)"

lemma BBLOCK_nat: "k < 2 ^ 32 \<Longrightarrow> BBLOCK (of_nat k) ni = of_nat (k div BPB) + ni div of_nat IPB + 3"
proof -
  assume "k < 2 ^ 32"
  then have "(of_nat k :: u32) div of_nat BPB = of_nat (k div BPB)"
    by (simp add: word_unat_eq_iff unat_div unat_of_nat BPB_def BSIZE_def less_mult_imp_div_less)
  then show ?thesis by (simp add: BBLOCK_def)
qed

lemma bitmap_entry:
  assumes "b mod BPB = 0" "i < BPB" "b + i < 2 ^ 32"
  shows "BBLOCK (of_nat (b + i)) ni = BBLOCK (of_nat b) ni" "allocated V ni (b + i) \<longleftrightarrow> bm_bit (V (BBLOCK (of_nat b) ni)) i"
proof -
  have "b = BPB * (b div BPB)" using assms(1) by (metis add_0_right mult_div_mod_eq)
  then have "(b + i) div BPB = b div BPB" "(b + i) mod BPB = i" using assms(2)
    by (metis div_mult_self4 add.commute div_less add_0 assms(1) neq0_conv not_less_zero, metis assms mod_less mod_mult_self4 )
  then show "BBLOCK (of_nat (b + i)) ni = BBLOCK (of_nat b) ni" "allocated V ni (b + i) \<longleftrightarrow> bm_bit (V (BBLOCK (of_nat b) ni)) i"
    using assms(3) by (simp_all add: allocated_def BBLOCK_nat del: of_nat_add)
qed

lemma same_bitmap_block:
  assumes "j < 2 ^ 32" "k < 2 ^ 32"
  shows "BBLOCK (of_nat j) ni = BBLOCK (of_nat k) ni \<longleftrightarrow> j div BPB = k div BPB"
proof -
  have "j div BPB < 2 ^ 32" "k div BPB < 2 ^ 32" using assms by (meson div_le_dividend le_less_trans)+
  then have "(of_nat (j div BPB) :: u32) = of_nat (k div BPB) \<longleftrightarrow> j div BPB = k div BPB"
    by (simp add: word_unat_eq_iff unat_of_nat)
  then show ?thesis using assms by (simp add: BBLOCK_nat)
qed

text \<open>
  A file system on which blocks can be allocated: its bitmap blocks are outside of the log, not held, and
  not free themselves, and no free block is in the log or held.
\<close>

definition blocks_ok :: "'x log_st_scheme \<Rightarrow> (u32 \<Rightarrow> block) \<Rightarrow> (u32 \<Rightarrow> nat option) \<Rightarrow> u32 \<Rightarrow> nat \<Rightarrow> bool" where
  "blocks_ok s V B ni n \<longleftrightarrow> n \<le> 2 ^ 32
     \<and> (\<forall>k < n. BBLOCK (of_nat k) ni < disksize s \<and> BBLOCK (of_nat k) ni \<notin> log_area s \<and> B (BBLOCK (of_nat k) ni) = None)
     \<and> (\<forall>k < n. \<not> allocated V ni k \<longrightarrow> of_nat k < disksize s \<and> of_nat k \<notin> log_area s \<and> B (of_nat k) = None
          \<and> (\<forall>j < n. of_nat k \<noteq> BBLOCK (of_nat j) ni))"

lemma blocks_okD:
  assumes "blocks_ok s V B ni n"
  shows "n \<le> 2 ^ 32" "k < n \<Longrightarrow> BBLOCK (of_nat k) ni < disksize s" "k < n \<Longrightarrow> BBLOCK (of_nat k) ni \<notin> log_area s"
    "k < n \<Longrightarrow> B (BBLOCK (of_nat k) ni) = None" "k < n \<Longrightarrow> \<not> allocated V ni k \<Longrightarrow> of_nat k < disksize s"
    "k < n \<Longrightarrow> \<not> allocated V ni k \<Longrightarrow> of_nat k \<notin> log_area s" "k < n \<Longrightarrow> \<not> allocated V ni k \<Longrightarrow> B (of_nat k) = None"
    "k < n \<Longrightarrow> \<not> allocated V ni k \<Longrightarrow> j < n \<Longrightarrow> of_nat k \<noteq> BBLOCK (of_nat j) ni"
  using assms by (simp_all add: blocks_ok_def)

definition block_taken :: "(u32 \<Rightarrow> block) \<Rightarrow> (u32 \<Rightarrow> block) \<Rightarrow> u32 set \<Rightarrow> u32 \<Rightarrow> nat \<Rightarrow> nat \<Rightarrow> bool" where
  "block_taken V V' A ni n r \<longleftrightarrow> r < n \<and> \<not> allocated V ni r \<and> V' (of_nat r) = zero_block
     \<and> (\<forall>k < n. allocated V' ni k \<longleftrightarrow> allocated V ni k \<or> k = r)
     \<and> (\<forall>x. x \<notin> A \<longrightarrow> x \<noteq> of_nat r \<longrightarrow> x \<noteq> BBLOCK (of_nat r) ni \<longrightarrow> V' x = V x)"

lemma block_takenI:
  assumes ok: "blocks_ok s V B ni n" and b: "b mod BPB = 0" "i < BPB" "b + i < n" and free: "\<not> allocated V ni (b + i)"
    and V1: "V1 (BBLOCK (of_nat b) ni) = bm_set (V (BBLOCK (of_nat b) ni)) i"
      "\<forall>x. x \<notin> log_area s \<longrightarrow> x \<noteq> BBLOCK (of_nat b) ni \<longrightarrow> V1 x = V x"
    and V2: "V2 (of_nat (b + i)) = zero_block" "\<forall>x. x \<notin> log_area s \<longrightarrow> x \<noteq> of_nat (b + i) \<longrightarrow> V2 x = V1 x"
  shows "block_taken V V2 (log_area s) ni n (b + i)"
proof -
  have n: "b + i < 2 ^ 32" "k < 2 ^ 32" if "k < n" for k using ok b(3) that by (simp_all add: blocks_ok_def)
  have r: "BBLOCK (of_nat (b + i)) ni = BBLOCK (of_nat b) ni" using bitmap_entry(1) b n b(3) by blast
  have d: "(b + i) div BPB = b div BPB" "(b + i) mod BPB = i"
    using b by (metis (no_types) same_bitmap_block n(1) add_lessD1 r, simp add: mod_add_eq [symmetric, of b])
  have "allocated V2 ni k \<longleftrightarrow> allocated V ni k \<or> k = b + i" if k: "k < n" for k
  proof -
    let ?m = "BBLOCK (of_nat k) ni"
    have m: "?m \<notin> log_area s" "?m \<noteq> of_nat (b + i)" using blocks_okD(3,8) [OF ok] k b(3) free by metis+
    show ?thesis
    proof (cases "?m = BBLOCK (of_nat b) ni")
      case True
      then have "k div BPB = (b + i) div BPB" using same_bitmap_block [OF n(2) n(1), of k k ni] k r by simp
      then have "k mod BPB = i \<longleftrightarrow> k = b + i" using d by (metis div_mult_mod_eq)
      moreover have "V2 ?m = bm_set (V ?m) i" using V1(1) V2(2) m True by simp
      ultimately show ?thesis by (simp add: allocated_def bm_bit_set) blast
    next
      case False
      then have "V2 ?m = V ?m" "k \<noteq> b + i" using V1(2) V2(2) m r by auto
      then show ?thesis by (simp add: allocated_def)
    qed
  qed
  then show ?thesis using b free V1(2) V2 r by (simp add: block_taken_def)
qed

lemma balloc_loop_ok:
  assumes "cache s V D W B" "trans_ok s W B 2" "blocks_ok s V B (sb_ninodes sb) (unat (sb_size sb))"
    and "\<forall>b \<in> set bs. b < unat (sb_size sb) \<and> b mod BPB = 0"
  shows "if \<exists>b \<in> set bs. \<exists>i < BPB. b + i < unat (sb_size sb) \<and> \<not> allocated V (sb_ninodes sb) (b + i)
    then \<exists>r t V' D' W'. balloc_loop env 1 sb bs s = Ret (of_nat r) t \<and> cache t V' D' W' B
      \<and> block_taken V V' (log_area s) (sb_ninodes sb) (unat (sb_size sb)) r
    else \<exists>e. balloc_loop env 1 sb bs s = Panic e"
  using assms
proof (induction bs arbitrary: s)
  case (Cons b bs)
  let ?ni = "sb_ninodes sb" and ?n = "unat (sb_size sb)"
  let ?m = "BBLOCK (of_nat b) ?ni"
  have b: "b < ?n" "b mod BPB = 0" using Cons.prems(4) by simp_all
  have m: "?m < disksize s" "?m \<notin> log_area s" "B ?m = None" using blocks_okD(2-4) [OF Cons.prems(3) b(1)] .
  have "?m \<in> W \<or> card (W \<union> dom B) < NBUF" using Cons.prems(2) by (simp add: trans_ok_def)
  from bread_cache [OF Cons.prems(1) m(3,1) this] obtain bp u where u: "bread env 1 ?m s = Ret bp u"
    "cache u V D W (B(?m := Some bp))" "bio_frame s u" by blast
  note f = log_more [OF u(3)]
  have area: "log_area u = log_area s" using f by (intro log_area_cong) simp
  have bm: "(B(?m := Some bp)) ?m = Some bp" by simp
  have d: "bdata bp u = Ret (V ?m) u" using cache_busy [OF u(2) bm] cache_buf [OF u(2)] by auto
  have n: "?n \<le> 2 ^ 32" using Cons.prems(3) by (simp add: blocks_ok_def)
  have al: "b + i < ?n \<and> \<not> bm_bit (V ?m) i \<longleftrightarrow> b + i < ?n \<and> \<not> allocated V ?ni (b + i)" if "i < BPB" for i
    using bitmap_entry(2) [OF b(2) that] n by auto
  show ?case
  proof (cases rule: first_index_cases [of "\<lambda>bi. b + bi < ?n \<and> \<not> bm_bit (V ?m) bi" BPB])
    case (found i)
    have r: "b + i < ?n" "\<not> allocated V ?ni (b + i)" using found(2,3) al by auto
    have tu: "trans_ok u W B (Suc (Suc 0))" using Cons.prems(2) trans_ok_frame [OF u(3)] by (simp add: numeral_2_eq_2)
    have mu: "?m \<notin> log_area u" using m(2) area by simp
    obtain t1 t2 t V1 D1 where
      t: "upd_data bp (\<lambda>d. bm_set d i) u = Ret () t1" "log_write env bp t1 = Ret () t2" "brelse bp t2 = Ret () t"
        "cache t V1 D1 (insert ?m W) B" "trans_ok t (insert ?m W) B (Suc 0)" "log_start t = log_start u" "disksize t = disksize u"
        "V1 ?m = bm_set (V ?m) i" "\<forall>x. x \<notin> log_area u \<longrightarrow> x \<noteq> ?m \<longrightarrow> V1 x = V x"
      by (rule logged_update [OF u(2) m(3) mu tu, where f = "\<lambda>d. bm_set d i" and env = env]) (rule that)
    have at: "log_area t = log_area s" using t(6) area log_area_cong [of t u] by simp
    have z: "B (of_nat (b + i)) = None" "of_nat (b + i) \<notin> log_area t" "of_nat (b + i) < disksize t"
      using blocks_okD(5-7) [OF Cons.prems(3) r] at t(7) f by (simp_all del: of_nat_add)
    obtain v V2 D2 where v: "bzero env 1 (of_nat (b + i)) t = Ret () v"
        "cache v V2 D2 (insert (of_nat (b + i)) (insert ?m W)) B" "V2 (of_nat (b + i)) = zero_block"
        "\<forall>x. x \<notin> log_area t \<longrightarrow> x \<noteq> of_nat (b + i) \<longrightarrow> V2 x = V1 x"
      by (rule bzero_cache [OF t(4) z t(5), where env = env]) (rule that)
    have "block_taken V V2 (log_area s) ?ni ?n (b + i)"
      by (rule block_takenI [OF Cons.prems(3) b(2) found(2) r t(8) t(9) [unfolded area] v(3) v(4) [unfolded at]])
    moreover have "balloc_loop env 1 sb (b # bs) s = Ret (of_nat (b + i)) v"
      using u(1) d found(1) t(1-3) v(1) by (simp del: of_nat_add)
    ultimately show ?thesis using v(2) r found(2) by (auto simp del: of_nat_add balloc_loop.simps)
  next
    case full
    have "?m \<in> W \<or> V ?m = D ?m" using cache_view [OF Cons.prems(1) _ m(3)] by blast
    moreover have bn: "(B(?m := Some bp))(?m := None) = B" using m(3) by (simp add: fun_upd_idem)
    ultimately obtain t where t: "brelse bp u = Ret () t" "cache t V D W B" "bio_frame u t"
      using brelse_cache [OF u(2) bm, unfolded bn] by blast
    note ft = log_more [OF t(3)]
    have at: "log_area t = log_area s" using ft area log_area_cong [of t u] by simp
    have l: "balloc_loop env 1 sb (b # bs) s = balloc_loop env 1 sb bs t" using u(1) d full(1) t(1) by simp
    have tr: "trans_ok t W B 2" using Cons.prems(2) trans_ok_frame [OF bio_frame_trans [OF u(3) t(3)]] by blast
    have bo: "blocks_ok t V B ?ni ?n" using Cons.prems(3) at ft f by (simp add: blocks_ok_def)
    have "\<forall>i < BPB. \<not> (b + i < ?n \<and> \<not> allocated V ?ni (b + i))" using full(2) al by blast
    then have e: "(\<exists>b \<in> set (b # bs). \<exists>i < BPB. b + i < ?n \<and> \<not> allocated V ?ni (b + i))
        \<longleftrightarrow> (\<exists>b \<in> set bs. \<exists>i < BPB. b + i < ?n \<and> \<not> allocated V ?ni (b + i))" by auto
    have "\<forall>b \<in> set bs. b < ?n \<and> b mod BPB = 0" using Cons.prems(4) by simp
    from Cons.IH [OF t(2) tr bo this] show ?thesis unfolding e l at .
  qed
qed simp

lemma readsb_cache:
  assumes c: "cache s V D W B" and B: "B 1 = None" and d: "1 < disksize s" and cap: "card (W \<union> dom B) < NBUF"
  obtains t where "readsb env 1 s = Ret \<lparr>sb_size = rd32 (V 1) 0, sb_nblocks = rd32 (V 1) 4, sb_ninodes = rd32 (V 1) 8,
      sb_nlog = rd32 (V 1) 12\<rparr> t" "cache t V D W B" "bio_frame s t"
proof -
  from bread_cache [OF c B d] cap obtain b u where u: "bread env 1 1 s = Ret b u" "cache u V D W (B(1 := Some b))" "bio_frame s u"
    by blast
  have b: "(B(1 := Some b)) 1 = Some b" by simp
  have d: "bdata b u = Ret (V 1) u" using cache_busy [OF u(2) b] cache_buf [OF u(2)] by auto
  have "1 \<in> W \<or> V 1 = D 1" using cache_view [OF c _ B] by blast
  moreover have bn: "(B(1 := Some b))(1 := None) = B" using B by (simp add: fun_upd_idem)
  ultimately obtain t where t: "brelse b u = Ret () t" "cache t V D W B" "bio_frame u t"
    using brelse_cache [OF u(2) b, unfolded bn] by blast
  have "readsb env 1 s = Ret \<lparr>sb_size = rd32 (V 1) 0, sb_nblocks = rd32 (V 1) 4, sb_ninodes = rd32 (V 1) 8, sb_nlog = rd32 (V 1) 12\<rparr> t"
    using u(1) d t(1) by (simp add: readsb_def)
  then show ?thesis using that t(2) bio_frame_trans [OF u(3) t(3)] by blast
qed

text \<open>The first block numbers of the bitmap blocks.\<close>

lemma bitmap_blocks:
  fixes n c :: nat
  assumes "0 < c"
  shows "j < (n + c - 1) div c \<Longrightarrow> j * c < n" "k < n \<Longrightarrow> k div c < (n + c - 1) div c"
proof -
  have e: "Suc j \<le> (n + c - 1) div c \<longleftrightarrow> Suc j * c \<le> n + c - 1" for j
    using assms by (rule less_eq_div_iff_mult_less_eq)
  show "j < (n + c - 1) div c \<Longrightarrow> j * c < n" using e [of j] assms by simp
  assume "k < n"
  moreover have "k div c * c \<le> k" by simp
  ultimately have "Suc (k div c) * c \<le> n + c - 1" unfolding mult_Suc by linarith
  then have "Suc (k div c) \<le> (n + c - 1) div c" using e by blast
  then show "k div c < (n + c - 1) div c" by simp
qed

text \<open>
  C4: \<open>balloc\<close> inside a transaction with room for two blocks, as the kernel sees the disk through the cache. When the bitmap
  has a free block, \<open>balloc\<close> returns one that was free, sets its bit and no other, fills it with zeros, and changes nothing else outside
  of the log; when there is none it panics.
\<close>

theorem balloc_correct:
  assumes "cache s V D W B" "trans_ok s W B 2" "B 1 = None" "1 < disksize s"
    and "ni = rd32 (V 1) 8" "n = unat (rd32 (V 1) 0)" "blocks_ok s V B ni n"
  shows "if \<exists>k < n. \<not> allocated V ni k
    then \<exists>r t V' D' W'. balloc env 1 s = Ret (of_nat r) t \<and> cache t V' D' W' B \<and> block_taken V V' (log_area s) ni n r
    else \<exists>e. balloc env 1 s = Panic e"
proof -
  let ?sb = "\<lparr>sb_size = rd32 (V 1) 0, sb_nblocks = rd32 (V 1) 4, sb_ninodes = rd32 (V 1) 8, sb_nlog = rd32 (V 1) 12\<rparr>"
  let ?bs = "map (\<lambda>k. k * BPB) [0..<(n + BPB - 1) div BPB]"
  have "card (W \<union> dom B) < NBUF" using assms(2) by (simp add: trans_ok_def)
  from readsb_cache [OF assms(1,3,4) this, where env = env] obtain u where u: "readsb env 1 s = Ret ?sb u" "cache u V D W B" "bio_frame s u"
    by blast
  note f = log_more [OF u(3)]
  have at: "log_area u = log_area s" using f by (intro log_area_cong) simp
  have tu: "trans_ok u W B 2" using assms(2) trans_ok_frame [OF u(3)] by blast
  have bu: "blocks_ok u V B (sb_ninodes ?sb) (unat (sb_size ?sb))" using assms(5-7) at f by (simp add: blocks_ok_def)
  have p: "0 < BPB" by (simp add: BPB_def BSIZE_def)
  have bs: "\<forall>b \<in> set ?bs. b < unat (sb_size ?sb) \<and> b mod BPB = 0" using bitmap_blocks(1) [OF p] assms(6) by auto
  have "(\<exists>b \<in> set ?bs. \<exists>i < BPB. b + i < n \<and> \<not> allocated V ni (b + i)) \<longleftrightarrow> (\<exists>k < n. \<not> allocated V ni k)"
  proof
    assume "\<exists>k < n. \<not> allocated V ni k"
    then obtain k where k: "k < n" "\<not> allocated V ni k" by blast
    then have "k div BPB * BPB \<in> set ?bs" "k mod BPB < BPB" "k div BPB * BPB + k mod BPB = k"
      using bitmap_blocks(2) [OF p k(1)] p by auto
    then show "\<exists>b \<in> set ?bs. \<exists>i < BPB. b + i < n \<and> \<not> allocated V ni (b + i)" using k by metis
  qed blast
  moreover have "balloc env 1 s = balloc_loop env 1 ?sb ?bs u" using u(1) assms(6) by (simp add: balloc_def)
  ultimately show ?thesis using balloc_loop_ok [OF u(2) tu bu bs, of env] assms(5,6) by (simp only: at simp_thms superblock.simps)
qed

lemma bm_bit_clear: "bm_bit (bm_clear d a) b \<longleftrightarrow> b \<noteq> a \<and> bm_bit d b"
proof -
  have "b = a \<longleftrightarrow> b div 8 = a div 8 \<and> b mod 8 = a mod 8" by (metis div_mult_mod_eq)
  moreover have "a mod 8 < 8" by simp
  ultimately show ?thesis by (auto simp: bm_bit_iff bm_clear_def bit_simps)
qed

text \<open>
  C5: \<open>bfree\<close> inside a transaction with room for one block. An allocated block becomes free, no other block does, and nothing but
  its bitmap block changes outside of the log; freeing a free block panics.
\<close>

theorem bfree_correct:
  assumes "cache s V D W B" "trans_ok s W B 1" "B 1 = None" "1 < disksize s"
    and "ni = rd32 (V 1) 8" "n = unat (rd32 (V 1) 0)" "blocks_ok s V B ni n" "k < n"
  shows "if allocated V ni k
    then \<exists>t V' D' W'. bfree env 1 (of_nat k) s = Ret () t \<and> cache t V' D' W' B
      \<and> (\<forall>j < n. allocated V' ni j \<longleftrightarrow> allocated V ni j \<and> j \<noteq> k)
      \<and> (\<forall>x. x \<notin> log_area s \<longrightarrow> x \<noteq> BBLOCK (of_nat k) ni \<longrightarrow> V' x = V x)
    else bfree env 1 (of_nat k) s = Panic ''freeing free block''"
proof -
  let ?m = "BBLOCK (of_nat k) ni" and ?i = "k mod BPB"
  have n: "n \<le> 2 ^ 32" using blocks_okD(1) [OF assms(7)] .
  then have k: "unat (of_nat k :: u32) = k" using assms(8) by (simp add: unat_of_nat)
  have cap: "card (W \<union> dom B) < NBUF" using assms(2) by (simp add: trans_ok_def)
  from readsb_cache [OF assms(1,3,4) cap, where env = env] obtain v where v: "readsb env 1 s = Ret \<lparr>sb_size = rd32 (V 1) 0,
      sb_nblocks = rd32 (V 1) 4, sb_ninodes = rd32 (V 1) 8, sb_nlog = rd32 (V 1) 12\<rparr> v" "cache v V D W B" "bio_frame s v" by blast
  have m: "?m < disksize v" "?m \<notin> log_area s" "B ?m = None"
    using blocks_okD(2-4) [OF assms(7,8)] log_more [OF v(3)] by simp_all
  from bread_cache [OF v(2) m(3,1)] cap obtain b u where u: "bread env 1 ?m v = Ret b u" "cache u V D W (B(?m := Some b))" "bio_frame v u"
    by blast
  have f: "bio_frame s u" using bio_frame_trans [OF v(3) u(3)] .
  have au: "log_area u = log_area s" using log_more [OF f] by (intro log_area_cong) simp
  have bm: "(B(?m := Some b)) ?m = Some b" by simp
  have d: "bdata b u = Ret (V ?m) u" using cache_busy [OF u(2) bm] cache_buf [OF u(2)] by auto
  show ?thesis
  proof (cases "allocated V ni k")
    case True
    have mu: "?m \<notin> log_area u" using m(2) au by simp
    have tu: "trans_ok u W B (Suc 0)" using assms(2) trans_ok_frame [OF f] by simp
    obtain t1 t2 t V' D' where t: "upd_data b (\<lambda>d. bm_clear d ?i) u = Ret () t1" "log_write env b t1 = Ret () t2" "brelse b t2 = Ret () t"
        "cache t V' D' (insert ?m W) B" "trans_ok t (insert ?m W) B 0" "log_start t = log_start u" "disksize t = disksize u"
        "V' ?m = bm_clear (V ?m) ?i" "\<forall>x. x \<notin> log_area u \<longrightarrow> x \<noteq> ?m \<longrightarrow> V' x = V x"
      by (rule logged_update [OF u(2) m(3) mu tu, where f = "\<lambda>d. bm_clear d ?i" and env = env]) (rule that)
    have "bfree env 1 (of_nat k) s = Ret () t"
      using v(1) u(1) d t(1-3) True k assms(5) by (simp add: bfree_def Let_def allocated_def)
    moreover have "allocated V' ni j \<longleftrightarrow> allocated V ni j \<and> j \<noteq> k" if j: "j < n" for j
    proof (cases "BBLOCK (of_nat j) ni = ?m")
      case True
      then have "j div BPB = k div BPB" using same_bitmap_block [of j k ni] j assms(8) n by simp
      then have "j mod BPB = ?i \<longleftrightarrow> j = k" by (metis div_mult_mod_eq)
      then show ?thesis using t(8) True by (auto simp: allocated_def bm_bit_clear)
    next
      case False
      then have "V' (BBLOCK (of_nat j) ni) = V (BBLOCK (of_nat j) ni)" using t(9) au blocks_okD(3) [OF assms(7) j] by simp
      then show ?thesis using False by (auto simp: allocated_def)
    qed
    ultimately show ?thesis using True t(4) t(9) [unfolded au] by auto
  next
    case False
    then have "bfree env 1 (of_nat k) s = Panic ''freeing free block''"
      using v(1) u(1) d k assms(5) by (simp add: bfree_def Let_def allocated_def)
    then show ?thesis using False by simp
  qed
qed

text \<open>A file system of eight blocks of which the last is free.\<close>

definition small_disk :: "u32 \<Rightarrow> block" where
  "small_disk = (\<lambda>_. zero_block)(1 := wr32 zero_block 0 8, 3 := zero_block(0 := 0x7F))"

lemma small_disk_blocks: "allocated small_disk 0 k \<longleftrightarrow> k \<noteq> 7" "BBLOCK (of_nat k) 0 = 3" if "k < 8" for k
proof -
  have "k div BPB = 0" "k mod BPB = k" using that by (simp_all add: BPB_def BSIZE_def)
  then show b: "BBLOCK (of_nat k) 0 = 3" using that by (simp add: BBLOCK_nat)
  have "k = 0 \<or> k = 1 \<or> k = 2 \<or> k = 3 \<or> k = 4 \<or> k = 5 \<or> k = 6 \<or> k = 7" using that by auto
  then show "allocated small_disk 0 k \<longleftrightarrow> k \<noteq> 7"
    using b \<open>k mod BPB = k\<close> by (auto simp: allocated_def small_disk_def bm_bit_def)
qed

lemma sample_area:
  assumes "log_start s = 1000" "x \<in> log_area s"
  shows "1000 < x" "x < 1024"
proof -
  obtain i where i: "i < 10" "x = 1000 + of_nat i + 1" using assms by (auto simp: log_area_def LOGSIZE_def)
  then have "x = of_nat (1001 + i)" by simp
  then have "unat x = 1001 + i" using i(1) by (simp add: unat_of_nat del: of_nat_add)
  then show "1000 < x" "x < 1024" using i(1) by (simp_all add: word_less_nat_alt)
qed

lemma small_disk_ready: "trans_ok (reboot log_sample small_disk) {} no_busy 2" "blocks_ok (reboot log_sample small_disk) small_disk no_busy 0 8"
proof -
  let ?s = "reboot log_sample small_disk"
  have a: "1000 < x \<and> x < 1024" if "x \<in> log_area ?s" for x
    using sample_area [OF _ that] by (simp add: log_sample_def)
  then have x: "x \<notin> log_area ?s" if "x < 1000" for x using that by (meson less_asym)
  show "trans_ok ?s {} no_busy 2"
    using a by (simp add: trans_ok_def reboot_def log_sample_def LOGSIZE_def NBUF_def)
  have w: "(of_nat k :: u32) < 1000" "(of_nat k :: u32) < 1024" "(of_nat k :: u32) \<noteq> 3" if "\<not> allocated small_disk 0 k" "k < 8" for k
    using that small_disk_blocks(1) by auto
  show "blocks_ok ?s small_disk no_busy 0 8"
    using x w small_disk_blocks(2) by (simp add: blocks_ok_def log_sample_def)
qed

lemma small_disk_super: "rd32 (small_disk 1) 0 = 8" "rd32 (small_disk 1) 8 = 0"
  by (simp_all add: small_disk_def rd32_def wr32_def zero_block_def)

theorem balloc_correct_witness:
  "\<exists>t V' D' W'. balloc (\<lambda>_ s. s) 1 (reboot log_sample small_disk) = Ret 7 t \<and> cache t V' D' W' no_busy \<and> V' 7 = zero_block
     \<and> (\<forall>k < 8. allocated V' 0 k)"
proof -
  let ?s = "reboot log_sample small_disk"
  have "if \<exists>k < 8. \<not> allocated small_disk 0 k
    then \<exists>r t V' D' W'. balloc (\<lambda>_ s. s) 1 ?s = Ret (of_nat r) t \<and> cache t V' D' W' no_busy \<and> block_taken small_disk V' (log_area ?s) 0 8 r
    else \<exists>e. balloc (\<lambda>_ s. s) 1 ?s = Panic e"
    by (intro balloc_correct [OF reboot_cache small_disk_ready(1)]) (simp_all add: log_sample_def small_disk_super small_disk_ready(2) [unfolded log_sample_def])
  moreover have "\<exists>k < 8. \<not> allocated small_disk 0 k" using small_disk_blocks(1) [of 7] by (intro exI [of _ 7]) simp
  ultimately obtain r t V' D' W' where r: "balloc (\<lambda>_ s. s) 1 ?s = Ret (of_nat r) t" "cache t V' D' W' no_busy"
    "block_taken small_disk V' (log_area ?s) 0 8 r" by auto
  then have "r = 7" using small_disk_blocks(1) [of r] by (auto simp: block_taken_def)
  then show ?thesis using r small_disk_blocks(1) by (auto simp: block_taken_def)
qed

theorem bfree_correct_witness:
  "\<exists>t V' D' W'. bfree (\<lambda>_ s. s) 1 6 (reboot log_sample small_disk) = Ret () t \<and> cache t V' D' W' no_busy \<and> \<not> allocated V' 0 6 \<and> allocated V' 0 5"
proof -
  let ?s = "reboot log_sample small_disk"
  have t: "trans_ok ?s {} no_busy 1" using small_disk_ready(1) by (simp add: trans_ok_def)
  have a: "allocated small_disk 0 6" "allocated small_disk 0 5" using small_disk_blocks(1) by simp_all
  have d: "1 < disksize ?s" by (simp add: log_sample_def)
  have n: "(0 :: u32) = rd32 (small_disk 1) 8" "8 = unat (rd32 (small_disk 1) 0)" by (simp_all add: small_disk_super)
  from bfree_correct [OF reboot_cache t refl d n small_disk_ready(2), where k = 6 and env = "\<lambda>_ s. s"] a(1)
  obtain t V' D' W' where r: "bfree (\<lambda>_ s. s) 1 (of_nat 6) ?s = Ret () t" "cache t V' D' W' no_busy"
    "\<forall>j < 8. allocated V' 0 j \<longleftrightarrow> allocated small_disk 0 j \<and> j \<noteq> 6" by (simp only: if_True) auto
  have "\<not> allocated V' 0 6" "allocated V' 0 5" using r(3) a by simp_all
  moreover have "(of_nat 6 :: u32) = 6" by simp
  ultimately show ?thesis using r(1,2) by metis
qed

end
