(* ===== verification/File_Spec.thy ===== *)
theory File_Spec
  imports Dir Block_Spec
begin

section \<open>Reading a file\<close>

text \<open>
  \<open>bmap\<close> and \<open>readi\<close> in terms of what the kernel sees through the cache: a file is read through its direct, indirect and double
  indirect blocks without changing anything.
\<close>

lemma fs_more:
  fixes s t :: "'x fs_st_scheme"
  assumes "bio_frame s t"
  shows "inodes t = inodes s" "disksize t = disksize s"
  using assms by (cases s; cases t; simp add: bio_frame_def)+

lemma bread_data:
  assumes c: "cache s V D W B" and B: "B sec = None" "sec < disksize s" "card (W \<union> dom B) < NBUF"
  obtains b u where "bread env 1 sec s = Ret b u" "bdata b u = Ret (V sec) u" "cache u V D W (B(sec := Some b))" "bio_frame s u"
proof -
  from bread_cache [OF c B(1,2)] B(3) obtain b u where u: "bread env 1 sec s = Ret b u" "cache u V D W (B(sec := Some b))" "bio_frame s u"
    by blast
  have "(B(sec := Some b)) sec = Some b" by simp
  from cache_busy [OF u(2) this] cache_buf [OF u(2)] have "bdata b u = Ret (V sec) u" by auto
  then show ?thesis using that u by blast
qed

lemma brelse_clean:
  assumes c: "cache s V D W (B(sec := Some b))" and B: "B sec = None" "sec \<in> W \<or> V sec = D sec"
  obtains t where "brelse b s = Ret () t" "cache t V D W B" "bio_frame s t"
proof -
  have b: "(B(sec := Some b)) sec = Some b" by simp
  have bn: "(B(sec := Some b))(sec := None) = B" using B(1) by (simp add: fun_upd_idem)
  show ?thesis using brelse_cache [OF c b B(2), unfolded bn] that by blast
qed

subsection \<open>Where the blocks of a file are\<close>

text \<open>The blocks \<open>bmap\<close> meets on its way to block \<open>bn\<close> of a file, ending with that block.\<close>

definition block_path :: "(u32 \<Rightarrow> block) \<Rightarrow> inode \<Rightarrow> nat \<Rightarrow> u32 list" where
  "block_path V q bn =
     (if bn < NDIRECT then [i_addrs q ! bn]
      else let k = bn - NDIRECT in
      if k < NINDIRECT
      then let a = i_addrs q ! (NDIRECT + k div PTRS_PER_BLOCK) in [a, blk_ptr (V a) (k mod PTRS_PER_BLOCK)]
      else let k = (k - NINDIRECT) mod (PTRS_PER_BLOCK * PTRS_PER_BLOCK); a = i_addrs q ! (NDIRECT + NUM_INDIRECT);
               b = blk_ptr (V a) (k div PTRS_PER_BLOCK) in [a, b, blk_ptr (V b) (k mod PTRS_PER_BLOCK)])"

definition block_mapped :: "(u32 \<Rightarrow> block) \<Rightarrow> u32 \<Rightarrow> inode \<Rightarrow> nat \<Rightarrow> bool" where
  "block_mapped V sz q bn \<longleftrightarrow> bn < MAXFILE \<and> distinct (block_path V q bn)
     \<and> (\<forall>a \<in> set (block_path V q bn). a \<noteq> 0 \<and> a < sz)"

lemma bmap_addr_mapped: "i_addrs (inodes s ip) ! k \<noteq> 0 \<Longrightarrow> bmap_addr env ip k s = Ret (i_addrs (inodes s ip) ! k) s"
  by (simp add: bmap_addr_def)

lemma bmap_entry_mapped: "bdata bp s = Ret d s \<Longrightarrow> blk_ptr d k \<noteq> 0 \<Longrightarrow> bmap_entry env ip bp k s = Ret (blk_ptr d k) s"
  by (simp add: bmap_entry_def)

lemma bmap_mapped:
  assumes c: "cache s V D W no_busy" and q: "i_dev (inodes s ip) = 1"
    and m: "block_mapped V (disksize s) (inodes s ip) bn" and cap: "Suc (card W) < NBUF"
  obtains t where "bmap env ip bn s = Ret (last (block_path V (inodes s ip) bn)) t" "cache t V D W no_busy" "bio_frame s t"
proof -
  let ?q = "inodes s ip" and ?P = PTRS_PER_BLOCK
  have clean: "sec \<in> W \<or> V sec = D sec" for sec using cache_view [OF c] by blast
  have w: "W \<union> dom no_busy = W" by simp
  consider (direct) "bn < NDIRECT" | (indirect) "\<not> bn < NDIRECT" "bn - NDIRECT < NINDIRECT"
    | (double) "\<not> bn < NDIRECT" "\<not> bn - NDIRECT < NINDIRECT" by blast
  then show ?thesis
  proof cases
    case direct
    then have "bmap env ip bn s = Ret (i_addrs ?q ! bn) s"
      using m by (simp add: bmap_def bmap_addr_mapped block_mapped_def block_path_def)
    then show ?thesis using that c bio_frame_refl [of s] direct by (simp add: block_path_def)
  next
    case indirect
    define k where "k = bn - NDIRECT"
    define a where "a = i_addrs ?q ! (NDIRECT + k div ?P)"
    have p: "block_path V ?q bn = [a, blk_ptr (V a) (k mod ?P)]" using indirect by (simp add: block_path_def Let_def a_def k_def)
    have a: "a \<noteq> 0" "a < disksize s" "blk_ptr (V a) (k mod ?P) \<noteq> 0" using m p by (simp_all add: block_mapped_def)
    obtain b u where u: "bread env 1 a s = Ret b u" "bdata b u = Ret (V a) u" "cache u V D W (no_busy(a := Some b))" "bio_frame s u"
      using bread_data [OF c refl a(2), unfolded w] cap by (metis Suc_lessD)
    obtain t where t: "brelse b u = Ret () t" "cache t V D W no_busy" "bio_frame u t"
      using brelse_clean [OF u(3) refl clean] by blast
    have "bmap_addr env ip (NDIRECT + k div ?P) s = Ret a s" using a(1) unfolding a_def by (rule bmap_addr_mapped)
    then have "bmap env ip bn s = Ret (blk_ptr (V a) (k mod ?P)) t"
      using indirect u(1) t(1) q bmap_entry_mapped [OF u(2) a(3)] by (simp add: bmap_def Let_def k_def [symmetric])
    then show ?thesis using that t(2) bio_frame_trans [OF u(4) t(3)] p by simp
  next
    case double
    define k where "k = (bn - (NDIRECT + NINDIRECT)) mod (?P * ?P)"
    define a where "a = i_addrs ?q ! (NDIRECT + NUM_INDIRECT)"
    define e where "e = blk_ptr (V a) (k div ?P)"
    have p: "block_path V ?q bn = [a, e, blk_ptr (V e) (k mod ?P)]" using double by (simp add: block_path_def Let_def a_def k_def e_def)
    have a: "a \<noteq> 0" "a < disksize s" "blk_ptr (V a) (k div ?P) \<noteq> 0" "e < disksize s" "blk_ptr (V e) (k mod ?P) \<noteq> 0" "e \<noteq> a"
      using m p by (auto simp: block_mapped_def e_def [symmetric])
    have k: "bn - NDIRECT - NINDIRECT < NDOUBLE"
    proof -
      have "bn < NDIRECT + NINDIRECT + NDOUBLE" using m by (simp add: block_mapped_def MAXFILE_def)
      then show ?thesis using double by linarith
    qed
    obtain b u where u: "bread env 1 a s = Ret b u" "bdata b u = Ret (V a) u" "cache u V D W (no_busy(a := Some b))" "bio_frame s u"
      using bread_data [OF c refl a(2), unfolded w] cap by (metis Suc_lessD)
    have "card (W \<union> dom (no_busy(a := Some b))) < NBUF" using cap card_insert_less [of W 0 NBUF a] by simp
    moreover have "e < disksize u" using a(4) fs_more [OF u(4)] by simp
    moreover have "(no_busy(a := Some b)) e = None" using a(6) by simp
    ultimately obtain b' v where v: "bread env 1 e u = Ret b' v" "bdata b' v = Ret (V e) v"
        "cache v V D W (no_busy(a := Some b, e := Some b'))" "bio_frame u v"
      using bread_data [OF u(3)] by metis
    have tw: "no_busy(a := Some b, e := Some b') = (no_busy(e := Some b'))(a := Some b)" using a(6) by (simp add: fun_upd_twist)
    obtain t where t: "brelse b v = Ret () t" "cache t V D W (no_busy(e := Some b'))" "bio_frame v t"
      using brelse_clean [OF v(3) [unfolded tw] _ clean] a(6) by auto
    obtain t' where t': "brelse b' t = Ret () t'" "cache t' V D W no_busy" "bio_frame t t'"
      using brelse_clean [OF t(2) refl clean] by blast
    have "bmap_addr env ip (NDIRECT + NUM_INDIRECT) s = Ret a s" using a(1) unfolding a_def by (rule bmap_addr_mapped)
    then have "bmap env ip bn s = Ret (blk_ptr (V e) (k mod ?P)) t'"
      using double k u(1) v(1) t(1) t'(1) q bmap_entry_mapped [OF u(2) a(3)] bmap_entry_mapped [OF v(2) a(5)]
      by (simp add: bmap_def Let_def k_def [symmetric] e_def [symmetric])
    then show ?thesis
      using that t'(2) bio_frame_trans [OF bio_frame_trans [OF bio_frame_trans [OF u(4) v(4)] t(3)] t'(3)] p by simp
  qed
qed

subsection \<open>The content of a file\<close>

definition content :: "(u32 \<Rightarrow> block) \<Rightarrow> inode \<Rightarrow> nat \<Rightarrow> u8" where
  "content V q k = V (last (block_path V q (k div BSIZE))) (k mod BSIZE)"

definition file_mapped :: "(u32 \<Rightarrow> block) \<Rightarrow> u32 \<Rightarrow> inode \<Rightarrow> bool" where
  "file_mapped V sz q \<longleftrightarrow> (\<forall>k < unat (i_size q). block_mapped V sz q (k div BSIZE))"

lemma block_pos: "y < c \<Longrightarrow> (c * d + y) div c = d \<and> (c * d + y) mod c = (y :: nat)"
  by simp

lemma put_bytes_var [simp]: "put_bytes VarDst i cs s = Ret () s"
proof -
  have "kfor xs (\<lambda>k. put_byte VarDst (i + of_nat k) (cs ! k)) s = Ret () s" for xs
    by (induction xs) (simp_all add: put_byte_def)
  then show ?thesis by (simp add: put_bytes_def)
qed

lemma chunk_content:
  assumes "m = chunk off r"
  shows "blk_read (V (last (block_path V q (unat off div BSIZE)))) (unat off mod BSIZE) m = map (content V q) [unat off..<unat off + m]"
proof (rule nth_equalityI)
  fix j assume "j < length (blk_read (V (last (block_path V q (unat off div BSIZE)))) (unat off mod BSIZE) m)"
  then have j: "j < m" by (simp add: blk_read_def)
  have "unat off mod BSIZE + j < BSIZE" using j assms by (simp add: chunk_def) linarith
  moreover have "unat off + j = BSIZE * (unat off div BSIZE) + (unat off mod BSIZE + j)" by simp
  ultimately have "(unat off + j) div BSIZE = unat off div BSIZE" "(unat off + j) mod BSIZE = unat off mod BSIZE + j"
    using block_pos [of "unat off mod BSIZE + j" BSIZE "unat off div BSIZE"] by simp_all
  then show "blk_read (V (last (block_path V q (unat off div BSIZE)))) (unat off mod BSIZE) m ! j
      = map (content V q) [unat off..<unat off + m] ! j"
    using j by (simp add: blk_read_def content_def)
qed (simp add: blk_read_def)

lemma readi_loop_content:
  assumes "cache s V D W no_busy" "i_dev (inodes s ip) = 1" "Suc (card W) < NBUF"
    and "file_mapped V (disksize s) (inodes s ip)" "unat off + r \<le> unat (i_size (inodes s ip))"
  shows "\<exists>t. readi_loop env ip VarDst tot off r s = Ret (map (content V (inodes s ip)) [unat off..<unat off + r]) t
    \<and> cache t V D W no_busy \<and> bio_frame s t"
  using assms
proof (induction r arbitrary: s tot off rule: less_induct)
  case (less r)
  let ?q = "inodes s ip"
  show ?case
  proof (cases "r = 0")
    case True
    then show ?thesis using less.prems(1) bio_frame_refl [of s] by (simp add: readi_loop.simps)
  next
    case False
    define m where "m = chunk off r"
    have m: "0 < m" "m \<le> r" using chunk_pos [of r off] False by (simp_all add: m_def chunk_def)
    have bm: "block_mapped V (disksize s) ?q (unat off div BSIZE)" using less.prems(4,5) False by (simp add: file_mapped_def)
    let ?a = "last (block_path V ?q (unat off div BSIZE))"
    obtain u where u: "bmap env ip (unat off div BSIZE) s = Ret ?a u" "cache u V D W no_busy" "bio_frame s u"
      using bmap_mapped [OF less.prems(1,2) bm less.prems(3)] by blast
    have "block_path V ?q (unat off div BSIZE) \<noteq> []" by (simp add: block_path_def Let_def)
    then have "?a \<in> set (block_path V ?q (unat off div BSIZE))" by (rule last_in_set)
    then have "?a < disksize u" using bm fs_more [OF u(3)] by (simp add: block_mapped_def)
    moreover have "card (W \<union> dom no_busy) < NBUF" using less.prems(3) by simp
    ultimately obtain b v where v: "bread env 1 ?a u = Ret b v" "bdata b v = Ret (V ?a) v" "cache v V D W (no_busy(?a := Some b))" "bio_frame u v"
      using bread_data [OF u(2) refl] by metis
    have "?a \<in> W \<or> V ?a = D ?a" using cache_view [OF less.prems(1)] by blast
    then obtain w where w: "brelse b v = Ret () w" "cache w V D W no_busy" "bio_frame v w"
      using brelse_clean [OF v(3) refl] by blast
    have f: "bio_frame s w" using bio_frame_trans [OF bio_frame_trans [OF u(3) v(4)] w(3)] .
    have i: "inodes w = inodes s" "disksize w = disksize s" "inodes u = inodes s" using fs_more [OF f] fs_more [OF u(3)] by simp_all
    have "unat off + m < 2 ^ 32" if "m < r" using less.prems(5) that unsigned_less [of "i_size ?q", where ?'a = nat] by simp
    then have o: "unat (off + of_nat m) = unat off + m" if "m < r" using that unat_add_lem [of off "of_nat m"] by (simp add: unat_of_nat)
    show ?thesis
    proof (cases "m = r")
      case True
      then have "readi_loop env ip VarDst (tot + of_nat m) (off + of_nat m) (r - m) w = Ret [] w" by (simp add: readi_loop.simps)
      then have "readi_loop env ip VarDst tot off r s = Ret (map (content V ?q) [unat off..<unat off + r]) w"
        using False u(1) v(1,2) w(1) less.prems(2) i chunk_content [OF m_def, of V ?q] True
        by (subst readi_loop.simps) (simp add: Let_def m_def [symmetric])
      then show ?thesis using w(2) f by blast
    next
      case False
      then have lt: "m < r" using m by simp
      have "\<exists>t. readi_loop env ip VarDst (tot + of_nat m) (off + of_nat m) (r - m) w
          = Ret (map (content V (inodes w ip)) [unat (off + of_nat m)..<unat (off + of_nat m) + (r - m)]) t
          \<and> cache t V D W no_busy \<and> bio_frame w t"
        using less.prems(2-5) m i o [OF lt] by (intro less.IH [OF _ w(2)]) simp_all
      then obtain t where t: "readi_loop env ip VarDst (tot + of_nat m) (off + of_nat m) (r - m) w
          = Ret (map (content V ?q) [unat off + m..<unat off + r]) t" "cache t V D W no_busy" "bio_frame w t"
        using i o [OF lt] m by auto
      have "[unat off..<unat off + r] = [unat off..<unat off + m] @ [unat off + m..<unat off + r]"
        using m upt_add_eq_append [of "unat off" "unat off + m" "r - m"] by simp
      then have "readi_loop env ip VarDst tot off r s = Ret (map (content V ?q) [unat off..<unat off + r]) t"
        using \<open>r \<noteq> 0\<close> u(1) v(1,2) w(1) t(1) less.prems(2) i chunk_content [OF m_def, of V ?q]
        by (subst readi_loop.simps) (simp add: Let_def m_def [symmetric])
      then show ?thesis using t(2) bio_frame_trans [OF f t(3)] by blast
    qed
  qed
qed

lemma file_mapped_size:
  assumes "file_mapped V sz q"
  shows "unat (i_size q) \<le> MAXFILE * BSIZE"
proof (cases "unat (i_size q)")
  case (Suc k)
  then have "k div BSIZE < MAXFILE" using assms by (simp add: file_mapped_def block_mapped_def)
  then have "k < MAXFILE * BSIZE" by (simp add: div_less_iff_less_mult BSIZE_def)
  then show ?thesis using Suc by simp
qed simp

text \<open>
  C3: \<open>readi\<close> on a file whose blocks are mapped, into a variable of the kernel. It answers the bytes of the file from the
  offset on, as many as were asked for or as the file has, through direct, indirect and double indirect blocks, and what the kernel sees of
  the disk stays as it is. An offset behind the end of the file or a range that wraps is refused.
\<close>

theorem readi_correct:
  assumes "cache s V D W no_busy" "Suc (card W) < NBUF" "q = inodes s ip" "i_dev q = 1" "i_type q \<noteq> T_DEV"
    and "file_mapped V (disksize s) q" "m = min (unat n) (unat (i_size q) - unat off)"
  shows "if i_size q < off \<or> 2 ^ 32 \<le> unat off + unat n then readi env ip VarDst off n s = Ret (-1, []) s
    else \<exists>t. readi env ip VarDst off n s = Ret (int m, map (content V q) [unat off..<unat off + m]) t
      \<and> cache t V D W no_busy \<and> bio_frame s t"
proof -
  have wrap: "off + n < off \<longleftrightarrow> 2 ^ 32 \<le> unat off + unat n"
    using unsigned_less [of off, where ?'a = nat] unsigned_less [of n, where ?'a = nat]
    by (auto simp: word_less_nat_alt unat_plus_if')
  show ?thesis
  proof (cases "i_size q < off \<or> 2 ^ 32 \<le> unat off + unat n")
    case True
    then have "i_size q < off \<or> off + n < off" using wrap by blast
    then show ?thesis using True assms(3,5) by (auto simp: readi_def)
  next
    case False
    then have o: "unat off \<le> unat (i_size q)" "unat (off + n) = unat off + unat n" "\<not> off + n < off"
      using wrap unat_add_lem [of off n] by (auto simp: word_less_nat_alt)
    let ?n = "if i_size q < off + n then i_size q - off else n"
    have n: "unat ?n = m" using o assms(7) by (auto simp: unat_sub word_le_nat_alt word_less_nat_alt)
    have "m < 2 ^ 31" using file_mapped_size [OF assms(6)] assms(7) by (simp add: fs_defs)
    then have "sint (of_nat (unat ?n) :: u32) = int m" using n sint_small [of m] by simp
    then have "sint ?n = int m" by simp
    moreover have "unat off + m \<le> unat (i_size (inodes s ip))" using o(1) assms(3,7) by simp
    from readi_loop_content [OF assms(1) _ assms(2) _ this, where env = env and tot = 0] assms(3,4,6)
    obtain t where t: "readi_loop env ip VarDst 0 off m s = Ret (map (content V q) [unat off..<unat off + m]) t"
      "cache t V D W no_busy" "bio_frame s t" by auto
    ultimately have "readi env ip VarDst off n s = Ret (int m, map (content V q) [unat off..<unat off + m]) t"
      using False o(3) n assms(3,5) by (cases "i_size (inodes s ip) < off + n") (simp_all add: readi_def Let_def)
    then show ?thesis using False t(2,3) by auto
  qed
qed

subsection \<open>Overwriting\<close>

text \<open>No block of the file is used twice, and none is in the area \<open>A\<close>.\<close>

definition file_apart :: "(u32 \<Rightarrow> block) \<Rightarrow> u32 set \<Rightarrow> inode \<Rightarrow> bool" where
  "file_apart V A q \<longleftrightarrow> (\<forall>i < unat (i_size q). \<forall>j < unat (i_size q).
     last (block_path V q (i div BSIZE)) \<notin> A
     \<and> (\<forall>b \<in> set (butlast (block_path V q (j div BSIZE))). b \<notin> A \<and> b \<noteq> last (block_path V q (i div BSIZE)))
     \<and> (i div BSIZE \<noteq> j div BSIZE \<longrightarrow> last (block_path V q (i div BSIZE)) \<noteq> last (block_path V q (j div BSIZE))))"

lemma block_path_cong: "\<forall>b \<in> set (butlast (block_path V q bn)). V' b = V b \<Longrightarrow> block_path V' q bn = block_path V q bn"
  by (auto simp: block_path_def Let_def split: if_splits)

lemma get_bytes_var:
  "unat i + m \<le> length cs \<Longrightarrow> length cs < 2 ^ 32 \<Longrightarrow> get_bytes (VarSrc cs) i m s = Ret (take m (drop (unat i) cs)) s"
proof (induction m arbitrary: i)
  case (Suc m)
  have "unat (i + 1) = unat i + 1" using Suc.prems unat_add_lem [of i 1] by simp
  moreover have "drop (unat i) cs = cs ! unat i # drop (Suc (unat i)) cs" using Suc.prems by (intro Cons_nth_drop_Suc [symmetric]) simp
  ultimately show ?case using Suc by (simp add: get_byte_def)
qed simp

text \<open>One turn of the loop: the block that holds the bytes from \<open>off\<close> on is changed.\<close>

lemma overwrite_view:
  assumes m: "file_mapped V sz q" and a: "file_apart V A q" and o: "off < unat (i_size q)"
    and d: "d = last (block_path V q (off div BSIZE))" and l: "off mod BSIZE + length cs \<le> BSIZE"
    and V1: "V1 d = blk_write (V d) (off mod BSIZE) cs" "\<forall>x. x \<notin> A \<longrightarrow> x \<noteq> d \<longrightarrow> V1 x = V x"
  shows "file_mapped V1 sz q" "file_apart V1 A q"
    and "\<forall>j < unat (i_size q). content V1 q j = (if off \<le> j \<and> j < off + length cs then cs ! (j - off) else content V q j)"
    and "\<forall>j < unat (i_size q). block_path V1 q (j div BSIZE) = block_path V q (j div BSIZE)"
proof -
  have p: "block_path V1 q (j div BSIZE) = block_path V q (j div BSIZE)" if "j < unat (i_size q)" for j
    using V1(2) a o that d by (intro block_path_cong) (auto simp: file_apart_def)
  then show "\<forall>j < unat (i_size q). block_path V1 q (j div BSIZE) = block_path V q (j div BSIZE)" by blast
  show "file_mapped V1 sz q" using m p by (simp add: file_mapped_def block_mapped_def)
  show "file_apart V1 A q" using a p by (simp add: file_apart_def)
  have B: "0 < BSIZE" by (simp add: BSIZE_def)
  have e: "off = BSIZE * (off div BSIZE) + off mod BSIZE" by simp
  show "\<forall>j < unat (i_size q). content V1 q j = (if off \<le> j \<and> j < off + length cs then cs ! (j - off) else content V q j)"
  proof (intro allI impI)
    fix j assume j: "j < unat (i_size q)"
    have ej: "j = BSIZE * (j div BSIZE) + j mod BSIZE" "j mod BSIZE < BSIZE" using B by simp_all
    show "content V1 q j = (if off \<le> j \<and> j < off + length cs then cs ! (j - off) else content V q j)"
    proof (cases "j div BSIZE = off div BSIZE")
      case True
      then have "off mod BSIZE \<le> j mod BSIZE \<longleftrightarrow> off \<le> j" "j mod BSIZE < off mod BSIZE + length cs \<longleftrightarrow> j < off + length cs"
        "j mod BSIZE - off mod BSIZE = j - off" using e ej by (metis add_le_cancel_left, metis add.assoc add_less_cancel_left, metis diff_cancel2 add.commute)
      then show ?thesis using True p [OF j] V1(1) d by (simp add: content_def blk_write_def)
    next
      case False
      then have "last (block_path V q (j div BSIZE)) \<noteq> d" "last (block_path V q (j div BSIZE)) \<notin> A"
        using a j o d by (auto simp: file_apart_def)
      moreover have "\<not> (off \<le> j \<and> j < off + length cs)"
      proof
        assume "off \<le> j \<and> j < off + length cs"
        then have "BSIZE * (off div BSIZE) \<le> j" "j < BSIZE * Suc (off div BSIZE)" unfolding mult_Suc_right using e l by linarith+
        then have "j div BSIZE = off div BSIZE" by (rule div_nat_eqI)
        then show False using False by blast
      qed
      ultimately show ?thesis using V1(2) p [OF j] by (auto simp: content_def)
    qed
  qed
qed

lemma writei_loop_overwrites:
  assumes "cache s V D W no_busy" "trans_ok s W no_busy k" "q = inodes s ip" "i_dev q = 1"
    and "file_mapped V (disksize s) q" "file_apart V (log_area s) q" "unat off + r \<le> unat (i_size q)"
    and "unat tot + r = length bs" "length bs < 2 ^ 32" "r = 0 \<or> unat off mod BSIZE + r \<le> k * BSIZE"
  shows "\<exists>t V' D' W'. writei_loop env ip (VarSrc bs) tot off r s = Ret () t \<and> cache t V' D' W' no_busy
    \<and> inodes t = inodes s \<and> disksize t = disksize s \<and> file_mapped V' (disksize s) q
    \<and> (\<forall>j < unat (i_size q). content V' q j
        = (if unat off \<le> j \<and> j < unat off + r then bs ! (unat tot + (j - unat off)) else content V q j))
    \<and> (\<forall>x. x \<notin> log_area s \<longrightarrow> (\<forall>j < unat (i_size q). x \<noteq> last (block_path V q (j div BSIZE))) \<longrightarrow> V' x = V x)"
  using assms
proof (induction r arbitrary: s V D W k tot off rule: less_induct)
  case (less r)
  note prems = less.prems
  show ?case
  proof (cases "r = 0")
    case True
    then have "writei_loop env ip (VarSrc bs) tot off r s = Ret () s" by (simp add: writei_loop.simps)
    then show ?thesis using prems(1,5) True by (intro exI [of _ s] exI [of _ V] exI [of _ D] exI [of _ W]) auto
  next
    case False
    define m where "m = chunk off r"
    define d where "d = last (block_path V q (unat off div BSIZE))"
    define cs where "cs = take m (drop (unat tot) bs)"
    have m: "0 < m" "m \<le> r" "unat off mod BSIZE + m \<le> BSIZE"
      using chunk_pos [of r off] False by (simp_all add: m_def chunk_def BSIZE_def)
    have cs: "length cs = m" using prems(8) m(2) by (simp add: cs_def)
    have o: "unat off < unat (i_size q)" using prems(7) False by simp
    obtain k' where k: "k = Suc k'" using prems(10) False by (cases k) simp_all
    have bm: "block_mapped V (disksize s) (inodes s ip) (unat off div BSIZE)" using prems(3,5) o by (simp add: file_mapped_def)
    have cap: "Suc (card W) < NBUF" using prems(2) k by (simp add: trans_ok_def)
    have dev: "i_dev (inodes s ip) = 1" using prems(3,4) by simp
    obtain u where u: "bmap env ip (unat off div BSIZE) s = Ret d u" "cache u V D W no_busy" "bio_frame s u"
      using bmap_mapped [OF prems(1) dev bm cap] prems(3) unfolding d_def by blast
    have "block_path V q (unat off div BSIZE) \<noteq> []" by (simp add: block_path_def Let_def)
    then have "d \<in> set (block_path V q (unat off div BSIZE))" unfolding d_def by (rule last_in_set)
    then have du: "d < disksize u" using bm fs_more [OF u(3)] prems(3) by (simp add: block_mapped_def)
    have "card (W \<union> dom no_busy) < NBUF" using cap by simp
    then obtain b v where v: "bread env 1 d u = Ret b v" "cache v V D W (no_busy(d := Some b))" "bio_frame u v"
      using bread_data [OF u(2) refl du] by metis
    have f: "bio_frame s v" using bio_frame_trans [OF u(3) v(3)] .
    have av: "log_area v = log_area s" using log_more [OF f] by (intro log_area_cong) simp
    have dl: "d \<notin> log_area v" using prems(6) o by (simp add: av d_def file_apart_def)
    have tv: "trans_ok v W no_busy (Suc k')" using prems(2) trans_ok_frame [OF f] k by simp
    obtain t1 t2 t V1 D1 where t: "upd_data b (\<lambda>d. blk_write d (unat off mod BSIZE) cs) v = Ret () t1"
        "log_write env b t1 = Ret () t2" "brelse b t2 = Ret () t"
        "cache t V1 D1 (insert d W) no_busy" "trans_ok t (insert d W) no_busy k'" "log_start t = log_start v" "disksize t = disksize v"
        "V1 d = blk_write (V d) (unat off mod BSIZE) cs" "\<forall>x. x \<notin> log_area v \<longrightarrow> x \<noteq> d \<longrightarrow> V1 x = V x"
        "log_st.more t = log_st.more v"
      by (rule logged_update [OF v(2) refl dl tv, where f = "\<lambda>d. blk_write d (unat off mod BSIZE) cs" and env = env]) (rule that)
    have i: "inodes t = inodes s" "disksize t = disksize s" "inodes u = inodes s"
      using t(7,10) log_more_inodes [of v t] fs_more [OF f] fs_more [OF u(3)] by simp_all
    have at: "log_area t = log_area s" using t(6) av log_area_cong [of t v] by simp
    note ov = overwrite_view [OF prems(5,6) o d_def _ t(8) t(9) [unfolded av], unfolded cs, OF m(3)]
    have gb: "get_bytes (VarSrc bs) tot m v = Ret cs v" unfolding cs_def using prems(8,9) m(2) by (intro get_bytes_var) simp_all
    have step: "writei_loop env ip (VarSrc bs) tot off r s
        = writei_loop env ip (VarSrc bs) (tot + of_nat m) (off + of_nat m) (r - m) t"
      using False u(1) v(1) gb t(1-3) dev i by (subst writei_loop.simps) (simp add: Let_def m_def [symmetric])
    have n: "unat (tot + of_nat m) = unat tot + m" using prems(8,9) m(2) unat_add_lem [of tot "of_nat m"] by (simp add: unat_of_nat)
    have nt: "unat (tot + of_nat m) + (r - m) = length bs" using n prems(8) m(2) by simp
    have "unat off + m < 2 ^ 32" using prems(7) m(2) unsigned_less [of "i_size q", where ?'a = nat] by simp
    then have no: "unat (off + of_nat m) = unat off + m" using unat_add_lem [of off "of_nat m"] by (simp add: unat_of_nat)
    have nr: "unat (off + of_nat m) + (r - m) \<le> unat (i_size q)" using no prems(7) m(2) by simp
    have nk: "r - m = 0 \<or> unat (off + of_nat m) mod BSIZE + (r - m) \<le> k' * BSIZE"
    proof (cases "m < r")
      case True
      then have e: "m = BSIZE - unat off mod BSIZE" "unat off mod BSIZE < BSIZE" by (simp_all add: m_def chunk_def min_def BSIZE_def split: if_splits)
      then have "unat off + m = BSIZE * (unat off div BSIZE) + BSIZE" using mult_div_mod_eq [of BSIZE "unat off"] by linarith
      then have "unat (off + of_nat m) mod BSIZE = 0" using no by simp
      moreover have "unat off mod BSIZE + r \<le> BSIZE + k' * BSIZE" using prems(10) k \<open>r \<noteq> 0\<close> by simp
      then have "r - m \<le> k' * BSIZE" using e by linarith
      ultimately show ?thesis by simp
    qed (use m(2) in simp)
    have lt: "r - m < r" using m by simp
    obtain w V' D' W' where w: "writei_loop env ip (VarSrc bs) (tot + of_nat m) (off + of_nat m) (r - m) t = Ret () w"
      "cache w V' D' W' no_busy" "inodes w = inodes t" "disksize w = disksize t" "file_mapped V' (disksize t) q"
      "\<forall>j < unat (i_size q). content V' q j = (if unat off + m \<le> j \<and> j < unat off + m + (r - m)
          then bs ! (unat tot + m + (j - (unat off + m))) else content V1 q j)"
      "\<forall>x. x \<notin> log_area t \<longrightarrow> (\<forall>j < unat (i_size q). x \<noteq> last (block_path V1 q (j div BSIZE))) \<longrightarrow> V' x = V1 x"
      using less.IH [OF lt t(4,5) _ prems(4) _ _ nr nt prems(9) nk] prems(3) ov(1,2) i at unfolding no n by auto
    have "content V' q j = (if unat off \<le> j \<and> j < unat off + r then bs ! (unat tot + (j - unat off)) else content V q j)"
      if j: "j < unat (i_size q)" for j
    proof -
      consider "j < unat off \<or> unat off + r \<le> j" | "unat off \<le> j \<and> j < unat off + m" | "unat off + m \<le> j \<and> j < unat off + r"
        by linarith
      then show ?thesis
      proof cases
        case 2
        moreover have "cs ! i = bs ! (unat tot + i)" if "i < m" for i using that prems(8) m(2) by (simp add: cs_def)
        moreover have "j - unat off < m" using 2 by linarith
        ultimately have "cs ! (j - unat off) = bs ! (unat tot + (j - unat off))" by blast
        then show ?thesis using 2 w(6) ov(3) j m(2) by auto
      qed (use w(6) ov(3) j m(2) in auto)
    qed
    moreover have "V' x = V x" if "x \<notin> log_area s" "\<forall>j < unat (i_size q). x \<noteq> last (block_path V q (j div BSIZE))" for x
      using that w(7) ov(4) t(9) av at o by (auto simp: d_def)
    ultimately show ?thesis using step w(1-5) i by (intro exI [of _ w] exI [of _ V'] exI [of _ D'] exI [of _ W']) simp
  qed
qed

text \<open>
  C2: \<open>writei\<close> of bytes of the kernel over a part of a file, in a transaction that has room for the blocks. It writes all bytes;
  afterwards the file holds them at their place and its old bytes everywhere else, it is still mapped, and nothing else that the kernel sees
  has changed outside of the log.
\<close>

theorem writei_overwrites:
  assumes "cache s V D W no_busy" "trans_ok s W no_busy k" "q = inodes s ip" "i_dev q = 1" "i_type q \<noteq> T_DEV"
    and "file_mapped V (disksize s) q" "file_apart V (log_area s) q"
    and "unat off + length bs \<le> unat (i_size q)" "unat off mod BSIZE + length bs \<le> k * BSIZE"
  shows "\<exists>t V' D' W'. writei env ip (VarSrc bs) off (of_nat (length bs)) s = Ret (int (length bs)) t \<and> cache t V' D' W' no_busy
    \<and> inodes t = inodes s \<and> disksize t = disksize s \<and> file_mapped V' (disksize s) q
    \<and> (\<forall>j < unat (i_size q). content V' q j
        = (if unat off \<le> j \<and> j < unat off + length bs then bs ! (j - unat off) else content V q j))
    \<and> (\<forall>x. x \<notin> log_area s \<longrightarrow> (\<forall>j < unat (i_size q). x \<noteq> last (block_path V q (j div BSIZE))) \<longrightarrow> V' x = V x)"
proof -
  let ?n = "of_nat (length bs) :: u32"
  have sz: "unat (i_size q) \<le> MAXFILE * BSIZE" using file_mapped_size [OF assms(6)] .
  then have l: "length bs < 2 ^ 31" using assms(8) by (simp add: fs_defs)
  then have n: "unat ?n = length bs" by (simp add: unat_of_nat)
  have "unat off + length bs < 2 ^ 32" using assms(8) unsigned_less [of "i_size q", where ?'a = nat] by simp
  then have on: "unat (off + ?n) = unat off + length bs" using unat_add_lem [of off ?n] n by simp
  have "length bs < 2 ^ 32" using l by simp
  from writei_loop_overwrites [OF assms(1-4,6,7), of off "length bs" 0 bs env] assms(8,9) this
  obtain t V' D' W' where t: "writei_loop env ip (VarSrc bs) 0 off (length bs) s = Ret () t" "cache t V' D' W' no_busy"
    "inodes t = inodes s" "disksize t = disksize s" "file_mapped V' (disksize s) q"
    "\<forall>j < unat (i_size q). content V' q j
        = (if unat off \<le> j \<and> j < unat off + length bs then bs ! (j - unat off) else content V q j)"
    "\<forall>x. x \<notin> log_area s \<longrightarrow> (\<forall>j < unat (i_size q). x \<noteq> last (block_path V q (j div BSIZE))) \<longrightarrow> V' x = V x" by auto
  have "\<not> i_size q < off" "\<not> off + ?n < off" "\<not> i_size q < off + ?n" using on assms(8) by (simp_all add: word_less_nat_alt)
  moreover have "\<not> MAXFILE * BSIZE < unat (off + ?n)" using on assms(8) sz by simp
  moreover have "sint ?n = int (length bs)" using sint_small [OF l] by simp
  ultimately have "writei env ip (VarSrc bs) off ?n s = Ret (int (length bs)) t"
    using t(1,3) n assms(3,5) by (simp add: writei_def)
  then show ?thesis using t(2-7) by (intro exI [of _ t] exI [of _ V'] exI [of _ D'] exI [of _ W']) simp
qed

text \<open>A file of 5122 bytes: ten direct blocks, 30 to 39, and block 23 behind the indirect block 22.\<close>

definition file_disk :: "u32 \<Rightarrow> block" where
  "file_disk = (\<lambda>_ _. 7)(22 := wr32 zero_block 0 23, 23 := (\<lambda>_. 9))"

definition file_inode :: inode where
  "file_inode = \<lparr>i_dev = 1, i_inum = 5, i_ref = 1, i_busy = True, i_valid = True, i_type = T_FILE, i_major = 0, i_minor = 0, i_nlink = 1,
     i_size = 5122, i_addrs = map of_nat [30..<40] @ [22, 0, 0]\<rparr>"

definition file_sample :: con_st where
  "file_sample = \<lparr>held = [], cons_locking = False, panicked = False, uart_on = False, serial_out = [],
     crt = (\<lambda>_. 0), crt_pos = 0, k_mem = (\<lambda>_. 0), k_freelist = 0, k_use_lock = False,
     k_end = 0x80200000, vm_data = 0x8010a000, kpgdir = 0x80400000, cr3 = 0x400000, ts_esp0 = 0, ts_ss0 = 0,
     ptable = (\<lambda>_. zero_proc), curproc = None, initproc = None, nextpid = 1, ticks = 0,
     thread_locks = replicate MAX_NUM_LOCKS 0, nextLockId = 1, fork_first = True, wakeups = 0,
     bufs = (\<lambda>_. \<lparr>b_busy = False, b_valid = False, b_dirty = False, b_dev = -1, b_sector = 0, b_data = zero_block\<rparr>),
     mru = [0..<NBUF], disk = file_disk, disksize = 1024, disk_writes = [],
     log_start = 1000, log_size = 10, log_busy = False, log_dev = 1, lh_n = 0, lh_sector = replicate 10 0,
     inodes = (\<lambda>_. file_inode), devsw = (\<lambda>_. None), in_buf = (\<lambda>_. 0), in_r = 0, in_w = 0, in_e = 0, kbd_shift = 0\<rparr>"

lemma file_paths: "block_path file_disk file_inode bn = (if bn < 10 then [of_nat (30 + bn)] else [22, 23])" if "bn \<le> 10"
proof (cases "bn < 10")
  case True
  then have "bn = 0 \<or> bn = 1 \<or> bn = 2 \<or> bn = 3 \<or> bn = 4 \<or> bn = 5 \<or> bn = 6 \<or> bn = 7 \<or> bn = 8 \<or> bn = 9" by auto
  then have "i_addrs file_inode ! bn = of_nat (30 + bn)" by (elim disjE) (simp_all add: file_inode_def)
  then show ?thesis using True by (simp add: block_path_def NDIRECT_def del: of_nat_add)
next
  case False
  then have "bn = 10" using that by simp
  moreover have "i_addrs file_inode ! 10 = 22" by (simp add: file_inode_def nth_append del: upt.simps)
  moreover have "blk_ptr (file_disk 22) 0 = 23" by (simp add: file_disk_def blk_ptr_def)
  ultimately show ?thesis by (simp add: block_path_def fs_defs)
qed

lemma file_sample_mapped: "file_mapped file_disk 1024 file_inode"
proof -
  have "block_mapped file_disk 1024 file_inode bn" if "bn \<le> 10" for bn
  proof (cases "bn < 10")
    case True
    have "unat (of_nat (30 + bn) :: u32) = 30 + bn" using True by (simp add: unat_of_nat del: of_nat_add)
    then have "(of_nat (30 + bn) :: u32) \<noteq> 0 \<and> (of_nat (30 + bn) :: u32) < 1024"
      using True by (simp only: word_less_nat_alt word_unat_eq_iff) simp
    then show ?thesis using True file_paths [OF that] by (simp add: block_mapped_def fs_defs del: of_nat_add)
  next
    case False
    then show ?thesis using that file_paths [OF that] by (simp add: block_mapped_def fs_defs)
  qed
  moreover have "k div BSIZE \<le> 10" if "k < 5122" for k using that by (simp add: BSIZE_def)
  ultimately show ?thesis by (simp add: file_mapped_def file_inode_def)
qed

theorem readi_correct_witness:
  "\<exists>t. readi (\<lambda>_ s. s) 3 VarDst 5118 100 file_sample = Ret (4, [7, 7, 9, 9]) t \<and> cache t file_disk file_disk {} no_busy"
proof -
  have c: "cache file_sample file_disk file_disk {} no_busy" by (auto simp: cache_def file_sample_def)
  have q: "file_inode = inodes file_sample 3" "disksize file_sample = 1024" by (simp_all add: file_sample_def)
  have p: "content file_disk file_inode 5118 = 7" "content file_disk file_inode 5119 = 7"
    "content file_disk file_inode 5120 = 9" "content file_disk file_inode 5121 = 9"
    using file_paths [of 9] file_paths [of 10] by (simp_all add: content_def BSIZE_def file_disk_def)
  have i: "i_size file_inode = 5122" "i_dev file_inode = 1" "i_type file_inode \<noteq> T_DEV"
    by (simp_all add: file_inode_def T_FILE_def T_DEV_def)
  have u: "[5118..<5122 :: nat] = [5118, 5119, 5120, 5121]" by (simp add: upt_rec)
  have "if i_size file_inode < 5118 \<or> 2 ^ 32 \<le> unat (5118 :: u32) + unat (100 :: u32)
    then readi (\<lambda>_ s. s) 3 VarDst 5118 100 file_sample = Ret (-1, []) file_sample
    else \<exists>t. readi (\<lambda>_ s. s) 3 VarDst 5118 100 file_sample
        = Ret (int 4, map (content file_disk file_inode) [unat (5118 :: u32)..<unat (5118 :: u32) + 4]) t
      \<and> cache t file_disk file_disk {} no_busy \<and> bio_frame file_sample t"
    by (rule readi_correct [OF c _ q(1)]) (simp_all add: q(2) i NBUF_def file_sample_mapped)
  then show ?thesis using p u by (auto simp: i)
qed

lemma file_sample_apart: "file_apart file_disk (log_area (file_sample\<lparr>log_busy := True\<rparr>)) file_inode"
proof -
  let ?A = "log_area (file_sample\<lparr>log_busy := True\<rparr>)"
  have a: "of_nat k \<notin> ?A" if "k < 100" for k
    using sample_area [of "file_sample\<lparr>log_busy := True\<rparr>" "of_nat k"] that
    by (auto simp: file_sample_def word_less_nat_alt unat_of_nat)
  have l: "last (block_path file_disk file_inode n) = of_nat (if n < 10 then 30 + n else 23)"
    "butlast (block_path file_disk file_inode n) = map of_nat (if n < 10 then [] else [22])" if "n \<le> 10" for n
    using file_paths [OF that] by (simp_all del: of_nat_add)
  have e: "(of_nat i :: u32) = of_nat j \<longleftrightarrow> i = j" if "i < 100" "j < 100" for i j
    using that by (simp add: word_unat_eq_iff unat_of_nat)
  have b: "n div BSIZE \<le> 10" if "n < unat (i_size file_inode)" for n using that by (simp add: file_inode_def BSIZE_def)
  show ?thesis
    unfolding file_apart_def
  proof (intro allI impI)
    fix i j assume i: "i < unat (i_size file_inode)" and j: "j < unat (i_size file_inode)"
    show "last (block_path file_disk file_inode (i div BSIZE)) \<notin> ?A
     \<and> (\<forall>b \<in> set (butlast (block_path file_disk file_inode (j div BSIZE))). b \<notin> ?A \<and> b \<noteq> last (block_path file_disk file_inode (i div BSIZE)))
     \<and> (i div BSIZE \<noteq> j div BSIZE \<longrightarrow> last (block_path file_disk file_inode (i div BSIZE)) \<noteq> last (block_path file_disk file_inode (j div BSIZE)))"
      using l [OF b [OF i]] l [OF b [OF j]] b [OF i] b [OF j]
        a [of "if i div BSIZE < 10 then 30 + i div BSIZE else 23"] a [of 22] e [of 22 "if i div BSIZE < 10 then 30 + i div BSIZE else 23"]
        e [of "if i div BSIZE < 10 then 30 + i div BSIZE else 23" "if j div BSIZE < 10 then 30 + j div BSIZE else 23"]
      by (simp del: of_nat_add of_nat_numeral split: if_splits)
  qed
qed

theorem writei_overwrites_witness:
  "\<exists>t V' D' W'. writei (\<lambda>_ s. s) 3 (VarSrc [1, 2, 3, 4]) 5118 4 (file_sample\<lparr>log_busy := True\<rparr>) = Ret 4 t \<and> cache t V' D' W' no_busy
     \<and> content V' file_inode 5117 = 7 \<and> content V' file_inode 5119 = 2 \<and> content V' file_inode 5120 = 3"
proof -
  let ?s = "file_sample\<lparr>log_busy := True\<rparr>"
  have c: "cache ?s file_disk file_disk {} no_busy" by (auto simp: cache_def file_sample_def)
  have q: "file_inode = inodes ?s 3" "disksize ?s = 1024" by (simp_all add: file_sample_def)
  have t: "trans_ok ?s {} no_busy 2"
    using sample_area [of ?s] by (auto simp: trans_ok_def file_sample_def LOGSIZE_def NBUF_def)
  have i: "i_size file_inode = 5122" "i_dev file_inode = 1" "i_type file_inode \<noteq> T_DEV"
    by (simp_all add: file_inode_def T_FILE_def T_DEV_def)
  have m: "file_mapped file_disk (disksize ?s) file_inode" using file_sample_mapped q(2) by simp
  have p: "content file_disk file_inode 5117 = 7" using file_paths [of 9] by (simp add: content_def BSIZE_def file_disk_def)
  obtain t V' D' W' where r: "writei (\<lambda>_ s. s) 3 (VarSrc [1, 2, 3, 4]) 5118 (of_nat (length [1, 2, 3, 4 :: u8])) ?s
        = Ret (int (length [1, 2, 3, 4 :: u8])) t" "cache t V' D' W' no_busy"
    "\<forall>j < unat (i_size file_inode). content V' file_inode j
        = (if unat (5118 :: u32) \<le> j \<and> j < unat (5118 :: u32) + length [1, 2, 3, 4 :: u8] then [1, 2, 3, 4] ! (j - unat (5118 :: u32))
           else content file_disk file_inode j)"
    using writei_overwrites [OF c t q(1) i(2,3) m file_sample_apart, where off = 5118 and bs = "[1, 2, 3, 4]" and env = "\<lambda>_ s. s"]
    by (auto simp: i(1) BSIZE_def)
  have "content V' file_inode 5117 = 7" "content V' file_inode 5119 = 2" "content V' file_inode 5120 = 3"
    using r(3) p by (simp_all add: i(1))
  then show ?thesis using r(1,2) by auto
qed

end
