(* ===== verification/Ulib.thy ===== *)
theory Ulib
  imports Cprintf Kstring
begin

section \<open>ulib.c and printf.c: the user library\<close>

text \<open>
  User programs as computations over a record that holds how the kernel answers
  (\<open>u_sys\<close>, a parameter of the model that may depend on all earlier calls) and the system calls
  made so far. \<open>u_budget\<close> bounds the number of calls a run is observed for: a program that
  makes more of them is cut off with \<open>Switch\<close>, which is also how \<open>exit\<close> ends. Strings are
  lists of characters without the final zero byte.
\<close>

datatype usyscall =
    UOpen string u32 | UClose int | URead int nat | UWrite int string | UFstat int
  | UFork | UWait | UExit | UExec string "string list" | UPipe | UDup int | UChdir string
  | UUnlink string | ULink string string | UMkdir string | UMknod string int int | UKill int | USleep int

text \<open>An answer: the value returned, the bytes of a \<open>read\<close>, and the numbers of \<open>pipe\<close> and \<open>fstat\<close>.\<close>

record uanswer =
  a_ret :: int
  a_data :: string
  a_nums :: "int list"

record user_st =
  u_sys :: "usyscall list \<Rightarrow> usyscall \<Rightarrow> uanswer"
  u_log :: "usyscall list"
  u_budget :: nat

definition syscall_answer :: "usyscall \<Rightarrow> ('x user_st_scheme, uanswer) kern" where
  "syscall_answer c = (\<lambda>s. if u_budget s = 0 then Switch s
     else Ret (u_sys s (u_log s) c) (s\<lparr>u_log := u_log s @ [c], u_budget := u_budget s - 1\<rparr>))"

definition ucall :: "usyscall \<Rightarrow> ('x user_st_scheme, int) kern" where
  "ucall c = kbind (syscall_answer c) (\<lambda>a. kret (a_ret a))"

definition uexit :: "('x user_st_scheme, 'a) kern" where
  "uexit = kseq (syscall_answer UExit) (\<lambda>s. Switch s)"

text \<open>\<open>read\<close> of at most \<open>n\<close> bytes answers the bytes and their number, or what the kernel answers below 1.\<close>

definition uread :: "int \<Rightarrow> nat \<Rightarrow> ('x user_st_scheme, int \<times> string) kern" where
  "uread fd n = kbind (syscall_answer (URead fd n)) (\<lambda>a.
     let d = take n (a_data a) in
     kret (if a_ret a \<le> 0 then (a_ret a, []) else (int (length d), d)))"

definition uwrite :: "int \<Rightarrow> string \<Rightarrow> ('x user_st_scheme, unit) kern" where
  "uwrite fd cs = kseq (syscall_answer (UWrite fd cs)) (kret ())"

text \<open>A loop whose body makes a system call in every turn and answers a result when it is done.\<close>

function uloop :: "('x user_st_scheme, 'a option) kern \<Rightarrow> ('x user_st_scheme, 'a) kern" where
  "uloop m s = (case m s of
       Ret (Some x) t \<Rightarrow> Ret x t
     | Ret None t \<Rightarrow> if u_budget t < u_budget s then uloop m t else Fault ''loop without a system call''
     | Switch t \<Rightarrow> Switch t
     | Panic msg \<Rightarrow> Panic msg
     | Fault msg \<Rightarrow> Fault msg)"
  by pat_completeness auto
termination
  by (relation "measure (\<lambda>(m, s). u_budget s)") auto

declare uloop.simps [simp del]

subsection \<open>Strings\<close>

fun ustrcmp :: "string \<Rightarrow> string \<Rightarrow> int" where
  "ustrcmp (p # ps) (q # qs) = (if p = q then ustrcmp ps qs else of_char p - of_char q)"
| "ustrcmp (p # ps) [] = of_char p"
| "ustrcmp [] (q # qs) = - of_char q"
| "ustrcmp [] [] = 0"

primrec ustrlen :: "string \<Rightarrow> nat" where
  "ustrlen [] = 0"
| "ustrlen (c # cs) = Suc (ustrlen cs)"

primrec ustrchr :: "string \<Rightarrow> char \<Rightarrow> string option" where
  "ustrchr [] c = None"
| "ustrchr (x # xs) c = (if x = c then Some (x # xs) else ustrchr xs c)"

definition is_digit :: "char \<Rightarrow> bool" where
  "is_digit c \<longleftrightarrow> (48 :: nat) \<le> of_char c \<and> of_char c \<le> (57 :: nat)"

text \<open>\<open>atoi\<close>, with the wrap-around of 32-bit arithmetic.\<close>

primrec atoi_loop :: "u32 \<Rightarrow> string \<Rightarrow> u32" where
  "atoi_loop n [] = n"
| "atoi_loop n (c # cs) = (if is_digit c then atoi_loop (n * 10 + of_char c - 48) cs else n)"

definition atoi :: "string \<Rightarrow> u32" where
  "atoi s = atoi_loop 0 s"

text \<open>\<open>gets\<close>: the argument counts the bytes that still fit.\<close>

primrec gets_loop :: "nat \<Rightarrow> string \<Rightarrow> ('x user_st_scheme, string) kern" where
  "gets_loop 0 got = kret got"
| "gets_loop (Suc n) got = kbind (uread 0 1) (\<lambda>(cc, d).
     if cc < 1 then kret got
     else case d of
       [] \<Rightarrow> fault ''gets: no byte''
     | c # _ \<Rightarrow> if c = CHR 0x0A \<or> c = CHR 0x0D then kret (got @ [c]) else gets_loop n (got @ [c]))"

definition gets :: "nat \<Rightarrow> ('x user_st_scheme, string) kern" where
  "gets mx = gets_loop (mx - 1) []"

definition ustat :: "string \<Rightarrow> ('x user_st_scheme, int \<times> int list) kern" where
  "ustat n = kbind (ucall (UOpen n 0)) (\<lambda>fd.
     if fd < 0 then kret (-1, [])
     else kbind (syscall_answer (UFstat fd)) (\<lambda>a.
       kseq (ucall (UClose fd)) (kret (a_ret a, a_nums a))))"

definition umemmove :: "memory \<Rightarrow> u32 \<Rightarrow> u32 \<Rightarrow> int \<Rightarrow> memory" where
  "umemmove m vdst vsrc n = copy_up (nat n) m vdst vsrc"

subsection \<open>printf\<close>

definition udigits :: string where "udigits = ''0123456789ABCDEF''"

definition uprintint_buf :: "u32 \<Rightarrow> nat \<Rightarrow> bool \<Rightarrow> string" where
  "uprintint_buf xx base sg =
     (let neg = sg \<and> sint xx < 0;
          x = (if neg then - xx else xx);
          buf = map (\<lambda>d. udigits ! d) (fill_digits base (unat x))
      in if neg then buf @ [CHR ''-''] else buf)"

definition putc :: "int \<Rightarrow> char \<Rightarrow> ('x user_st_scheme, unit) kern" where
  "putc fd c = uwrite fd [c]"

definition uprintint :: "int \<Rightarrow> u32 \<Rightarrow> nat \<Rightarrow> bool \<Rightarrow> ('x user_st_scheme, unit) kern" where
  "uprintint fd xx base sg = kfor (rev (uprintint_buf xx base sg)) (putc fd)"

fun printf :: "int \<Rightarrow> string \<Rightarrow> parg list \<Rightarrow> ('x user_st_scheme, unit) kern" where
  "printf fd [] ap = kret ()"
| "printf fd (c # fmt) ap =
     (if c \<noteq> CHR ''%'' then kseq (putc fd c) (printf fd fmt ap)
      else case fmt of
          [] \<Rightarrow> kret ()
        | d # fmt' \<Rightarrow>
            if d = CHR ''d'' then
              (case ap of PInt w # as \<Rightarrow> kseq (uprintint fd w 10 True) (printf fd fmt' as)
               | _ \<Rightarrow> fault ''printf: argument'')
            else if d = CHR ''x'' \<or> d = CHR ''p'' then
              (case ap of PInt w # as \<Rightarrow> kseq (uprintint fd w 16 False) (printf fd fmt' as)
               | _ \<Rightarrow> fault ''printf: argument'')
            else if d = CHR ''s'' then
              (case ap of PStr s # as \<Rightarrow>
                   kseq (kfor (case s of None \<Rightarrow> ''(null)'' | Some cs \<Rightarrow> cs) (putc fd)) (printf fd fmt' as)
               | _ \<Rightarrow> fault ''printf: argument'')
            else if d = CHR ''c'' then
              (case ap of PInt w # as \<Rightarrow> kseq (putc fd (char_of (unat w))) (printf fd fmt' as)
               | _ \<Rightarrow> fault ''printf: argument'')
            else if d = CHR ''%'' then kseq (putc fd d) (printf fd fmt' ap)
            else kseq (putc fd CHR ''%'') (kseq (putc fd d) (printf fd fmt' ap)))"

subsection \<open>Numbers read back\<close>

lemma udigit:
  assumes "d < 10"
  shows "is_digit (udigits ! d)" "(of_char (udigits ! d) :: u32) = of_nat d + 48"
proof -
  have "list_all (\<lambda>d. (of_char (udigits ! d) :: nat) = d + 48) [0..<10]" by code_simp
  with assms have d: "(of_char (udigits ! d) :: nat) = d + 48" by (simp only: list_all_iff) simp
  then show "is_digit (udigits ! d)" using assms by (simp add: is_digit_def)
  have "(of_char (udigits ! d) :: u32) = of_nat (of_char (udigits ! d))" by (rule of_nat_of_char [symmetric])
  then show "(of_char (udigits ! d) :: u32) = of_nat d + 48" by (simp add: d)
qed

lemma atoi_digits:
  assumes "\<forall>d \<in> set ds. d < 10" "rest = [] \<or> \<not> is_digit (hd rest)"
  shows "atoi_loop n (map (\<lambda>d. udigits ! d) ds @ rest) = foldl (\<lambda>a d. a * 10 + of_nat d) n ds"
  using assms(1)
proof (induction ds arbitrary: n)
  case Nil
  then show ?case using assms(2) by (cases rest) auto
next
  case (Cons d ds)
  then show ?case using udigit [of d] by simp
qed

lemma foldl_digits_word:
  "foldl (\<lambda>a d. a * 10 + of_nat d) (of_nat k) ds = (of_nat (foldl (\<lambda>a d. a * 10 + d) k ds) :: u32)"
proof (induction ds arbitrary: k)
  case (Cons d ds)
  have "of_nat k * 10 + of_nat d = (of_nat (k * 10 + d) :: u32)" by simp
  then show ?case using Cons by (simp only: foldl.simps)
qed simp

lemma fill_digits_foldl: "2 \<le> base \<Longrightarrow> foldl (\<lambda>a d. a * base + d) 0 (rev (fill_digits base x)) = x"
  using fill_digits_value [of base x] by (simp add: foldl_conv_foldr mult.commute)

text \<open>
  C35: numbers read back: \<open>atoi\<close> reads the text that \<open>printf\<close> writes for \<open>%d\<close> as the number it was
  given, whatever other than a digit follows, when the number is not negative; the text of a
  negative number reads as 0, because \<open>atoi\<close> knows no sign. The text fits the buffer of
  16 bytes in \<open>printint\<close> in base 10 and 16.
\<close>

theorem atoi_printint:
  assumes "rest = [] \<or> \<not> is_digit (hd rest)" "base = 10 \<or> base = 16"
  shows "atoi (rev (uprintint_buf w 10 True) @ rest) = (if 0 \<le> sint w then w else 0)
    \<and> length (uprintint_buf w base sg) \<le> 16"
proof
  show "atoi (rev (uprintint_buf w 10 True) @ rest) = (if 0 \<le> sint w then w else 0)"
  proof (cases "0 \<le> sint w")
    case True
    have lt: "\<forall>d \<in> set (rev (fill_digits 10 (unat w))). d < 10" using fill_digits_less [of 10] by simp
    have "atoi_loop 0 (map (\<lambda>d. udigits ! d) (rev (fill_digits 10 (unat w))) @ rest)
        = foldl (\<lambda>a d. a * 10 + of_nat d) (of_nat 0) (rev (fill_digits 10 (unat w)))"
      using atoi_digits [OF lt assms(1), of 0] by simp
    also have "\<dots> = of_nat (unat w)" by (simp only: foldl_digits_word fill_digits_foldl)
    finally show ?thesis using True by (simp add: atoi_def uprintint_buf_def Let_def rev_map)
  next
    case False
    then show ?thesis by (simp add: atoi_def uprintint_buf_def Let_def is_digit_def of_char_def)
  qed
next
  have "length (uprintint_buf w base sg) = length (printint_buf w base sg)"
    by (simp add: uprintint_buf_def printint_buf_def Let_def)
  then show "length (uprintint_buf w base sg) \<le> 16" using printint_buf_length [OF assms(2), of w sg] by simp
qed

theorem atoi_printint_witness:
  "atoi (rev (uprintint_buf 42 10 True) @ '' ticks'') = 42 \<and> length (uprintint_buf 42 16 False) \<le> 16"
  using atoi_printint [of "'' ticks''" 16 42 False] by (simp add: is_digit_def of_char_def)

end
