(* ===== verification/Grep.thy ===== *)
theory Grep
  imports Ulib
begin

section \<open>grep.c\<close>

text \<open>
  The matcher of \<^verbatim>\<open>src/grep.c\<close> and the loop that reads lines into the buffer. A pattern is a
  list of characters; reading past its last character reads the zero byte, which is the
  empty rest. \<open>re_matches\<close> is what a pattern means: a list of items, each a symbol or a repeated
  symbol, with anchors at either end.
\<close>

function matchhere :: "string \<Rightarrow> string \<Rightarrow> bool"
  and matchstar :: "char \<Rightarrow> string \<Rightarrow> string \<Rightarrow> bool" where
  "matchhere [] tx = True"
| "matchhere (c # re) tx =
     (if re \<noteq> [] \<and> hd re = CHR ''*'' then matchstar c (tl re) tx
      else if c = CHR ''$'' \<and> re = [] then tx = []
      else case tx of
          [] \<Rightarrow> False
        | t # ts \<Rightarrow> if c = CHR ''.'' \<or> c = t then matchhere re ts else False)"
| "matchstar c re tx =
     (if matchhere re tx then True
      else case tx of
          [] \<Rightarrow> False
        | t # ts \<Rightarrow> if t = c \<or> c = CHR ''.'' then matchstar c re ts else False)"
  by pat_completeness auto
termination
  by (relation "measures [\<lambda>x. case x of Inl (re, _) \<Rightarrow> length re | Inr (_, re, _) \<Rightarrow> length re,
      \<lambda>x. case x of Inl (_, tx) \<Rightarrow> length tx | Inr (_, _, tx) \<Rightarrow> length tx,
      \<lambda>x. case x of Inl _ \<Rightarrow> 0 | Inr _ \<Rightarrow> 1]") auto

declare matchhere.simps(2) [simp del] matchstar.simps [simp del]

primrec match_from :: "string \<Rightarrow> string \<Rightarrow> bool" where
  "match_from re [] = matchhere re []"
| "match_from re (t # ts) = (if matchhere re (t # ts) then True else match_from re ts)"

definition match :: "string \<Rightarrow> string \<Rightarrow> bool" where
  "match re tx =
     (if re \<noteq> [] \<and> hd re = CHR ''^'' then matchhere (tl re) tx else match_from re tx)"

subsection \<open>The lines of the buffer\<close>

text \<open>The static buffer is part of the state of the program, and so is \<open>m\<close>, the number of its bytes in use.\<close>

record grep_st = user_st +
  g_buf :: string
  g_m :: int

definition GREPBUF :: nat where "GREPBUF = 1024"

text \<open>
  \<open>strchr\<close> in the buffer from \<open>p\<close> on: it stops at the character or at a zero byte, and runs out
  of the buffer when there is neither.
\<close>

definition buf_strchr :: "nat \<Rightarrow> char \<Rightarrow> ('x grep_st_scheme, nat option) kern" where
  "buf_strchr p c = kbind (kget g_buf) (\<lambda>b.
     let i = p + length (takeWhile (\<lambda>x. x \<noteq> c \<and> x \<noteq> CHR 0x00) (drop p b)) in
     if i \<ge> length b then fault ''grep: read past the end of buf''
     else kret (if b ! i = c then Some i else None))"

definition buf_set :: "nat \<Rightarrow> char \<Rightarrow> ('x grep_st_scheme, unit) kern" where
  "buf_set i c = kmod (\<lambda>s. s\<lparr>g_buf := (g_buf s)[i := c]\<rparr>)"

definition buf_string :: "nat \<Rightarrow> string \<Rightarrow> string" where
  "buf_string p b = takeWhile (\<lambda>x. x \<noteq> CHR 0x00) (drop p b)"

text \<open>The inner loop; every turn moves \<open>p\<close> behind the newline it found. It answers the last \<open>p\<close>.\<close>

function grep_lines :: "string \<Rightarrow> nat \<Rightarrow> ('x grep_st_scheme, nat) kern" where
  "grep_lines pattern p s = (case buf_strchr p CHR 0x0A s of
       Ret None t \<Rightarrow> Ret p t
     | Ret (Some q) t \<Rightarrow>
         (case kseq (buf_set q CHR 0x00) (kbind (kget g_buf) (\<lambda>b.
              kwhen (match pattern (buf_string p b))
                (kseq (buf_set q CHR 0x0A) (kbind (kget g_buf) (\<lambda>b. uwrite 1 (drop p (take (q + 1) b))))))) t of
            Ret _ u \<Rightarrow> if p < q + 1 \<and> q < length (g_buf s) then grep_lines pattern (q + 1) u else Fault ''grep: no progress''
          | Switch u \<Rightarrow> Switch u
          | Panic msg \<Rightarrow> Panic msg
          | Fault msg \<Rightarrow> Fault msg)
     | Switch t \<Rightarrow> Switch t
     | Panic msg \<Rightarrow> Panic msg
     | Fault msg \<Rightarrow> Fault msg)"
  by pat_completeness auto
termination
proof (relation "measure (\<lambda>(pattern, p, s). length (g_buf s) - p)")
  fix pattern :: string and p q :: nat and s t u :: "'x grep_st_scheme" and r x
  assume "buf_strchr p CHR 0x0A s = Ret r t" "r = Some q"
    "kseq (buf_set q CHR 0x00) (kbind (kget g_buf) (\<lambda>b.
              kwhen (match pattern (buf_string p b))
                (kseq (buf_set q CHR 0x0A) (kbind (kget g_buf) (\<lambda>b. uwrite 1 (drop p (take (q + 1) b))))))) t = Ret x u"
    "p < q + 1 \<and> q < length (g_buf s)"
  moreover from this have "t = s" "length (g_buf u) = length (g_buf t)"
    by (auto simp: buf_strchr_def buf_set_def Let_def kbind_eq_Ret kseq_eq_Ret kwhen_eq_Ret uwrite_def syscall_answer_def split: if_splits)
  ultimately show "((pattern, q + 1, u), pattern, p, s) \<in> measure (\<lambda>(pattern, p, s). length (g_buf s) - p)" by auto
qed simp


declare grep_lines.simps [simp del]

text \<open>
  One turn of the outer loop. When \<open>m\<close> has become negative the next bytes are stored in front
  of the buffer.
\<close>

definition grep_turn :: "string \<Rightarrow> int \<Rightarrow> ('x grep_st_scheme, unit option) kern" where
  "grep_turn pattern fd = kbind (kget g_m) (\<lambda>m. kbind (uread fd (nat (int GREPBUF - m))) (\<lambda>(n, d).
     if n \<le> 0 then kret (Some ())
     else if m < 0 then fault ''grep: write in front of buf''
     else kseq (kmod (\<lambda>s. s\<lparr>g_buf := take (nat m) (g_buf s) @ d @ drop (nat m + length d) (g_buf s)\<rparr>))
         (kbind (grep_lines pattern 0) (\<lambda>p.
          let m = (if p = 0 then 0 else m + n) in
          kseq (if m > 0
             then let k = nat (m - int p) in
               kmod (\<lambda>s. s\<lparr>g_m := m - int p, g_buf := take k (drop p (g_buf s)) @ drop k (g_buf s)\<rparr>)
             else kmod (\<lambda>s. s\<lparr>g_m := m\<rparr>))
           (kret None)))))"

definition grep :: "string \<Rightarrow> int \<Rightarrow> ('x grep_st_scheme, unit) kern" where
  "grep pattern fd = kseq (kmod (\<lambda>s. s\<lparr>g_m := 0\<rparr>)) (uloop (grep_turn pattern fd))"

primrec grep_files :: "string \<Rightarrow> string list \<Rightarrow> ('x grep_st_scheme, unit) kern" where
  "grep_files pattern [] = uexit"
| "grep_files pattern (f # fs) = kbind (ucall (UOpen f 0)) (\<lambda>fd.
     if fd < 0 then kseq (printf 1 (''grep: cannot open %s'' @ [CHR 0x0A]) [PStr (Some f)]) uexit
     else kseq (grep pattern fd) (kseq (ucall (UClose fd)) (grep_files pattern fs)))"

definition grep_main :: "string list \<Rightarrow> ('x grep_st_scheme, unit) kern" where
  "grep_main argv =
     (if length argv \<le> 1 then kseq (printf 2 (''usage: grep pattern [file ...]'' @ [CHR 0x0A]) []) uexit
      else if length argv \<le> 2 then kseq (grep (argv ! 1) 0) uexit
      else grep_files (argv ! 1) (drop 2 argv))"

subsection \<open>What a pattern means\<close>

datatype item = One char | Many char

definition sym_matches :: "char \<Rightarrow> char \<Rightarrow> bool" where
  "sym_matches c t \<longleftrightarrow> c = CHR ''.'' \<or> c = t"

fun re_items :: "string \<Rightarrow> item list \<times> bool" where
  "re_items [] = ([], False)"
| "re_items [c] = (if c = CHR ''$'' then ([], True) else ([One c], False))"
| "re_items (c # d # re) =
     (if d = CHR ''*'' then (let (its, e) = re_items re in (Many c # its, e))
      else (let (its, e) = re_items (d # re) in (One c # its, e)))"

primrec item_lang :: "item list \<Rightarrow> string \<Rightarrow> bool" where
  "item_lang [] w \<longleftrightarrow> w = []"
| "item_lang (i # its) w \<longleftrightarrow> (\<exists>u v. w = u @ v \<and> item_lang its v \<and>
     (case i of One c \<Rightarrow> \<exists>t. u = [t] \<and> sym_matches c t | Many c \<Rightarrow> \<forall>t \<in> set u. sym_matches c t))"

definition here_matches :: "string \<Rightarrow> string \<Rightarrow> bool" where
  "here_matches re tx \<longleftrightarrow> (\<exists>w rest. tx = w @ rest \<and> item_lang (fst (re_items re)) w
     \<and> (snd (re_items re) \<longrightarrow> rest = []))"

lemma item_lang_One: "item_lang (One c # its) w \<longleftrightarrow> (\<exists>t v. w = t # v \<and> sym_matches c t \<and> item_lang its v)"
  by simp (metis append_Cons append_Nil)

declare item_lang.simps(2) [simp del]

lemma ex_split_Cons:
  "(\<exists>u v. t # ts = u @ v \<and> P u v) \<longleftrightarrow> P [] (t # ts) \<or> (\<exists>u v. ts = u @ v \<and> P (t # u) v)"
  by (auto simp: Cons_eq_append_conv)

lemma here_One:
  assumes "\<not> (re \<noteq> [] \<and> hd re = CHR ''*'')" "\<not> (c = CHR ''$'' \<and> re = [])"
  shows "here_matches (c # re) tx \<longleftrightarrow>
    (case tx of [] \<Rightarrow> False | t # ts \<Rightarrow> sym_matches c t \<and> here_matches re ts)"
proof -
  have "fst (re_items (c # re)) = One c # fst (re_items re)" "snd (re_items (c # re)) = snd (re_items re)"
    using assms by (cases re; auto simp: case_prod_beta)+
  then show ?thesis by (cases tx) (auto simp: here_matches_def item_lang_One ex_split_Cons)
qed

definition star_matches :: "char \<Rightarrow> string \<Rightarrow> string \<Rightarrow> bool" where
  "star_matches c re tx \<longleftrightarrow> (\<exists>u v. tx = u @ v \<and> (\<forall>t \<in> set u. sym_matches c t) \<and> here_matches re v)"

lemma here_Many: "here_matches (c # CHR ''*'' # re) tx \<longleftrightarrow> star_matches c re tx"
proof -
  have f: "fst (re_items (c # CHR ''*'' # re)) = Many c # fst (re_items re)"
    "snd (re_items (c # CHR ''*'' # re)) = snd (re_items re)" by (simp_all add: case_prod_beta)
  have m: "item_lang (Many c # its) w \<longleftrightarrow> (\<exists>u v. w = u @ v \<and> item_lang its v \<and> (\<forall>t \<in> set u. sym_matches c t))" for its w
    by (simp add: item_lang.simps)
  show ?thesis
  proof
    assume "here_matches (c # CHR ''*'' # re) tx"
    then obtain u v rest where "tx = (u @ v) @ rest" "item_lang (fst (re_items re)) v" "\<forall>t \<in> set u. sym_matches c t"
      "snd (re_items re) \<longrightarrow> rest = []"
      unfolding here_matches_def f m by blast
    then show "star_matches c re tx"
      unfolding star_matches_def here_matches_def by (intro exI [of _ u] exI [of _ "v @ rest"]) auto
  next
    assume "star_matches c re tx"
    then obtain u w rest where "tx = u @ w @ rest" "item_lang (fst (re_items re)) w" "\<forall>t \<in> set u. sym_matches c t"
      "snd (re_items re) \<longrightarrow> rest = []"
      unfolding star_matches_def here_matches_def by blast
    then show "here_matches (c # CHR ''*'' # re) tx"
      unfolding here_matches_def f m by (intro exI [of _ "u @ w"] exI [of _ rest]) auto
  qed
qed

lemma star_step:
  "star_matches c re tx \<longleftrightarrow> here_matches re tx \<or>
     (case tx of [] \<Rightarrow> False | t # ts \<Rightarrow> sym_matches c t \<and> star_matches c re ts)"
proof (cases tx)
  case Nil
  then show ?thesis by (simp add: star_matches_def)
next
  case (Cons t ts)
  then show ?thesis unfolding star_matches_def by (cases "sym_matches c t") (simp_all add: ex_split_Cons)
qed

lemma matchhere_star: "re \<noteq> [] \<and> hd re = CHR ''*'' \<Longrightarrow> matchhere (c # re) tx = matchstar c (tl re) tx"
  by (simp only: matchhere.simps simp_thms if_True)

lemma matchhere_one:
  "\<not> (re \<noteq> [] \<and> hd re = CHR ''*'') \<Longrightarrow> \<not> (c = CHR ''$'' \<and> re = [])
   \<Longrightarrow> matchhere (c # re) tx = (case tx of [] \<Rightarrow> False | t # ts \<Rightarrow> sym_matches c t \<and> matchhere re ts)"
  unfolding matchhere.simps(2) sym_matches_def by (cases tx) (simp_all only: if_False list.case simp_thms if_bool_eq_conj, blast)

lemma matchhere_end: "matchhere [CHR ''$''] tx \<longleftrightarrow> tx = []"
  by (simp add: matchhere.simps)

lemma matchstar_step:
  "matchstar c re tx \<longleftrightarrow> matchhere re tx
     \<or> (case tx of [] \<Rightarrow> False | t # ts \<Rightarrow> sym_matches c t \<and> matchstar c re ts)"
  by (subst matchstar.simps) (auto simp: sym_matches_def split: list.split)

lemma matchhere_correct:
  "matchhere re tx \<longleftrightarrow> here_matches re tx"
  "matchstar c re tx \<longleftrightarrow> star_matches c re tx"
proof (induction re tx and c re tx rule: matchhere_matchstar.induct)
  case (1 tx)
  then show ?case by (auto simp: here_matches_def)
next
  case (2 c re tx)
  show ?case
  proof (cases "re \<noteq> [] \<and> hd re = CHR ''*''")
    case True
    then obtain re' where "re = CHR ''*'' # re'" by (cases re) auto
    then show ?thesis using 2(1) matchhere_star [OF True, of c tx] by (simp add: here_Many)
  next
    case no_star: False
    show ?thesis
    proof (cases "c = CHR ''$'' \<and> re = []")
      case True
      then show ?thesis by (simp add: here_matches_def matchhere_end)
    next
      case False
      have IH: "matchhere re ts \<longleftrightarrow> here_matches re ts" if "tx = t # ts" "sym_matches c t" for t ts
        using 2(2) [OF no_star False that(1)] that(2) by (simp add: sym_matches_def)
      show ?thesis
        unfolding matchhere_one [OF no_star False] here_One [OF no_star False] by (cases tx) (use IH in auto)
    qed
  qed
next
  case (3 c re tx)
  have IH: "matchstar c re ts \<longleftrightarrow> star_matches c re ts"
    if "\<not> matchhere re tx" "tx = t # ts" "sym_matches c t" for t ts
    using 3(2) [OF that(1,2)] that(3) by (auto simp: sym_matches_def)
  show ?case
    unfolding matchstar_step [of c re tx] star_step [of c re tx] 3(1) [symmetric] by (cases tx) (use IH in auto)
qed

lemma match_from_correct: "match_from re tx \<longleftrightarrow> (\<exists>pre post. tx = pre @ post \<and> matchhere re post)"
proof (induction tx)
  case (Cons t ts)
  then show ?case by (auto simp: Cons_eq_append_conv)
qed simp

text \<open>
  C33: the matcher is correct. \<open>match\<close> returns for every pattern and text, and it answers yes
  exactly when some part of the text is a word of the pattern, read as a list of symbols and
  repeated symbols where a dot stands for any character; a leading \<open>^\<close> asks for a part at the
  start of the text, a trailing \<open>$\<close> for one at its end.
\<close>

theorem match_correct:
  "match re tx \<longleftrightarrow>
     (let anchored = (re \<noteq> [] \<and> hd re = CHR ''^''); (its, to_end) = re_items (if anchored then tl re else re)
      in \<exists>pre w post. tx = pre @ w @ post \<and> item_lang its w \<and> (anchored = True \<and> pre = [] \<or> anchored = False)
        \<and> (to_end = True \<and> post = [] \<or> to_end = False))"
proof (cases "re \<noteq> [] \<and> hd re = CHR ''^''")
  case True
  then show ?thesis
    by (simp add: match_def matchhere_correct here_matches_def case_prod_beta) blast
next
  case False
  have "match re tx \<longleftrightarrow> (\<exists>pre post. tx = pre @ post \<and> here_matches re post)"
    using False by (simp only: match_def match_from_correct matchhere_correct if_False)
  then show ?thesis
    using False by (simp add: here_matches_def case_prod_beta) blast
qed


subsection \<open>Which lines are printed\<close>

definition is_read :: "usyscall \<Rightarrow> bool" where
  "is_read c \<longleftrightarrow> (case c of URead _ _ \<Rightarrow> True | _ \<Rightarrow> False)"

text \<open>A kernel whose reads deliver the given chunks one after the other, and then the end of the file.\<close>

definition stream_sys :: "string list \<Rightarrow> usyscall list \<Rightarrow> usyscall \<Rightarrow> uanswer" where
  "stream_sys chunks log c =
     (let k = length (filter is_read log) in
      if is_read c \<and> k < length chunks
      then \<lparr>a_ret = int (length (chunks ! k)), a_data = chunks ! k, a_nums = []\<rparr>
      else \<lparr>a_ret = 0, a_data = [], a_nums = []\<rparr>)"

abbreviation nl :: char where "nl \<equiv> CHR 0x0A"
abbreviation nul :: char where "nul \<equiv> CHR 0x00"

definition lines :: "string list \<Rightarrow> string" where
  "lines ls = concat (map (\<lambda>l. l @ [nl]) ls)"

lemma lines_simps [simp]: "lines [] = []" "lines (l # ls) = l @ nl # lines ls"
  by (simp_all add: lines_def)

definition text_ok :: "string \<Rightarrow> bool" where
  "text_ok l \<longleftrightarrow> nl \<notin> set l \<and> nul \<notin> set l"

lemma takeWhile_text: "text_ok l \<Longrightarrow> c = nl \<or> c = nul \<Longrightarrow> takeWhile (\<lambda>x. x \<noteq> nl \<and> x \<noteq> nul) (l @ c # r) = l"
  by (induction l) (auto simp: text_ok_def)

lemma takeWhile_nul: "text_ok l \<Longrightarrow> takeWhile (\<lambda>x. x \<noteq> nul) (l @ nul # r) = l"
  by (induction l) (auto simp: text_ok_def)

lemma buf_strchr_line:
  "g_buf s = dn @ l @ nl # r \<Longrightarrow> text_ok l \<Longrightarrow> buf_strchr (length dn) nl s = Ret (Some (length dn + length l)) s"
  by (simp add: buf_strchr_def takeWhile_text Let_def nth_append)

lemma buf_strchr_none:
  "g_buf s = dn @ l @ nul # r \<Longrightarrow> text_ok l \<Longrightarrow> buf_strchr (length dn) nl s = Ret None s"
  by (simp add: buf_strchr_def takeWhile_text Let_def nth_append)

definition emitted :: "string \<Rightarrow> string list \<Rightarrow> usyscall list" where
  "emitted pattern ls = map (\<lambda>l. UWrite 1 (l @ [nl])) (filter (match pattern) ls)"

text \<open>What the loop leaves in the buffer: the newline of a line that is not printed stays a zero byte.\<close>

definition left_over :: "string \<Rightarrow> string list \<Rightarrow> string" where
  "left_over pattern ls = concat (map (\<lambda>l. l @ [if match pattern l then nl else nul]) ls)"

lemma length_left_over [simp]: "length (left_over pattern ls) = length (lines ls)"
  by (induction ls) (simp_all add: left_over_def lines_def)

lemma grep_line:
  assumes b: "g_buf s = dn @ l @ nl # r" and l: "text_ok l" and bud: "length (emitted pattern [l]) \<le> u_budget s"
  obtains u where "grep_lines pattern (length dn) s = grep_lines pattern (length dn + length l + 1) u"
    "g_buf u = dn @ left_over pattern [l] @ r" "u_log u = u_log s @ emitted pattern [l]" "u_budget u = u_budget s - length (emitted pattern [l])"
    "u_sys u = u_sys s" "g_m u = g_m s"
proof -
  let ?q = "length dn + length l"
  have s1: "(g_buf s)[?q := x] = dn @ l @ x # r" for x using b by (simp add: list_update_append)
  have str: "buf_string (length dn) (dn @ l @ nul # r) = l" using takeWhile_nul [OF l] by (simp add: buf_string_def)
  show ?thesis
  proof (cases "match pattern l")
    case True
    let ?u = "s\<lparr>g_buf := dn @ l @ nl # r, u_log := u_log s @ [UWrite 1 (l @ [nl])], u_budget := u_budget s - 1\<rparr>"
    have "grep_lines pattern (length dn) s = grep_lines pattern (?q + 1) ?u"
      using True bud b by (subst grep_lines.simps)
        (simp add: buf_strchr_line [OF b l] buf_set_def s1 str list_update_append uwrite_def syscall_answer_def emitted_def)
    then show ?thesis by (rule that) (simp_all add: True emitted_def left_over_def)
  next
    case False
    let ?u = "s\<lparr>g_buf := dn @ l @ nul # r\<rparr>"
    have "grep_lines pattern (length dn) s = grep_lines pattern (?q + 1) ?u"
      using False b by (subst grep_lines.simps) (simp add: buf_strchr_line [OF b l] buf_set_def s1 str list_update_append)
    then show ?thesis by (rule that) (simp_all add: False emitted_def left_over_def)
  qed
qed

lemma emitted_Cons: "emitted pattern (l # ls) = emitted pattern [l] @ emitted pattern ls"
  by (simp add: emitted_def)

lemma grep_lines_text:
  assumes "g_buf s = dn @ lines ls @ rest @ nul # z" "\<forall>l \<in> set ls. text_ok l" "text_ok rest"
    "length (emitted pattern ls) \<le> u_budget s"
  shows "\<exists>u. grep_lines pattern (length dn) s = Ret (length dn + length (lines ls)) u
    \<and> g_buf u = dn @ left_over pattern ls @ rest @ nul # z
    \<and> u_log u = u_log s @ emitted pattern ls \<and> u_budget u = u_budget s - length (emitted pattern ls)
    \<and> u_sys u = u_sys s \<and> g_m u = g_m s"
  using assms
proof (induction ls arbitrary: dn s)
  case Nil
  then show ?case using buf_strchr_none [of s dn rest z]
    by (subst grep_lines.simps) (auto simp: emitted_def left_over_def)
next
  case (Cons l ls)
  have b: "g_buf s = dn @ l @ nl # (lines ls @ rest @ nul # z)" and l: "text_ok l"
    and bud: "length (emitted pattern [l]) \<le> u_budget s"
    using Cons.prems by (simp_all add: emitted_Cons [of _ l ls])
  obtain u where u: "grep_lines pattern (length dn) s = grep_lines pattern (length dn + length l + 1) u"
    "g_buf u = dn @ left_over pattern [l] @ lines ls @ rest @ nul # z" "u_log u = u_log s @ emitted pattern [l]"
    "u_budget u = u_budget s - length (emitted pattern [l])" "u_sys u = u_sys s" "g_m u = g_m s"
    by (rule grep_line [OF b l bud])
  let ?dn = "dn @ left_over pattern [l]"
  have "g_buf u = ?dn @ lines ls @ rest @ nul # z" using u(2) by simp
  moreover have "length (emitted pattern ls) \<le> u_budget u"
    using Cons.prems(4) u(4) by (simp add: emitted_Cons [of _ l ls])
  moreover have "\<forall>l \<in> set ls. text_ok l" using Cons.prems(2) by simp
  ultimately obtain v where v: "grep_lines pattern (length ?dn) u = Ret (length ?dn + length (lines ls)) v"
    "g_buf v = ?dn @ left_over pattern ls @ rest @ nul # z"
    "u_log v = u_log u @ emitted pattern ls" "u_budget v = u_budget u - length (emitted pattern ls)"
    "u_sys v = u_sys u" "g_m v = g_m u"
    using Cons.IH [of u ?dn] Cons.prems(3) by blast
  have "left_over pattern (l # ls) = left_over pattern [l] @ left_over pattern ls" by (simp add: left_over_def)
  then show ?case using u v by (intro exI [of _ v]) (simp add: emitted_Cons [of _ l ls])
qed

definition grep_start :: "string list \<Rightarrow> grep_st" where
  "grep_start chunks = \<lparr>u_sys = stream_sys chunks, u_log = [], u_budget = 100 + 10 * length (concat chunks),
     g_buf = replicate GREPBUF nul, g_m = 0\<rparr>"

lemma grep_turn_lines:
  assumes s: "u_sys s = stream_sys chunks" "length (filter is_read (u_log s)) = k" "k < length chunks" "g_m s = 0"
    and d: "chunks ! k \<noteq> []" "length (chunks ! k) \<le> GREPBUF"
    and b: "chunks ! k @ drop (length (chunks ! k)) (g_buf s) = lines ls @ nul # z"
    and ls: "ls \<noteq> []" "\<forall>l \<in> set ls. text_ok l" "Suc (length (emitted pattern ls)) \<le> u_budget s"
  shows "\<exists>u. grep_turn pattern fd s = Ret None u \<and> u_sys u = u_sys s
    \<and> u_log u = u_log s @ URead fd GREPBUF # emitted pattern ls
    \<and> u_budget u = u_budget s - Suc (length (emitted pattern ls))
    \<and> g_m u = int (length (chunks ! k)) - int (length (lines ls))
    \<and> (length (chunks ! k) \<le> length (lines ls) \<longrightarrow> g_buf u = left_over pattern ls @ nul # z)"
proof -
  let ?d = "chunks ! k"
  let ?s1 = "s\<lparr>u_log := u_log s @ [URead fd GREPBUF], u_budget := u_budget s - 1, g_buf := lines ls @ nul # z\<rparr>"
  have r: "uread fd (nat (int GREPBUF)) s
      = Ret (int (length ?d), ?d) (s\<lparr>u_log := u_log s @ [URead fd GREPBUF], u_budget := u_budget s - 1\<rparr>)"
    using s d ls(3) by (simp add: uread_def syscall_answer_def stream_sys_def is_read_def Let_def)
  have "text_ok []" by (simp add: text_ok_def)
  moreover have "length (emitted pattern ls) \<le> u_budget s - 1" using ls(3) by simp
  ultimately obtain u where u: "grep_lines pattern 0 ?s1 = Ret (length (lines ls)) u"
    "g_buf u = left_over pattern ls @ nul # z" "u_log u = u_log ?s1 @ emitted pattern ls"
    "u_budget u = u_budget ?s1 - length (emitted pattern ls)" "u_sys u = u_sys ?s1" "g_m u = g_m ?s1"
    using grep_lines_text [of ?s1 "[]" ls "[]" z pattern] ls by auto
  have "lines ls \<noteq> []" using ls(1) by (cases ls) simp_all
  then show ?thesis
    using r s u d b by (auto simp: grep_turn_def Let_def)
qed

lemma grep_turn_end:
  assumes "u_sys s = stream_sys chunks" "length (filter is_read (u_log s)) = length chunks" "0 < u_budget s"
  shows "grep_turn pattern fd s = Ret (Some ())
    (s\<lparr>u_log := u_log s @ [URead fd (nat (int GREPBUF - g_m s))], u_budget := u_budget s - 1\<rparr>)"
  using assms by (simp add: grep_turn_def uread_def syscall_answer_def stream_sys_def is_read_def Let_def)

lemma reads_emitted [simp]: "filter is_read (emitted pattern ls) = []"
  by (simp add: emitted_def is_read_def)

lemma length_emitted: "length (emitted pattern ls) \<le> length (lines ls)"
proof (induction ls)
  case (Cons l ls)
  then show ?case by (subst emitted_Cons) (simp add: emitted_def)
qed (simp add: emitted_def)




text \<open>
  \<open>grep\<close> prints lines that are not in the file. The buffer is not ended with a zero byte after
  a \<open>read\<close>, so the search for newlines goes on into what an earlier \<open>read\<close> left there. When the
  line \<open>abc\<close> and then the single byte \<open>x\<close> are delivered, \<open>grep\<close> for \<open>bc\<close> prints the line \<open>xbc\<close>.
\<close>

lemma grep_stale_line:
  "\<exists>t. grep ''bc'' 0 (grep_start [''abc'' @ [nl], ''x'']) = Ret () t
    \<and> u_log t = [URead 0 1024, UWrite 1 (''abc'' @ [nl]), URead 0 1024, UWrite 1 (''xbc'' @ [nl]), URead 0 1027]"
proof -
  let ?cs = "[''abc'' @ [nl], ''x'']" and ?p = "''bc''"
  let ?s = "grep_start ?cs"
  have m: "match ?p ''abc''" "match ?p ''xbc''" by (simp_all add: match_def matchhere.simps)
  then have e: "emitted ?p [''abc''] = [UWrite 1 (''abc'' @ [nl])]" "emitted ?p [''xbc''] = [UWrite 1 (''xbc'' @ [nl])]"
    and lo: "left_over ?p [''abc''] = ''abc'' @ [nl]" "left_over ?p [''xbc''] = ''xbc'' @ [nl]"
    by (simp_all add: emitted_def left_over_def)
  have "replicate GREPBUF nul = replicate 5 nul @ replicate 1019 nul" by (simp add: GREPBUF_def flip: replicate_add)
  moreover have "replicate 5 nul = [nul, nul, nul, nul, nul]" by (simp add: eval_nat_numeral)
  ultimately obtain z where "g_buf ?s = [nul, nul, nul, nul, nul] @ z" by (simp add: grep_start_def)
  then have b: "''abc'' @ [nl] @ drop 4 (g_buf ?s) = lines [''abc''] @ nul # z" by simp
  obtain u where u: "grep_turn ?p 0 ?s = Ret None u" "u_sys u = stream_sys ?cs" "u_budget u = u_budget ?s - 2"
    "u_log u = [URead 0 1024, UWrite 1 (''abc'' @ [nl])]" "g_m u = 0" "g_buf u = ''abc'' @ [nl] @ nul # z"
    using grep_turn_lines [of ?s ?cs 0 "[''abc'']" z ?p 0] b by (auto simp: e lo grep_start_def text_ok_def GREPBUF_def)
  obtain v where v: "grep_turn ?p 0 u = Ret None v" "u_sys v = stream_sys ?cs" "u_budget v = u_budget u - 2"
    "u_log v = u_log u @ [URead 0 1024, UWrite 1 (''xbc'' @ [nl])]" "g_m v = -3"
    using grep_turn_lines [of u ?cs 1 "[''xbc'']" z ?p 0] u
    by (auto simp: e lo grep_start_def text_ok_def GREPBUF_def is_read_def)
  let ?t = "v\<lparr>u_log := u_log v @ [URead 0 1027], u_budget := u_budget v - 1\<rparr>"
  have "grep_turn ?p 0 v = Ret (Some ()) ?t"
    using grep_turn_end [of v ?cs ?p 0] u v by (simp add: grep_start_def GREPBUF_def is_read_def)
  then have "uloop (grep_turn ?p 0) ?s = Ret () ?t"
    using u v by (simp add: uloop.simps grep_start_def)
  moreover have "?s\<lparr>g_m := 0\<rparr> = ?s" by (simp add: grep_start_def)
  ultimately show ?thesis using u v by (simp add: grep_def)
qed

end
