(* ===== verification/Utils.thy ===== *)
theory Utils
  imports Grep
begin

section \<open>Small user programs\<close>

text \<open>
  \<^verbatim>\<open>src/cat.c\<close>, \<^verbatim>\<open>wc.c\<close>, \<^verbatim>\<open>echo.c\<close>, \<^verbatim>\<open>kill.c\<close>, \<^verbatim>\<open>ln.c\<close>, \<^verbatim>\<open>mkdir.c\<close>, \<^verbatim>\<open>rm.c\<close>, \<^verbatim>\<open>ls.c\<close>, \<^verbatim>\<open>zombie.c\<close> and \<^verbatim>\<open>init.c\<close> over
  the system calls of \<open>Ulib\<close>. The argument of a \<open>main\<close> is \<open>argv\<close> with the name of the program first.
\<close>

text \<open>The loop \<open>while((n = read(fd, buf, size)) > 0)\<close>; it answers the last \<open>n\<close>.\<close>

definition read_loop :: "int \<Rightarrow> nat \<Rightarrow> (string \<Rightarrow> ('x user_st_scheme, unit) kern) \<Rightarrow> ('x user_st_scheme, int) kern" where
  "read_loop fd sz body = uloop (kbind (uread fd sz) (\<lambda>(n, d).
     if n \<le> 0 then kret (Some n) else kseq (body d) (kret None)))"

definition BUFSIZE :: nat where "BUFSIZE = 512"

subsection \<open>cat\<close>

definition cat :: "int \<Rightarrow> ('x user_st_scheme, unit) kern" where
  "cat fd = kbind (read_loop fd BUFSIZE (uwrite 1)) (\<lambda>n.
     kwhen (n < 0) (kseq (printf 1 (''cat: read error'' @ [nl]) []) uexit))"

primrec cat_files :: "string list \<Rightarrow> ('x user_st_scheme, unit) kern" where
  "cat_files [] = uexit"
| "cat_files (f # fs) = kbind (ucall (UOpen f 0)) (\<lambda>fd.
     if fd < 0 then kseq (printf 1 (''cat: cannot open %s'' @ [nl]) [PStr (Some f)]) uexit
     else kseq (cat fd) (kseq (ucall (UClose fd)) (cat_files fs)))"

definition cat_main :: "string list \<Rightarrow> ('x user_st_scheme, unit) kern" where
  "cat_main argv = (if length argv \<le> 1 then kseq (cat 0) uexit else cat_files (drop 1 argv))"

subsection \<open>wc\<close>

record wc_st = user_st +
  w_l :: int
  w_w :: int
  w_c :: int
  w_inword :: bool

definition wc_white :: string where
  "wc_white = [CHR '' '', CHR 0x0D, CHR 0x09, CHR 0x0A, CHR 0x0B]"

definition wc_char :: "char \<Rightarrow> 'x wc_st_scheme \<Rightarrow> 'x wc_st_scheme" where
  "wc_char ch s =
     (let s = s\<lparr>w_c := w_c s + 1\<rparr>;
          s = (if ch = nl then s\<lparr>w_l := w_l s + 1\<rparr> else s)
      in if ustrchr wc_white ch \<noteq> None then s\<lparr>w_inword := False\<rparr>
         else if \<not> w_inword s then s\<lparr>w_w := w_w s + 1, w_inword := True\<rparr> else s)"

definition wc_chunk :: "string \<Rightarrow> ('x wc_st_scheme, unit) kern" where
  "wc_chunk d = kmod (\<lambda>s. foldl (\<lambda>s ch. wc_char ch s) s d)"

definition wc :: "int \<Rightarrow> string \<Rightarrow> ('x wc_st_scheme, unit) kern" where
  "wc fd name =
     kseq (kmod (\<lambda>s. s\<lparr>w_l := 0, w_w := 0, w_c := 0, w_inword := False\<rparr>))
    (kbind (read_loop fd BUFSIZE wc_chunk) (\<lambda>n.
     if n < 0 then kseq (printf 1 (''wc: read error'' @ [nl]) []) uexit
     else kbind (kget (\<lambda>s. (w_l s, w_w s, w_c s))) (\<lambda>(l, w, c).
       printf 1 (''%d %d %d %s'' @ [nl]) [PInt (of_int l), PInt (of_int w), PInt (of_int c), PStr (Some name)])))"

primrec wc_files :: "string list \<Rightarrow> ('x wc_st_scheme, unit) kern" where
  "wc_files [] = uexit"
| "wc_files (f # fs) = kbind (ucall (UOpen f 0)) (\<lambda>fd.
     if fd < 0 then kseq (printf 1 (''wc: cannot open %s'' @ [nl]) [PStr (Some f)]) uexit
     else kseq (wc fd f) (kseq (ucall (UClose fd)) (wc_files fs)))"

definition wc_main :: "string list \<Rightarrow> ('x wc_st_scheme, unit) kern" where
  "wc_main argv = (if length argv \<le> 1 then kseq (wc 0 []) uexit else wc_files (drop 1 argv))"

subsection \<open>echo, kill, ln, mkdir, rm and zombie\<close>

primrec echo_words :: "string list \<Rightarrow> ('x user_st_scheme, unit) kern" where
  "echo_words [] = kret ()"
| "echo_words (a # as) =
     kseq (printf 1 ''%s%s'' [PStr (Some a), PStr (Some (if as \<noteq> [] then '' '' else [nl]))]) (echo_words as)"

definition echo_main :: "string list \<Rightarrow> ('x user_st_scheme, unit) kern" where
  "echo_main argv = kseq (echo_words (drop 1 argv)) uexit"

definition kill_main :: "string list \<Rightarrow> ('x user_st_scheme, unit) kern" where
  "kill_main argv =
     (if length argv < 1 then kseq (printf 2 (''usage: kill pid...'' @ [nl]) []) uexit
      else kseq (kfor (drop 1 argv) (\<lambda>a. kseq (ucall (UKill (sint (atoi a)))) (kret ()))) uexit)"

definition ln_main :: "string list \<Rightarrow> ('x user_st_scheme, unit) kern" where
  "ln_main argv =
     (if length argv \<noteq> 3 then kseq (printf 2 (''Usage: ln old new'' @ [nl]) []) uexit
      else kbind (ucall (ULink (argv ! 1) (argv ! 2))) (\<lambda>r.
        kseq (kwhen (r < 0) (printf 2 (''link %s %s: failed'' @ [nl]) [PStr (Some (argv ! 1)), PStr (Some (argv ! 2))]))
         uexit))"

primrec mkdir_files :: "string list \<Rightarrow> ('x user_st_scheme, unit) kern" where
  "mkdir_files [] = kret ()"
| "mkdir_files (f # fs) = kbind (ucall (UMkdir f)) (\<lambda>r.
     if r < 0 then printf 2 (''mkdir: %s failed to create'' @ [nl]) [PStr (Some f)] else mkdir_files fs)"

definition mkdir_main :: "string list \<Rightarrow> ('x user_st_scheme, unit) kern" where
  "mkdir_main argv =
     (if length argv < 2 then kseq (printf 2 (''Usage: mkdir files...'' @ [nl]) []) uexit
      else kseq (mkdir_files (drop 1 argv)) uexit)"

primrec rm_files :: "string list \<Rightarrow> ('x user_st_scheme, unit) kern" where
  "rm_files [] = kret ()"
| "rm_files (f # fs) = kbind (ucall (UUnlink f)) (\<lambda>r.
     if r < 0 then printf 2 (''rm: %s failed to delete'' @ [nl]) [PStr (Some f)] else rm_files fs)"

definition rm_main :: "string list \<Rightarrow> ('x user_st_scheme, unit) kern" where
  "rm_main argv =
     (if length argv < 2 then kseq (printf 2 (''Usage: rm files...'' @ [nl]) []) uexit
      else kseq (rm_files (drop 1 argv)) uexit)"

definition zombie_main :: "('x user_st_scheme, unit) kern" where
  "zombie_main = kbind (ucall UFork) (\<lambda>pid. kseq (kwhen (pid > 0) (kseq (ucall (USleep 5)) (kret ()))) uexit)"

subsection \<open>ls\<close>

definition LS_DIRSIZ :: nat where "LS_DIRSIZ = 14"

definition fmtname :: "string \<Rightarrow> string" where
  "fmtname path =
     (let p = rev (takeWhile (\<lambda>c. c \<noteq> CHR ''/'') (rev path)) in
      if ustrlen p \<ge> LS_DIRSIZ then p else p @ replicate (LS_DIRSIZ - ustrlen p) CHR '' '')"

text \<open>The numbers of \<open>fstat\<close> are the fields of \<open>struct stat\<close> in its order: type, dev, ino, nlink, size.\<close>

definition ls_line :: "string \<Rightarrow> int list \<Rightarrow> ('x user_st_scheme, unit) kern" where
  "ls_line name st = (case st of
     [type, dev, ino, nlink, sz] \<Rightarrow>
       printf 1 (''%s %d %d %d'' @ [nl]) [PStr (Some name), PInt (of_int type), PInt (of_int ino), PInt (of_int sz)]
   | _ \<Rightarrow> fault ''stat: no answer'')"

text \<open>One turn of the loop over the entries of a directory: 16 bytes, the inode number and the name.\<close>

definition ls_entry :: "string \<Rightarrow> int \<Rightarrow> ('x user_st_scheme, unit option) kern" where
  "ls_entry path fd = kbind (uread fd 16) (\<lambda>(n, de).
     if n \<noteq> 16 then kret (Some ())
     else if take 2 de = [nul, nul] then kret None
     else let name = path @ ''/'' @ takeWhile (\<lambda>c. c \<noteq> nul) (drop 2 de) in
       kbind (ustat name) (\<lambda>(r, st).
       kseq (if r < 0 then printf 1 (''ls: cannot stat %s'' @ [nl]) [PStr (Some name)]
             else ls_line (fmtname name) st)
        (kret None)))"

definition ls :: "string \<Rightarrow> ('x user_st_scheme, unit) kern" where
  "ls path = kbind (ucall (UOpen path 0)) (\<lambda>fd.
     if fd < 0 then printf 2 (''ls: cannot open %s'' @ [nl]) [PStr (Some path)]
     else kbind (syscall_answer (UFstat fd)) (\<lambda>a.
       if a_ret a < 0
       then kseq (printf 2 (''ls: cannot stat %s'' @ [nl]) [PStr (Some path)]) (kseq (ucall (UClose fd)) (kret ()))
       else kseq (case a_nums a of
             [] \<Rightarrow> fault ''fstat: no answer''
           | t # _ \<Rightarrow>
               if t = 2 then ls_line (fmtname path) (a_nums a)
               else if t = 1 then
                 (if ustrlen path + 1 + LS_DIRSIZ + 1 > BUFSIZE then printf 1 (''ls: path too long'' @ [nl]) []
                  else uloop (ls_entry path fd))
               else kret ())
           (kseq (ucall (UClose fd)) (kret ()))))"

definition ls_main :: "string list \<Rightarrow> ('x user_st_scheme, unit) kern" where
  "ls_main argv =
     (if length argv < 2 then kseq (ls ''.'') uexit else kseq (kfor (drop 1 argv) ls) uexit)"

subsection \<open>init\<close>

text \<open>\<open>init\<close> waits until its shell is gone and starts the next one; other children are reported.\<close>

definition init_wait :: "int \<Rightarrow> ('x user_st_scheme, unit option) kern" where
  "init_wait pid = kbind (ucall UWait) (\<lambda>wpid.
     if wpid \<ge> 0 \<and> wpid \<noteq> pid then kseq (printf 1 (''zombie!'' @ [nl]) []) (kret None)
     else kret (Some ()))"

definition init_turn :: "('x user_st_scheme, unit option) kern" where
  "init_turn = kseq (printf 1 (''init: starting sh'' @ [nl]) []) (kbind (ucall UFork) (\<lambda>pid.
     if pid < 0 then kseq (printf 1 (''init: fork failed'' @ [nl]) []) uexit
     else if pid = 0 then
       kseq (ucall (UExec ''sh'' [''sh'']))
      (kseq (printf 1 (''init: exec sh failed'' @ [nl]) []) uexit)
     else kseq (uloop (init_wait pid)) (kret None)))"

definition init_main :: "('x user_st_scheme, unit) kern" where
  "init_main = kbind (ucall (UOpen ''console'' 2)) (\<lambda>fd.
     kseq (kwhen (fd < 0) (kseq (ucall (UMknod ''console'' 1 1)) (kseq (ucall (UOpen ''console'' 2)) (kret ()))))
    (kseq (ucall (UDup 0)) (kseq (ucall (UDup 0)) (uloop init_turn))))"

subsection \<open>Reading a whole file\<close>

declare printf.simps [simp del]

lemma is_read_simps [simp]: "is_read (URead fd n)" "\<not> is_read (UWrite fd cs)"
  by (simp_all add: is_read_def)

lemma uread_stream:
  assumes "u_sys s = stream_sys chunks" "length (filter is_read (u_log s)) = k" "k < length chunks"
    "chunks ! k \<noteq> []" "length (chunks ! k) \<le> n" "0 < u_budget s"
  shows "uread fd n s = Ret (int (length (chunks ! k)), chunks ! k) (s\<lparr>u_log := u_log s @ [URead fd n], u_budget := u_budget s - 1\<rparr>)"
  using assms by (simp add: uread_def syscall_answer_def stream_sys_def Let_def)

lemma uread_stream_end:
  assumes "u_sys s = stream_sys chunks" "length chunks \<le> length (filter is_read (u_log s))" "0 < u_budget s"
  shows "uread fd n s = Ret (0, []) (s\<lparr>u_log := u_log s @ [URead fd n], u_budget := u_budget s - 1\<rparr>)"
  using assms by (simp add: uread_def syscall_answer_def stream_sys_def Let_def)


definition chunks_ok :: "string list \<Rightarrow> bool" where
  "chunks_ok chunks \<longleftrightarrow> (\<forall>d \<in> set chunks. d \<noteq> [] \<and> length d \<le> BUFSIZE)"

text \<open>A turn of the loop on a chunk, and the end of the loop.\<close>

lemma read_loop_turn:
  assumes "u_sys s = stream_sys chunks" "length (filter is_read (u_log s)) = k" "drop k chunks = d # ds"
    "d \<noteq> []" "length d \<le> BUFSIZE" "0 < u_budget s"
    and "body d (s\<lparr>u_log := u_log s @ [URead fd BUFSIZE], u_budget := u_budget s - 1\<rparr>) = Ret () t" "u_budget t < u_budget s"
  shows "read_loop fd BUFSIZE body s = read_loop fd BUFSIZE body t"
proof -
  have "k < length chunks" "chunks ! k = d"
    using assms(3) by (metis drop_all linorder_not_le list.distinct(1), metis nth_via_drop)
  then show ?thesis
    using assms uread_stream [OF assms(1,2), of BUFSIZE fd]
    unfolding read_loop_def by (subst uloop.simps) simp
qed

lemma read_loop_end:
  assumes "u_sys s = stream_sys chunks" "length chunks \<le> length (filter is_read (u_log s))" "0 < u_budget s"
  shows "read_loop fd BUFSIZE body s = Ret 0 (s\<lparr>u_log := u_log s @ [URead fd BUFSIZE], u_budget := u_budget s - 1\<rparr>)"
  unfolding read_loop_def using uread_stream_end [OF assms, of fd BUFSIZE] by (subst uloop.simps) simp

lemma drop_Cons_Suc: "drop k xs = y # ys \<Longrightarrow> drop (Suc k) xs = ys"
  by (metis drop_Suc list.sel(3) tl_drop)

definition cat_calls :: "int \<Rightarrow> string list \<Rightarrow> usyscall list" where
  "cat_calls fd ds = concat (map (\<lambda>d. [URead fd BUFSIZE, UWrite 1 d]) ds)"

lemma cat_loop:
  assumes "chunks_ok chunks"
  shows "u_sys s = stream_sys chunks \<Longrightarrow> length (filter is_read (u_log s)) = k \<Longrightarrow> drop k chunks = ds \<Longrightarrow>
    2 * length ds < u_budget s \<Longrightarrow>
    \<exists>t. read_loop fd BUFSIZE (uwrite 1) s = Ret 0 t \<and> u_log t = u_log s @ cat_calls fd ds @ [URead fd BUFSIZE]"
proof (induction ds arbitrary: s k)
  case Nil
  then show ?case using read_loop_end [of s chunks fd "uwrite 1"] by (simp add: cat_calls_def)
next
  case (Cons d ds)
  let ?t = "s\<lparr>u_log := u_log s @ [URead fd BUFSIZE, UWrite 1 d], u_budget := u_budget s - 2\<rparr>"
  have "d \<in> set chunks" using Cons.prems(3) by (metis in_set_dropD list.set_intros(1))
  then have d: "d \<noteq> []" "length d \<le> BUFSIZE" using assms by (auto simp: chunks_ok_def)
  have b: "uwrite 1 d (s\<lparr>u_log := u_log s @ [URead fd BUFSIZE], u_budget := u_budget s - 1\<rparr>) = Ret () ?t"
    using Cons.prems(4) by (simp add: uwrite_def syscall_answer_def)
  have e: "read_loop fd BUFSIZE (uwrite 1) s = read_loop fd BUFSIZE (uwrite 1) ?t"
    using Cons.prems(4) b by (intro read_loop_turn [OF Cons.prems(1,2,3) d]) simp_all
  have "\<exists>t. read_loop fd BUFSIZE (uwrite 1) ?t = Ret 0 t \<and> u_log t = u_log ?t @ cat_calls fd ds @ [URead fd BUFSIZE]"
    using Cons.prems drop_Cons_Suc [OF Cons.prems(3)] by (intro Cons.IH [of _ "Suc k"]) simp_all
  then show ?case using e by (auto simp: cat_calls_def)
qed

text \<open>
  C39: \<open>cat\<close> gets to the end: whatever pieces the reads deliver a file in, \<open>cat\<close> returns after finitely
  many system calls and has written every piece, once and in order, before it read the next one.
\<close>

theorem cat_copies:
  assumes "\<forall>d \<in> set chunks. d \<noteq> [] \<and> length d \<le> 512"
    and "u_sys s = stream_sys chunks" "u_log s = []" "2 * length chunks < u_budget s"
  shows "\<exists>t. cat fd s = Ret () t
    \<and> u_log t = concat (map (\<lambda>d. [URead fd 512, UWrite 1 d]) chunks) @ [URead fd 512]"
proof -
  have "chunks_ok chunks" using assms(1) by (simp add: chunks_ok_def BUFSIZE_def)
  from cat_loop [OF this, of s 0 chunks fd] assms obtain t
    where "read_loop fd BUFSIZE (uwrite 1) s = Ret 0 t" "u_log t = cat_calls fd chunks @ [URead fd BUFSIZE]"
    by auto
  then show ?thesis by (simp add: cat_def cat_calls_def BUFSIZE_def)
qed

theorem cat_copies_witness:
  "\<exists>t. cat 0 \<lparr>u_sys = stream_sys [''ab'', ''c''], u_log = [], u_budget = 9\<rparr> = Ret () t
    \<and> u_log t = [URead 0 512, UWrite 1 ''ab'', URead 0 512, UWrite 1 ''c'', URead 0 512]"
  using cat_copies [of "[''ab'', ''c'']" "\<lparr>u_sys = stream_sys [''ab'', ''c''], u_log = [], u_budget = 9\<rparr>" 0] by simp


subsection \<open>What wc counts\<close>

definition is_wc_white :: "char \<Rightarrow> bool" where "is_wc_white c \<longleftrightarrow> ustrchr wc_white c \<noteq> None"

text \<open>A word starts at a character that is not white and has no such character before it.\<close>

definition word_starts :: "string \<Rightarrow> nat" where
  "word_starts t = length (filter (\<lambda>i. \<not> is_wc_white (t ! i) \<and> (i = 0 \<or> is_wc_white (t ! (i - 1)))) [0..<length t])"

lemma word_starts_snoc:
  "word_starts (t @ [c]) = word_starts t + (if \<not> is_wc_white c \<and> (t = [] \<or> is_wc_white (last t)) then 1 else 0)"
proof -
  have "filter (\<lambda>i. \<not> is_wc_white ((t @ [c]) ! i) \<and> (i = 0 \<or> is_wc_white ((t @ [c]) ! (i - 1)))) [0..<length t]
      = filter (\<lambda>i. \<not> is_wc_white (t ! i) \<and> (i = 0 \<or> is_wc_white (t ! (i - 1)))) [0..<length t]"
    by (rule filter_cong) (auto simp: nth_append)
  moreover have "t \<noteq> [] \<Longrightarrow> (t @ [c]) ! (length t - 1) = last t" by (simp add: nth_append last_conv_nth)
  ultimately show ?thesis by (auto simp: word_starts_def)
qed

definition wc_run :: "string \<Rightarrow> 'x wc_st_scheme \<Rightarrow> 'x wc_st_scheme" where
  "wc_run d s = foldl (\<lambda>s ch. wc_char ch s) s d"

lemma wc_char_user [simp]:
  "u_sys (wc_char ch s) = u_sys s" "u_log (wc_char ch s) = u_log s" "u_budget (wc_char ch s) = u_budget s"
  "wc_char ch (s\<lparr>u_log := lg, u_budget := b\<rparr>) = (wc_char ch s)\<lparr>u_log := lg, u_budget := b\<rparr>"
  by (simp_all add: wc_char_def Let_def)

lemma wc_run_user [simp]:
  "u_sys (wc_run d s) = u_sys s" "u_log (wc_run d s) = u_log s" "u_budget (wc_run d s) = u_budget s"
  "wc_run d (s\<lparr>u_log := lg, u_budget := b\<rparr>) = (wc_run d s)\<lparr>u_log := lg, u_budget := b\<rparr>"
  unfolding wc_run_def by (induction d arbitrary: s) simp_all

lemma wc_run_append: "wc_run (d @ e) s = wc_run e (wc_run d s)"
  by (simp add: wc_run_def)

lemma wc_run_counts:
  assumes "w_l s = 0" "w_w s = 0" "w_c s = 0" "\<not> w_inword s"
  shows "w_l (wc_run t s) = int (length (filter (\<lambda>c. c = nl) t)) \<and> w_w (wc_run t s) = int (word_starts t)
    \<and> w_c (wc_run t s) = int (length t) \<and> w_inword (wc_run t s) = (t \<noteq> [] \<and> \<not> is_wc_white (last t))"
proof (induction t rule: rev_induct)
  case Nil
  then show ?case using assms by (simp add: wc_run_def word_starts_def)
next
  case (snoc c t)
  have "wc_run (t @ [c]) s = wc_char c (wc_run t s)" by (simp add: wc_run_def)
  then show ?case
    using snoc by (auto simp: wc_char_def Let_def word_starts_snoc is_wc_white_def)
qed

lemma wc_loop:
  assumes "chunks_ok chunks"
  shows "u_sys s = stream_sys chunks \<Longrightarrow> length (filter is_read (u_log s)) = k \<Longrightarrow> drop k chunks = ds \<Longrightarrow>
    length ds < u_budget s \<Longrightarrow>
    \<exists>b. read_loop fd BUFSIZE wc_chunk s
      = Ret 0 ((wc_run (concat ds) s)\<lparr>u_log := u_log s @ replicate (Suc (length ds)) (URead fd BUFSIZE), u_budget := b\<rparr>)"
proof (induction ds arbitrary: s k)
  case Nil
  then show ?case using read_loop_end [of s chunks fd wc_chunk] by (auto simp: wc_run_def)
next
  case (Cons d ds)
  let ?s1 = "s\<lparr>u_log := u_log s @ [URead fd BUFSIZE], u_budget := u_budget s - 1\<rparr>"
  let ?t = "wc_run d ?s1"
  have "d \<in> set chunks" using Cons.prems(3) by (metis in_set_dropD list.set_intros(1))
  then have d: "d \<noteq> []" "length d \<le> BUFSIZE" using assms by (auto simp: chunks_ok_def)
  have b: "wc_chunk d ?s1 = Ret () ?t" by (simp only: wc_chunk_def wc_run_def kmod_apply)
  have e: "read_loop fd BUFSIZE wc_chunk s = read_loop fd BUFSIZE wc_chunk ?t"
    using Cons.prems(4) b by (intro read_loop_turn [OF Cons.prems(1,2,3) d]) simp_all
  have "\<exists>b. read_loop fd BUFSIZE wc_chunk ?t
      = Ret 0 ((wc_run (concat ds) ?t)\<lparr>u_log := u_log ?t @ replicate (Suc (length ds)) (URead fd BUFSIZE), u_budget := b\<rparr>)"
    using Cons.prems drop_Cons_Suc [OF Cons.prems(3)] by (intro Cons.IH [of _ "Suc k"]) simp_all
  then show ?case using e by (auto simp: wc_run_append)
qed

text \<open>
  C38: \<open>wc\<close> counts the file and not the pieces: whatever pieces the reads deliver it in, \<open>wc\<close> prints the
  number of newlines, of word starts and of bytes of the whole file, also when a word is split
  between two pieces.
\<close>

theorem wc_counts:
  assumes "\<forall>d \<in> set chunks. d \<noteq> [] \<and> length d \<le> 512"
    and "u_sys s = stream_sys chunks" "u_log s = []" "length chunks < u_budget s"
  shows "\<exists>t. wc fd name s = printf 1 (''%d %d %d %s'' @ [nl])
      [PInt (of_nat (length (filter (\<lambda>c. c = nl) (concat chunks)))), PInt (of_nat (word_starts (concat chunks))),
       PInt (of_nat (length (concat chunks))), PStr (Some name)] t
    \<and> u_log t = replicate (Suc (length chunks)) (URead fd 512)"
proof -
  have c: "chunks_ok chunks" using assms(1) by (simp add: chunks_ok_def BUFSIZE_def)
  let ?s = "s\<lparr>w_l := 0, w_w := 0, w_c := 0, w_inword := False\<rparr>"
  obtain b where b: "read_loop fd BUFSIZE wc_chunk ?s
      = Ret 0 ((wc_run (concat chunks) ?s)\<lparr>u_log := u_log ?s @ replicate (Suc (length chunks)) (URead fd BUFSIZE), u_budget := b\<rparr>)"
    using wc_loop [OF c, of ?s 0 chunks fd] assms by auto
  have "w_l (wc_run (concat chunks) ?s) = int (length (filter (\<lambda>c. c = nl) (concat chunks)))"
    "w_w (wc_run (concat chunks) ?s) = int (word_starts (concat chunks))"
    "w_c (wc_run (concat chunks) ?s) = int (length (concat chunks))"
    using wc_run_counts [of ?s "concat chunks"] by simp_all
  then show ?thesis
    using b assms(3)
    by (intro exI [of _ "(wc_run (concat chunks) ?s)\<lparr>u_log := replicate (Suc (length chunks)) (URead fd BUFSIZE), u_budget := b\<rparr>"])
      (simp add: wc_def kseq_def kbind_def kmod_def kget_def BUFSIZE_def del: replicate_Suc)
qed

theorem wc_counts_witness:
  "\<exists>t. wc 0 ''f'' \<lparr>u_sys = stream_sys [''a b'', ''c''], u_log = [], u_budget = 99, w_l = 0, w_w = 0, w_c = 0, w_inword = False\<rparr>
      = printf 1 (''%d %d %d %s'' @ [nl]) [PInt 0, PInt 2, PInt 4, PStr (Some ''f'')] t"
proof -
  have "word_starts ''a bc'' = 2" by code_simp
  then show ?thesis
    using wc_counts [of "[''a b'', ''c'']" "\<lparr>u_sys = stream_sys [''a b'', ''c''], u_log = [], u_budget = 99,
       w_l = 0, w_w = 0, w_c = 0, w_inword = False\<rparr>" 0 "''f''"] by auto
qed

end
