(* ===== verification/Sh.thy ===== *)
theory Sh
  imports Ulib Layout
begin

section \<open>sh.c: the shell\<close>

text \<open>
  The parser and the command interpreter of \<^verbatim>\<open>src/sh.c\<close>. A command line is a list of characters
  without zero bytes, and a pointer into it is an offset. The parser answers a tree whose words
  are pairs of offsets, as \<open>argv\<close> and \<open>eargv\<close> do; \<open>nulterminate\<close> then ends the words in the buffer.
  Memory allocation is taken to succeed. Recursion is bounded by a number of nested calls, which
  is shown to be enough for every command line.
\<close>

type_synonym word_at = "nat \<times> nat"

datatype cmd =
    EXEC "word_at list"
  | REDIR cmd word_at u32 int
  | PIPE cmd cmd
  | LIST cmd cmd
  | BACK cmd

datatype 'a parsed = Parsed 'a nat | Syntax string | Leftovers nat | Deep

definition pthen :: "'a parsed \<Rightarrow> ('a \<Rightarrow> nat \<Rightarrow> 'b parsed) \<Rightarrow> 'b parsed" where
  "pthen r f = (case r of Parsed x p \<Rightarrow> f x p | Syntax msg \<Rightarrow> Syntax msg
     | Leftovers p \<Rightarrow> Leftovers p | Deep \<Rightarrow> Deep)"

lemma pthen_simps [simp]:
  "pthen (Parsed x p) f = f x p" "pthen (Syntax msg) f = Syntax msg"
  "pthen (Leftovers q) f = Leftovers q" "pthen Deep f = Deep"
  by (simp_all add: pthen_def)

definition MAXARGS :: nat where "MAXARGS = 10"

subsection \<open>Tokens\<close>

definition whitespace :: string where
  "whitespace = [CHR '' '', CHR 0x09, CHR 0x0D, CHR 0x0A, CHR 0x0B]"

definition symbols :: string where "symbols = ''<|>&;()''"

definition char_at :: "string \<Rightarrow> nat \<Rightarrow> char" where
  "char_at s i = (if i < length s then s ! i else CHR 0x00)"

definition skip_white :: "string \<Rightarrow> nat \<Rightarrow> nat" where
  "skip_white s p = p + length (takeWhile (\<lambda>c. ustrchr whitespace c \<noteq> None) (drop p s))"

definition word_end :: "string \<Rightarrow> nat \<Rightarrow> nat" where
  "word_end s p = p + length (takeWhile (\<lambda>c. ustrchr whitespace c = None \<and> ustrchr symbols c = None) (drop p s))"

text \<open>\<open>gettoken\<close>: the kind of token, the offsets of its start and end, and the new position.\<close>

definition gettoken :: "string \<Rightarrow> nat \<Rightarrow> char \<times> nat \<times> nat \<times> nat" where
  "gettoken s p =
     (let q = skip_white s p; c = char_at s q;
          (ret, eq) =
            (if c = CHR 0x00 then (c, q)
             else if c \<in> {CHR ''|'', CHR ''('', CHR '')'', CHR '';'', CHR ''&'', CHR ''<''} then (c, q + 1)
             else if c = CHR ''>'' then
               (if char_at s (q + 1) = CHR ''>'' then (CHR ''+'', q + 2) else (c, q + 1))
             else (CHR ''a'', word_end s q))
      in (ret, q, eq, skip_white s eq))"

definition peek :: "string \<Rightarrow> nat \<Rightarrow> string \<Rightarrow> nat \<times> bool" where
  "peek s p toks =
     (let q = skip_white s p; c = char_at s q in (q, c \<noteq> CHR 0x00 \<and> ustrchr toks c \<noteq> None))"

subsection \<open>The grammar\<close>

definition redir_mode :: "char \<Rightarrow> u32 \<times> int" where
  "redir_mode tok = (if tok = CHR ''<'' then (O_RDONLY, 0) else (O_WRONLY OR O_CREATE, 1))"

text \<open>
  \<open>parseredirs\<close> answers the redirections it read; \<open>redircmds\<close> wraps them around a command. In
  \<open>parseexec\<close> the words read after a redirection still go to the command inside.
\<close>

definition redircmds :: "cmd \<Rightarrow> (word_at \<times> u32 \<times> int) list \<Rightarrow> cmd" where
  "redircmds c rs = foldl (\<lambda>c (file, mode, fd). REDIR c file mode fd) c rs"

fun parseredirs :: "nat \<Rightarrow> string \<Rightarrow> nat \<Rightarrow> (word_at \<times> u32 \<times> int) list parsed" where
  "parseredirs 0 s p = Deep"
| "parseredirs (Suc n) s p =
     (let (p, more) = peek s p ''<>'' in
      if \<not> more then Parsed [] p
      else let (tok, _, _, p) = gettoken s p; (ret, q, eq, p) = gettoken s p in
        if ret \<noteq> CHR ''a'' then Syntax ''missing file for redirection''
        else pthen (parseredirs n s p) (\<lambda>rs p. Parsed (((q, eq), redir_mode tok) # rs) p))"

text \<open>The loop of \<open>parseexec\<close> over the words of a command.\<close>

fun parseargs :: "nat \<Rightarrow> string \<Rightarrow> nat \<Rightarrow> nat \<Rightarrow> (word_at list \<times> (word_at \<times> u32 \<times> int) list) parsed" where
  "parseargs 0 s argc p = Deep"
| "parseargs (Suc n) s argc p =
     (let (p, stop) = peek s p ''|)&;'' in
      if stop then Parsed ([], []) p
      else let (tok, q, eq, p) = gettoken s p in
        if tok = CHR 0x00 then Parsed ([], []) p
        else if tok \<noteq> CHR ''a'' then Syntax ''syntax''
        else if argc + 1 \<ge> MAXARGS then Syntax ''too many args''
        else pthen (parseredirs n s p) (\<lambda>rs p.
             pthen (parseargs n s (argc + 1) p) (\<lambda>(args, rs') p. Parsed ((q, eq) # args, rs @ rs') p)))"

fun parseback :: "nat \<Rightarrow> string \<Rightarrow> cmd \<Rightarrow> nat \<Rightarrow> cmd parsed" where
  "parseback 0 s c p = Deep"
| "parseback (Suc n) s c p =
     (let (p, more) = peek s p ''&'' in
      if \<not> more then Parsed c p
      else let (_, _, _, p) = gettoken s p in parseback n s (BACK c) p)"

fun parseline :: "nat \<Rightarrow> string \<Rightarrow> nat \<Rightarrow> cmd parsed"
  and parsepipe :: "nat \<Rightarrow> string \<Rightarrow> nat \<Rightarrow> cmd parsed"
  and parseexec :: "nat \<Rightarrow> string \<Rightarrow> nat \<Rightarrow> cmd parsed"
  and parseblock :: "nat \<Rightarrow> string \<Rightarrow> nat \<Rightarrow> cmd parsed" where
  "parseline 0 s p = Deep"
| "parseline (Suc n) s p =
     pthen (parsepipe n s p) (\<lambda>c p. pthen (parseback n s c p) (\<lambda>c p.
     let (p, more) = peek s p '';'' in
     if more then let (_, _, _, p) = gettoken s p in
       pthen (parseline n s p) (\<lambda>r p. Parsed (LIST c r) p)
     else Parsed c p))"
| "parsepipe 0 s p = Deep"
| "parsepipe (Suc n) s p =
     pthen (parseexec n s p) (\<lambda>c p.
     let (p, more) = peek s p ''|'' in
     if more then let (_, _, _, p) = gettoken s p in
       pthen (parsepipe n s p) (\<lambda>r p. Parsed (PIPE c r) p)
     else Parsed c p)"
| "parseexec 0 s p = Deep"
| "parseexec (Suc n) s p =
     (let (p, block) = peek s p ''('' in
      if block then parseblock n s p
      else pthen (parseredirs n s p) (\<lambda>rs p.
           pthen (parseargs n s 0 p) (\<lambda>(args, rs') p. Parsed (redircmds (EXEC args) (rs @ rs')) p)))"
| "parseblock 0 s p = Deep"
| "parseblock (Suc n) s p =
     (let (p, block) = peek s p ''('' in
      if \<not> block then Syntax ''parseblock''
      else let (_, _, _, p) = gettoken s p in
        pthen (parseline n s p) (\<lambda>c p.
        let (p, close) = peek s p '')'' in
        if \<not> close then Syntax ''syntax - missing )''
        else let (_, _, _, p) = gettoken s p in
          pthen (parseredirs n s p) (\<lambda>rs p. Parsed (redircmds c rs) p)))"

definition parse_depth :: "string \<Rightarrow> nat" where
  "parse_depth s = 4 * length s + 4"

text \<open>\<open>parsecmd\<close> up to \<open>nulterminate\<close>.\<close>

definition parsecmd :: "string \<Rightarrow> cmd parsed" where
  "parsecmd s = pthen (parseline (parse_depth s) s 0) (\<lambda>c p.
     let (p, _) = peek s p '''' in
     if p \<noteq> length s then Leftovers p else Parsed c p)"

subsection \<open>Ending the words\<close>

primrec nulterminate :: "cmd \<Rightarrow> string \<Rightarrow> string" where
  "nulterminate (EXEC ws) b = foldl (\<lambda>b (q, eq). b[eq := CHR 0x00]) b ws"
| "nulterminate (REDIR c file mode fd) b = (nulterminate c b)[snd file := CHR 0x00]"
| "nulterminate (PIPE l r) b = nulterminate r (nulterminate l b)"
| "nulterminate (LIST l r) b = nulterminate r (nulterminate l b)"
| "nulterminate (BACK c) b = nulterminate c b"

definition cstring_at :: "string \<Rightarrow> nat \<Rightarrow> string" where
  "cstring_at b q = takeWhile (\<lambda>c. c \<noteq> CHR 0x00) (drop q b)"

subsection \<open>Running commands\<close>

definition sh_panic :: "string \<Rightarrow> ('x user_st_scheme, 'a) kern" where
  "sh_panic msg = kseq (printf 2 (''%s'' @ [CHR 0x0A]) [PStr (Some msg)]) uexit"

definition fork1 :: "('x user_st_scheme, int) kern" where
  "fork1 = kbind (ucall UFork) (\<lambda>pid. if pid = -1 then sh_panic ''fork'' else kret pid)"

text \<open>
  \<open>runcmd\<close>, for the buffer that \<open>nulterminate\<close> left. The answers of \<open>fork\<close> decide whether the run is
  that of the parent or of a child.
\<close>

primrec runcmd :: "string \<Rightarrow> cmd \<Rightarrow> ('x user_st_scheme, unit) kern" where
  "runcmd b (EXEC ws) =
     (case ws of
        [] \<Rightarrow> uexit
      | w # _ \<Rightarrow>
          kseq (ucall (UExec (cstring_at b (fst w)) (map (\<lambda>w. cstring_at b (fst w)) ws)))
         (kseq (printf 2 (''exec %s failed'' @ [CHR 0x0A]) [PStr (Some (cstring_at b (fst w)))]) uexit))"
| "runcmd b (REDIR c file mode fd) =
     kseq (ucall (UClose fd))
    (kbind (ucall (UOpen (cstring_at b (fst file)) mode)) (\<lambda>r.
     if r < 0 then kseq (printf 2 (''open %s failed'' @ [CHR 0x0A]) [PStr (Some (cstring_at b (fst file)))]) uexit
     else kseq (runcmd b c) uexit))"
| "runcmd b (LIST l r) =
     kbind fork1 (\<lambda>pid. kseq (kwhen (pid = 0) (runcmd b l))
    (kseq (ucall UWait)
    (kseq (runcmd b r) uexit)))"
| "runcmd b (PIPE l r) =
     kbind (syscall_answer UPipe) (\<lambda>a.
     if a_ret a < 0 then sh_panic ''pipe''
     else case a_nums a of
       p0 # p1 # _ \<Rightarrow>
         kbind fork1 (\<lambda>pid. kseq (kwhen (pid = 0)
             (kseq (ucall (UClose 1)) (kseq (ucall (UDup p1)) (kseq (ucall (UClose p0)) (kseq (ucall (UClose p1)) (runcmd b l))))))
        (kbind fork1 (\<lambda>pid. kseq (kwhen (pid = 0)
             (kseq (ucall (UClose 0)) (kseq (ucall (UDup p0)) (kseq (ucall (UClose p0)) (kseq (ucall (UClose p1)) (runcmd b r))))))
        (kseq (ucall (UClose p0)) (kseq (ucall (UClose p1))
        (kseq (ucall UWait) (kseq (ucall UWait) uexit)))))))
     | _ \<Rightarrow> fault ''pipe: no descriptors'')"
| "runcmd b (BACK c) =
     kbind fork1 (\<lambda>pid. kseq (kwhen (pid = 0) (runcmd b c)) uexit)"

subsection \<open>The main loop\<close>

definition getcmd :: "nat \<Rightarrow> ('x user_st_scheme, string option) kern" where
  "getcmd nbuf = kseq (printf 2 ''$ '' []) (kbind (gets nbuf) (\<lambda>line.
     let b = takeWhile (\<lambda>c. c \<noteq> CHR 0x00) line in kret (if b = [] then None else Some b)))"

definition sh_open_turn :: "('x user_st_scheme, unit option) kern" where
  "sh_open_turn = kbind (ucall (UOpen ''console'' O_RDWR)) (\<lambda>fd.
     if fd < 0 then kret (Some ())
     else if fd \<ge> 3 then kseq (ucall (UClose fd)) (kret (Some ()))
     else kret None)"

definition sh_child :: "string \<Rightarrow> ('x user_st_scheme, unit) kern" where
  "sh_child b = (case parsecmd b of
       Parsed c _ \<Rightarrow> runcmd (nulterminate c (b @ [CHR 0x00])) c
     | Syntax msg \<Rightarrow> sh_panic msg
     | Leftovers p \<Rightarrow>
         kseq (printf 2 (''leftovers: %s'' @ [CHR 0x0A]) [PStr (Some (drop p b))]) (sh_panic ''syntax'')
     | Deep \<Rightarrow> fault ''sh: parser'')"

definition sh_turn :: "('x user_st_scheme, unit option) kern" where
  "sh_turn = kbind (getcmd 100) (\<lambda>line. case line of
       None \<Rightarrow> kret (Some ())
     | Some b \<Rightarrow>
         if take 3 b = ''cd '' then
           (let dir = drop 3 (butlast b) in
            kbind (ucall (UChdir dir)) (\<lambda>r.
            kseq (kwhen (r < 0) (printf 2 (''cannot cd %s'' @ [CHR 0x0A]) [PStr (Some dir)])) (kret None)))
         else kbind fork1 (\<lambda>pid. kseq (kwhen (pid = 0) (sh_child b)) (kseq (ucall UWait) (kret None))))"

definition sh_main :: "('x user_st_scheme, unit) kern" where
  "sh_main = kseq (uloop sh_open_turn) (kseq (uloop sh_turn) uexit)"

end
