(* ===== verification/Sh_Spec.thy ===== *)
theory Sh_Spec
  imports Sh
begin

section \<open>Properties of the shell\<close>

text \<open>
  The parser ends on every command line, its words are words of the line, \<open>nulterminate\<close> turns
  each of them into a string of its own, and \<open>runcmd\<close> never returns.
\<close>

subsection \<open>Tokens\<close>

definition is_white :: "char \<Rightarrow> bool" where "is_white c \<longleftrightarrow> ustrchr whitespace c \<noteq> None"

definition is_word :: "char \<Rightarrow> bool" where
  "is_word c \<longleftrightarrow> ustrchr whitespace c = None \<and> ustrchr symbols c = None"

abbreviation nonul :: "string \<Rightarrow> bool" where "nonul s \<equiv> CHR 0x00 \<notin> set s"

lemma skip_white_bounds: "p \<le> skip_white s p" "p \<le> length s \<Longrightarrow> skip_white s p \<le> length s"
proof -
  show "p \<le> skip_white s p" by (simp add: skip_white_def)
  have "length (takeWhile (\<lambda>c. ustrchr whitespace c \<noteq> None) (drop p s)) \<le> length (drop p s)" by (rule length_takeWhile_le)
  then show "p \<le> length s \<Longrightarrow> skip_white s p \<le> length s" by (simp add: skip_white_def)
qed

lemma word_end_bounds: "p \<le> word_end s p" "p \<le> length s \<Longrightarrow> word_end s p \<le> length s"
proof -
  show "p \<le> word_end s p" by (simp add: word_end_def)
  have "length (takeWhile (\<lambda>c. ustrchr whitespace c = None \<and> ustrchr symbols c = None) (drop p s)) \<le> length (drop p s)"
    by (rule length_takeWhile_le)
  then show "p \<le> length s \<Longrightarrow> word_end s p \<le> length s" by (simp add: word_end_def)
qed

lemma nonul_nth: "nonul s \<Longrightarrow> q < length s \<Longrightarrow> s ! q \<noteq> CHR 0x00"
  by (metis nth_mem)

lemma char_at_nul: "nonul s \<Longrightarrow> char_at s q = CHR 0x00 \<longleftrightarrow> length s \<le> q"
  using nonul_nth [of s q] by (auto simp: char_at_def)

lemma skip_white_stop:
  assumes "skip_white s p < length s"
  shows "\<not> is_white (s ! skip_white s p)"
proof -
  let ?P = "\<lambda>c. ustrchr whitespace c \<noteq> None"
  let ?n = "length (takeWhile ?P (drop p s))"
  have "?n < length (drop p s)" using assms by (simp add: skip_white_def)
  then have "\<not> ?P (drop p s ! ?n)" by (rule nth_length_takeWhile)
  then show ?thesis using assms by (simp add: is_white_def skip_white_def)
qed

lemma word_end_stop:
  assumes "word_end s p < length s"
  shows "\<not> is_word (s ! word_end s p)"
proof -
  let ?P = "\<lambda>c. ustrchr whitespace c = None \<and> ustrchr symbols c = None"
  let ?n = "length (takeWhile ?P (drop p s))"
  have "?n < length (drop p s)" using assms by (simp add: word_end_def)
  then have "\<not> ?P (drop p s ! ?n)" by (rule nth_length_takeWhile)
  then show ?thesis using assms by (simp add: is_word_def word_end_def)
qed

lemma word_end_inside:
  assumes "p \<le> i" "i < word_end s p"
  shows "is_word (s ! i)"
proof -
  let ?P = "\<lambda>c. ustrchr whitespace c = None \<and> ustrchr symbols c = None"
  have l: "i - p < length (takeWhile ?P (drop p s))" using assms by (simp add: word_end_def)
  then have "takeWhile ?P (drop p s) ! (i - p) \<in> set (takeWhile ?P (drop p s))" by (rule nth_mem)
  then have "?P (takeWhile ?P (drop p s) ! (i - p))" by (rule set_takeWhileD [THEN conjunct2])
  moreover have "takeWhile ?P (drop p s) ! (i - p) = drop p s ! (i - p)" using l by (rule takeWhile_nth)
  moreover have "i - p < length (drop p s)" using l length_takeWhile_le [of ?P "drop p s"] by simp
  ultimately show ?thesis using assms(1) by (simp add: is_word_def)
qed

lemma word_start:
  assumes "p < length s" "is_word (s ! p)"
  shows "p < word_end s p"
proof -
  have "drop p s = s ! p # drop (Suc p) s" using assms(1) by (rule Cons_nth_drop_Suc [symmetric])
  then show ?thesis using assms(2) by (simp add: word_end_def is_word_def)
qed

lemma symbol_cases:
  "ustrchr symbols c \<noteq> None \<longleftrightarrow> c \<in> {CHR ''<'', CHR ''|'', CHR ''>'', CHR ''&'', CHR '';'', CHR ''('', CHR '')''}"
  by (auto simp: symbols_def)

text \<open>A word of the line: a stretch of word characters that cannot be made longer to the right.\<close>

definition word_ok :: "string \<Rightarrow> nat \<times> nat \<Rightarrow> bool" where
  "word_ok s w \<longleftrightarrow> fst w < snd w \<and> snd w \<le> length s \<and> (\<forall>i. fst w \<le> i \<longrightarrow> i < snd w \<longrightarrow> is_word (s ! i))
     \<and> (snd w < length s \<longrightarrow> \<not> is_word (s ! snd w))"

lemma gettoken_bounds:
  assumes "gettoken s p = (ret, q, eq, p')" "p \<le> length s" "nonul s"
  shows "p \<le> p'" "p' \<le> length s" "ret \<noteq> CHR 0x00 \<Longrightarrow> p < p'" "ret = CHR ''a'' \<Longrightarrow> word_ok s (q, eq)"
    "ret = CHR 0x00 \<Longrightarrow> length s \<le> skip_white s p"
proof -
  let ?q = "skip_white s p"
  have q: "p \<le> ?q" "?q \<le> length s" "q = ?q" using assms skip_white_bounds [of p s] by (auto simp: gettoken_def Let_def split: prod.splits)
  have p': "p' = skip_white s eq" using assms(1) by (auto simp: gettoken_def Let_def split: prod.splits)
  consider (nul) "?q = length s" "eq = ?q" "ret = CHR 0x00"
    | (one) "?q < length s" "eq = ?q + 1" "ret \<noteq> CHR 0x00" "ret \<noteq> CHR ''a''"
    | (two) "?q + 1 < length s" "eq = ?q + 2" "ret \<noteq> CHR 0x00" "ret \<noteq> CHR ''a''"
    | (word) "?q < length s" "eq = word_end s ?q" "is_word (s ! ?q)" "ret \<noteq> CHR 0x00"
  proof (cases "?q = length s")
    case True
    then show ?thesis using assms(1) that(1) by (auto simp: gettoken_def Let_def char_at_def)
  next
    case False
    then have lt: "?q < length s" using q by simp
    have c: "char_at s ?q = s ! ?q" "s ! ?q \<noteq> CHR 0x00" using lt nonul_nth [OF assms(3) lt] by (simp_all add: char_at_def)
    show ?thesis
    proof (cases "ustrchr symbols (s ! ?q) = None")
      case True
      have "is_word (s ! ?q)" using True skip_white_stop [OF lt] by (simp add: is_word_def is_white_def)
      moreover have "s ! ?q \<notin> {CHR ''<'', CHR ''|'', CHR ''>'', CHR ''&'', CHR '';'', CHR ''('', CHR '')''}"
        using True symbol_cases by blast
      ultimately show ?thesis using lt c assms(1) that(4) by (auto simp: gettoken_def Let_def)
    next
      case False
      then have sy: "s ! ?q \<in> {CHR ''<'', CHR ''|'', CHR ''>'', CHR ''&'', CHR '';'', CHR ''('', CHR '')''}"
        using symbol_cases by blast
      show ?thesis
      proof (cases "s ! ?q = CHR ''>'' \<and> char_at s (?q + 1) = CHR ''>''")
        case True
        then have "?q + 1 < length s" by (auto simp: char_at_def split: if_splits)
        then show ?thesis using True c assms(1) that(3) by (auto simp: gettoken_def Let_def)
      next
        case False
        then have "ret = s ! ?q \<and> eq = ?q + 1" using sy c assms(1) by (auto simp: gettoken_def Let_def split: if_splits)
        moreover have "s ! ?q \<noteq> CHR ''a''" using sy by auto
        ultimately show ?thesis using lt c(2) that(2) by simp
      qed
    qed
  qed
  then have "p \<le> p' \<and> p' \<le> length s \<and> (ret \<noteq> CHR 0x00 \<longrightarrow> p < p') \<and> (ret = CHR ''a'' \<longrightarrow> word_ok s (q, eq))
    \<and> (ret = CHR 0x00 \<longrightarrow> length s \<le> ?q)"
  proof cases
    case word
    have "?q < word_end s ?q" by (rule word_start [OF word(1,3)])
    moreover have "word_ok s (?q, word_end s ?q)"
      unfolding word_ok_def using calculation word_end_bounds(2) [of ?q s] word_end_inside word_end_stop q(2) by auto
    ultimately show ?thesis
      using word q p' skip_white_bounds [of eq s] word_end_bounds [of ?q s] by auto
  qed (use q p' skip_white_bounds [of eq s] in auto)
  then show "p \<le> p'" "p' \<le> length s" "ret \<noteq> CHR 0x00 \<Longrightarrow> p < p'" "ret = CHR ''a'' \<Longrightarrow> word_ok s (q, eq)"
    "ret = CHR 0x00 \<Longrightarrow> length s \<le> ?q" by simp_all
qed


lemma skip_white_again: "skip_white s (skip_white s p) = skip_white s p"
proof (cases "skip_white s p < length s")
  case True
  have "drop (skip_white s p) s = s ! skip_white s p # drop (Suc (skip_white s p)) s"
    using True by (rule Cons_nth_drop_Suc [symmetric])
  then show ?thesis using skip_white_stop [OF True] by (simp add: skip_white_def [of s "skip_white s p"] is_white_def)
next
  case False
  then show ?thesis by (simp add: skip_white_def [of s "skip_white s p"])
qed

lemma peek_bounds:
  assumes "peek s p toks = (q, mr)" "p \<le> length s"
  shows "p \<le> q" "q \<le> length s"
  using assms skip_white_bounds [of p s] by (auto simp: peek_def Let_def)

lemma peek_gettoken:
  assumes "peek s p toks = (q, mr)" "gettoken s q = (ret, a, b, p')" "p \<le> length s" "nonul s" "mr"
  shows "p < p'" "p' \<le> length s"
proof -
  have q: "q = skip_white s p" "char_at s q \<noteq> CHR 0x00" using assms(1,5) by (auto simp: peek_def Let_def)
  have b: "p \<le> q" "q \<le> length s" using peek_bounds [OF assms(1,3)] by auto
  then have "\<not> length s \<le> skip_white s q" using q assms(4) char_at_nul [of s q] skip_white_again [of s p] by simp
  then have "ret \<noteq> CHR 0x00" using gettoken_bounds(5) [OF assms(2) b(2) assms(4)] by blast
  then show "p < p'" "p' \<le> length s" using gettoken_bounds(2,3) [OF assms(2) b(2) assms(4)] b by auto
qed

subsection \<open>The parser\<close>

definition redir_ok :: "string \<Rightarrow> (nat \<times> nat) \<times> u32 \<times> int \<Rightarrow> bool" where
  "redir_ok s r \<longleftrightarrow> word_ok s (fst r) \<and> snd r \<in> {(O_RDONLY, 0), (O_WRONLY OR O_CREATE, 1)}"

primrec cmd_ok :: "string \<Rightarrow> cmd \<Rightarrow> bool" where
  "cmd_ok s (EXEC ws) \<longleftrightarrow> length ws < MAXARGS \<and> (\<forall>w \<in> set ws. word_ok s w)"
| "cmd_ok s (REDIR c file mode fd) \<longleftrightarrow> cmd_ok s c \<and> redir_ok s (file, mode, fd)"
| "cmd_ok s (PIPE l r) \<longleftrightarrow> cmd_ok s l \<and> cmd_ok s r"
| "cmd_ok s (LIST l r) \<longleftrightarrow> cmd_ok s l \<and> cmd_ok s r"
| "cmd_ok s (BACK c) \<longleftrightarrow> cmd_ok s c"

lemma cmd_ok_redircmds: "cmd_ok s c \<Longrightarrow> \<forall>r \<in> set rs. redir_ok s r \<Longrightarrow> cmd_ok s (redircmds c rs)"
  unfolding redircmds_def by (induction rs arbitrary: c) auto

definition parse_ok :: "('a \<Rightarrow> bool) \<Rightarrow> string \<Rightarrow> nat \<Rightarrow> 'a parsed \<Rightarrow> bool" where
  "parse_ok P s p r \<longleftrightarrow> (case r of Parsed x p' \<Rightarrow> p \<le> p' \<and> p' \<le> length s \<and> P x | Syntax _ \<Rightarrow> True
     | Leftovers _ \<Rightarrow> False | Deep \<Rightarrow> False)"

lemma parse_ok_simps [simp]:
  "parse_ok P s p (Parsed x p') \<longleftrightarrow> p \<le> p' \<and> p' \<le> length s \<and> P x" "parse_ok P s p (Syntax msg)"
  by (simp_all add: parse_ok_def)

lemma parse_ok_from: "parse_ok P s q r \<Longrightarrow> p \<le> q \<Longrightarrow> parse_ok P s p r"
  by (auto simp: parse_ok_def split: parsed.splits)

lemma parse_ok_then:
  assumes "parse_ok P s p r" "\<And>x q. P x \<Longrightarrow> p \<le> q \<Longrightarrow> q \<le> length s \<Longrightarrow> parse_ok Q s p (f x q)"
  shows "parse_ok Q s p (pthen r f)"
  using assms by (cases r) (auto simp: parse_ok_def)

lemma parseredirs_ok:
  "nonul s \<Longrightarrow> p \<le> length s \<Longrightarrow> length s - p < n \<Longrightarrow> parse_ok (\<lambda>rs. \<forall>r \<in> set rs. redir_ok s r) s p (parseredirs n s p)"
proof (induction n arbitrary: p)
  case (Suc n)
  obtain p1 mr where pk: "peek s p ''<>'' = (p1, mr)" by (cases "peek s p ''<>''")
  obtain tok a b p2 where g1: "gettoken s p1 = (tok, a, b, p2)" by (cases "gettoken s p1")
  obtain ret q eq p3 where g2: "gettoken s p2 = (ret, q, eq, p3)" by (cases "gettoken s p2")
  note b1 = peek_bounds [OF pk Suc.prems(2)]
  show ?case
  proof (cases mr)
    case False
    then show ?thesis using b1 by (simp add: pk)
  next
    case True
    have b2: "p < p2" "p2 \<le> length s" using peek_gettoken [OF pk g1 Suc.prems(2,1) True] by auto
    note b3 = gettoken_bounds [OF g2 b2(2) Suc.prems(1)]
    have "parse_ok (\<lambda>rs. \<forall>r \<in> set rs. redir_ok s r) s p3 (parseredirs n s p3)"
      using Suc.prems b2 b3(1,2) by (intro Suc.IH) auto
    moreover have "redir_ok s ((q, eq), redir_mode tok)" if "ret = CHR ''a''"
      using b3(4) [OF that] by (simp add: redir_ok_def redir_mode_def)
    moreover have "p \<le> p3" using b2 b3 by simp
    ultimately show ?thesis
      using True by (auto simp: pk g1 g2 intro!: parse_ok_then intro: parse_ok_from)
  qed
qed simp

lemma parseargs_ok:
  "nonul s \<Longrightarrow> p \<le> length s \<Longrightarrow> length s - p < n \<Longrightarrow> argc < MAXARGS \<Longrightarrow>
   parse_ok (\<lambda>(ws, rs). argc + length ws < MAXARGS \<and> (\<forall>w \<in> set ws. word_ok s w) \<and> (\<forall>r \<in> set rs. redir_ok s r)) s p
     (parseargs n s argc p)"
proof (induction n arbitrary: p argc)
  case (Suc n)
  let ?P = "\<lambda>argc (ws, rs). argc + length ws < MAXARGS \<and> (\<forall>w \<in> set ws. word_ok s w) \<and> (\<forall>r \<in> set rs. redir_ok s r)"
  obtain p1 stop where pk: "peek s p ''|)&;'' = (p1, stop)" by (cases "peek s p ''|)&;''")
  obtain tok q eq p2 where g: "gettoken s p1 = (tok, q, eq, p2)" by (cases "gettoken s p1")
  note b1 = peek_bounds [OF pk Suc.prems(2)]
  note b2 = gettoken_bounds [OF g b1(2) Suc.prems(1)]
  have pp2: "p \<le> p2" using b1 b2(1) by simp
  consider "stop" | "\<not> stop" "tok = CHR 0x00" | "\<not> stop" "tok \<noteq> CHR 0x00" "tok \<noteq> CHR ''a'' \<or> argc + 1 \<ge> MAXARGS"
    | (go) "\<not> stop" "tok = CHR ''a''" "argc + 1 < MAXARGS" by fastforce
  then show ?case
  proof cases
    case go
    have lt: "p < p2" "p2 \<le> length s" using b1 b2(2,3) go by auto
    have "parse_ok (?P argc) s p2 (pthen (parseredirs n s p2) (\<lambda>rs p.
             pthen (parseargs n s (argc + 1) p) (\<lambda>(args, rs') p. Parsed ((q, eq) # args, rs @ rs') p)))"
    proof (rule parse_ok_then)
      show "parse_ok (\<lambda>rs. \<forall>r \<in> set rs. redir_ok s r) s p2 (parseredirs n s p2)"
        using lt Suc.prems by (intro parseredirs_ok) auto
      fix rs p3 assume rs: "\<forall>r \<in> set rs. redir_ok s r" and p3: "p2 \<le> p3" "p3 \<le> length s"
      have "parse_ok (?P (argc + 1)) s p3 (parseargs n s (argc + 1) p3)"
        using Suc.prems lt p3 go by (intro Suc.IH) auto
      then have "parse_ok (?P (argc + 1)) s p2 (parseargs n s (argc + 1) p3)" using p3(1) by (rule parse_ok_from)
      then show "parse_ok (?P argc) s p2 (pthen (parseargs n s (argc + 1) p3) (\<lambda>(args, rs') p. Parsed ((q, eq) # args, rs @ rs') p))"
        by (rule parse_ok_then) (use rs b2(4) go in auto)
    qed
    then show ?thesis using go pp2 by (auto simp: pk g intro: parse_ok_from)
  qed (use Suc.prems b1 b2 pp2 in \<open>auto simp: pk g\<close>)
qed simp

lemma parseback_ok:
  "nonul s \<Longrightarrow> p \<le> length s \<Longrightarrow> length s - p < n \<Longrightarrow> cmd_ok s c \<Longrightarrow> parse_ok (cmd_ok s) s p (parseback n s c p)"
proof (induction n arbitrary: p c)
  case (Suc n)
  obtain p1 mr where pk: "peek s p ''&'' = (p1, mr)" by (cases "peek s p ''&''")
  obtain tok a b p2 where g: "gettoken s p1 = (tok, a, b, p2)" by (cases "gettoken s p1")
  note b1 = peek_bounds [OF pk Suc.prems(2)]
  show ?case
  proof (cases mr)
    case False
    then show ?thesis using b1 Suc.prems by (simp add: pk)
  next
    case True
    have b2: "p < p2" "p2 \<le> length s" using peek_gettoken [OF pk g Suc.prems(2,1) True] by auto
    have "parse_ok (cmd_ok s) s p2 (parseback n s (BACK c) p2)" using Suc.prems b2 by (intro Suc.IH) auto
    then show ?thesis using True b2 by (auto simp: pk g intro: parse_ok_from)
  qed
qed simp


lemma peek_then_ok:
  assumes "nonul s" "p \<le> length s" "\<And>q. p < q \<Longrightarrow> q \<le> length s \<Longrightarrow> parse_ok P s q (f q)"
    and "\<And>q. p \<le> q \<Longrightarrow> q \<le> length s \<Longrightarrow> parse_ok P s q (g q)"
  shows "parse_ok P s p (let (p, mr) = peek s p toks in if mr then let (_, _, _, p) = gettoken s p in f p else g p)"
    "parse_ok P s p (let (p, mr) = peek s p toks in if \<not> mr then g p else let (_, _, _, p) = gettoken s p in f p)"
proof -
  obtain p1 mr where pk: "peek s p toks = (p1, mr)" by (cases "peek s p toks")
  obtain tok a b p2 where g: "gettoken s p1 = (tok, a, b, p2)" by (cases "gettoken s p1")
  note b1 = peek_bounds [OF pk assms(2)]
  note b2 = peek_gettoken [OF pk g assms(2,1)]
  have "mr \<Longrightarrow> parse_ok P s p (f p2)" "\<not> mr \<Longrightarrow> parse_ok P s p (g p1)"
    using parse_ok_from [OF assms(3)] parse_ok_from [OF assms(4)] b1 b2 by auto
  then show "parse_ok P s p (let (p, mr) = peek s p toks in if mr then let (_, _, _, p) = gettoken s p in f p else g p)"
    "parse_ok P s p (let (p, mr) = peek s p toks in if \<not> mr then g p else let (_, _, _, p) = gettoken s p in f p)"
    by (simp_all add: pk g)
qed

lemma peek_if_ok:
  assumes "p \<le> length s" "\<And>q. p \<le> q \<Longrightarrow> q \<le> length s \<Longrightarrow> parse_ok P s q (f q)"
    and "\<And>q. p \<le> q \<Longrightarrow> q \<le> length s \<Longrightarrow> parse_ok P s q (g q)"
  shows "parse_ok P s p (let (p, mr) = peek s p toks in if mr then f p else g p)"
proof -
  obtain p1 mr where pk: "peek s p toks = (p1, mr)" by (cases "peek s p toks")
  show ?thesis using parse_ok_from [OF assms(2)] parse_ok_from [OF assms(3)] peek_bounds [OF pk assms(1)] by (auto simp: pk)
qed

lemma parser_ok:
  assumes s: "nonul s" and "p \<le> length s"
  shows "(4 * (length s - p) + 4 \<le> n \<longrightarrow> parse_ok (cmd_ok s) s p (parseline n s p))
    \<and> (4 * (length s - p) + 3 \<le> n \<longrightarrow> parse_ok (cmd_ok s) s p (parsepipe n s p))
    \<and> (4 * (length s - p) + 2 \<le> n \<longrightarrow> parse_ok (cmd_ok s) s p (parseexec n s p))
    \<and> (4 * (length s - p) + 1 \<le> n \<longrightarrow> parse_ok (cmd_ok s) s p (parseblock n s p))"
  using assms(2)
proof (induction n arbitrary: p)
  case (Suc n)
  have line: "parse_ok (cmd_ok s) s q (parseline n s q)" if "p < q" "q \<le> length s" "4 * (length s - p) + 1 \<le> Suc n" for q
    using Suc.IH [of q] that by simp
  show ?case
  proof (intro conjI impI)
    assume n: "4 * (length s - p) + 4 \<le> Suc n"
    have "parse_ok (cmd_ok s) s p (parsepipe n s p)" using Suc n by simp
    moreover have "parse_ok (cmd_ok s) s q (parseback n s c q)" if "cmd_ok s c" "p \<le> q" "q \<le> length s" for c q
      using that n s by (intro parseback_ok) simp_all
    moreover have "parse_ok (cmd_ok s) s q (let (p, mr) = peek s q '';'' in if mr then let (_, _, _, p) = gettoken s p in
         pthen (parseline n s p) (\<lambda>r p. Parsed (LIST c r) p) else Parsed c p)"
      if "cmd_ok s c" "p \<le> q" "q \<le> length s" for c q
      using that n s by (intro peek_then_ok(1) parse_ok_then [OF line]) simp_all
    ultimately show "parse_ok (cmd_ok s) s p (parseline (Suc n) s p)"
      unfolding parseline.simps by (blast intro: parse_ok_then parse_ok_from)
  next
    assume n: "4 * (length s - p) + 3 \<le> Suc n"
    have "parse_ok (cmd_ok s) s p (parseexec n s p)" using Suc n by simp
    moreover have "parse_ok (cmd_ok s) s q (parsepipe n s q)" if "p < q" "q \<le> length s" for q
      using Suc.IH [of q] that n by simp
    then have "parse_ok (cmd_ok s) s q (let (p, mr) = peek s q ''|'' in if mr then let (_, _, _, p) = gettoken s p in
         pthen (parsepipe n s p) (\<lambda>r p. Parsed (PIPE c r) p) else Parsed c p)"
      if "cmd_ok s c" "p \<le> q" "q \<le> length s" for c q
      using that s by (intro peek_then_ok(1) parse_ok_then [where P = "cmd_ok s"]) simp_all
    ultimately show "parse_ok (cmd_ok s) s p (parsepipe (Suc n) s p)"
      unfolding parsepipe.simps by (blast intro: parse_ok_then parse_ok_from)
  next
    assume n: "4 * (length s - p) + 2 \<le> Suc n"
    show "parse_ok (cmd_ok s) s p (parseexec (Suc n) s p)"
      unfolding parseexec.simps
    proof (rule peek_if_ok [OF Suc.prems])
      fix q assume q: "p \<le> q" "q \<le> length s"
      show "parse_ok (cmd_ok s) s q (parseblock n s q)" using Suc.IH [of q] q n by simp
      have "parse_ok (\<lambda>rs. \<forall>r \<in> set rs. redir_ok s r) s q (parseredirs n s q)" using q n s by (intro parseredirs_ok) simp_all
      then show "parse_ok (cmd_ok s) s q (pthen (parseredirs n s q) (\<lambda>rs p.
           pthen (parseargs n s 0 p) (\<lambda>(args, rs') p. Parsed (redircmds (EXEC args) (rs @ rs')) p)))"
      proof (rule parse_ok_then)
        fix rs q' assume rs: "\<forall>r \<in> set rs. redir_ok s r" and q': "q \<le> q'" "q' \<le> length s"
        have "parse_ok (\<lambda>(ws, rs). 0 + length ws < MAXARGS \<and> (\<forall>w \<in> set ws. word_ok s w) \<and> (\<forall>r \<in> set rs. redir_ok s r)) s q
            (parseargs n s 0 q')"
          using q q' n s by (intro parse_ok_from [OF parseargs_ok]) (simp_all add: MAXARGS_def)
        then show "parse_ok (cmd_ok s) s q (pthen (parseargs n s 0 q') (\<lambda>(args, rs') p. Parsed (redircmds (EXEC args) (rs @ rs')) p))"
          by (rule parse_ok_then) (use rs in \<open>auto intro!: cmd_ok_redircmds\<close>)
      qed
    qed
  next
    assume n: "4 * (length s - p) + 1 \<le> Suc n"
    have redirs: "parse_ok (cmd_ok s) s q (pthen (parseredirs n s q) (\<lambda>rs p. Parsed (redircmds c rs) p))"
      if "cmd_ok s c" "p < q" "q \<le> length s" for c q
      using that n s by (intro parse_ok_then [OF parseredirs_ok]) (simp_all add: cmd_ok_redircmds)
    have close: "parse_ok (cmd_ok s) s q (let (p, close) = peek s q '')'' in
        if \<not> close then Syntax ''syntax - missing )''
        else let (_, _, _, p) = gettoken s p in
          pthen (parseredirs n s p) (\<lambda>rs p. Parsed (redircmds c rs) p))"
      if "cmd_ok s c" "p < q" "q \<le> length s" for c q
      using that s by (intro peek_then_ok(2) redirs) simp_all
    have "parse_ok (cmd_ok s) s q (pthen (parseline n s q) (\<lambda>c p. let (p, close) = peek s p '')'' in
        if \<not> close then Syntax ''syntax - missing )''
        else let (_, _, _, p) = gettoken s p in
          pthen (parseredirs n s p) (\<lambda>rs p. Parsed (redircmds c rs) p)))" if "p < q" "q \<le> length s" for q
      by (rule parse_ok_then [OF line [OF that n]], rule parse_ok_from [OF close]) (use that in simp_all)
    then show "parse_ok (cmd_ok s) s p (parseblock (Suc n) s p)"
      unfolding parseblock.simps using s Suc.prems by (intro peek_then_ok(2)) simp_all
  qed
qed simp

text \<open>
  C31: the parser ends. On every command line the recursion of the parser stays within the
  bound \<open>parse_depth\<close>, four calls for each character, so \<open>parsecmd\<close> answers a command or reports a
  syntax error.
\<close>

theorem parsecmd_ends:
  assumes "CHR 0x00 \<notin> set s"
  shows "parsecmd s \<noteq> Deep"
proof -
  have "parse_ok (cmd_ok s) s 0 (parseline (parse_depth s) s 0)"
    using parser_ok [OF assms, of 0 "parse_depth s"] by (simp add: parse_depth_def)
  then show ?thesis
    by (auto simp: parsecmd_def parse_ok_def Let_def split: parsed.splits prod.splits)
qed

theorem parsecmd_ends_witness: "CHR 0x00 \<notin> set ''a | ((b > c) &'' \<and> parsecmd ''a | ((b > c) &'' \<noteq> Deep"
  using parsecmd_ends [of "''a | ((b > c) &''"] by simp

text \<open>
  C32: the parser's trees are well formed: a command has fewer than \<open>MAXARGS\<close> words, so the null
  pointer that ends \<open>argv\<close> fits; every word and file name is a non-empty stretch of word characters
  of the line that ends where no word character follows; and a redirection is of standard input
  for reading or of standard output for writing and creating.
\<close>

theorem parsecmd_well_formed:
  assumes "CHR 0x00 \<notin> set s" "parsecmd s = Parsed c p"
  shows "cmd_ok s c"
proof -
  have "parse_ok (cmd_ok s) s 0 (parseline (parse_depth s) s 0)"
    using parser_ok [OF assms(1), of 0 "parse_depth s"] by (simp add: parse_depth_def)
  then show ?thesis
    using assms(2) by (auto simp: parsecmd_def parse_ok_def Let_def split: parsed.splits prod.splits if_splits)
qed


theorem parsecmd_well_formed_witness:
  "\<exists>c p. parsecmd ''ls > f'' = Parsed c p \<and> cmd_ok ''ls > f'' c"
proof -
  have "parsecmd ''ls > f'' = Parsed (REDIR (EXEC [(0, 2)]) (5, 6) (O_WRONLY OR O_CREATE) 1) 6" by code_simp
  then show ?thesis using parsecmd_well_formed [of "''ls > f''"] by auto
qed

subsection \<open>Ending the words\<close>

primrec cmd_words :: "cmd \<Rightarrow> (nat \<times> nat) list" where
  "cmd_words (EXEC ws) = ws"
| "cmd_words (REDIR c file mode fd) = cmd_words c @ [file]"
| "cmd_words (PIPE l r) = cmd_words l @ cmd_words r"
| "cmd_words (LIST l r) = cmd_words l @ cmd_words r"
| "cmd_words (BACK c) = cmd_words c"

definition end_words :: "(nat \<times> nat) list \<Rightarrow> string \<Rightarrow> string" where
  "end_words ws b = foldl (\<lambda>b w. b[snd w := CHR 0x00]) b ws"

lemma nulterminate_words: "nulterminate c b = end_words (cmd_words c) b"
  by (induction c arbitrary: b) (simp_all add: end_words_def split_def)

lemma cmd_ok_words: "cmd_ok s c \<Longrightarrow> w \<in> set (cmd_words c) \<Longrightarrow> word_ok s w"
  by (induction c) (auto simp: redir_ok_def)

lemma length_end_words [simp]: "length (end_words ws b) = length b"
  unfolding end_words_def by (induction ws arbitrary: b) simp_all

lemma nth_end_words:
  "i < length b \<Longrightarrow> end_words ws b ! i = (if i \<in> snd ` set ws then CHR 0x00 else b ! i)"
  unfolding end_words_def by (induction ws arbitrary: b) (auto simp: nth_list_update)

text \<open>The end of a word of the line is not inside another word.\<close>

lemma word_ends_outside:
  assumes "word_ok s w" "word_ok s v" "fst w \<le> snd v" "snd v < snd w"
  shows False
proof -
  have "is_word (s ! snd v)" "snd v < length s" using assms by (auto simp: word_ok_def)
  then show False using assms(2) by (simp add: word_ok_def)
qed

lemma cstring_at_word:
  assumes s: "nonul s" and ws: "\<forall>v \<in> set ws. word_ok s v" and w: "w \<in> set ws"
  shows "cstring_at (end_words ws (s @ [CHR 0x00])) (fst w) = take (snd w - fst w) (drop (fst w) s)"
proof -
  let ?b = "end_words ws (s @ [CHR 0x00])"
  let ?t = "take (snd w - fst w) (drop (fst w) s)"
  have ok: "fst w < snd w" "snd w \<le> length s" using ws w by (auto simp: word_ok_def)
  have "?b ! i = s ! i" if "fst w \<le> i" "i < snd w" for i
    using that ok word_ends_outside [of s w] ws w by (auto simp: nth_end_words nth_append)
  then have "take (snd w - fst w) (drop (fst w) ?b) = ?t"
    using ok by (intro nth_equalityI) auto
  moreover have "drop (snd w) ?b = CHR 0x00 # drop (Suc (snd w)) ?b"
  proof -
    have "?b ! snd w = CHR 0x00" using ok w by (auto simp: nth_end_words)
    moreover have "snd w < length ?b" using ok by simp
    ultimately show ?thesis using Cons_nth_drop_Suc [of "snd w" ?b] by simp
  qed
  ultimately have "drop (fst w) ?b = ?t @ CHR 0x00 # drop (Suc (snd w)) ?b"
    using ok append_take_drop_id [of "snd w - fst w" "drop (fst w) ?b"] by simp
  moreover have "\<forall>c \<in> set ?t. c \<noteq> CHR 0x00" using s by (auto dest!: in_set_takeD in_set_dropD)
  ultimately show ?thesis unfolding cstring_at_def by (simp add: takeWhile_append2)
qed

text \<open>
  C30: \<open>nulterminate\<close> ends every word and no other: after it, the string that starts where a word of
  the command starts is exactly that word, also when words and symbols touch each other.
\<close>

theorem nulterminate_correct:
  assumes "CHR 0x00 \<notin> set s" "parsecmd s = Parsed c p" "w \<in> set (cmd_words c)"
  shows "cstring_at (nulterminate c (s @ [CHR 0x00])) (fst w) = take (snd w - fst w) (drop (fst w) s)"
proof -
  have "parse_ok (cmd_ok s) s 0 (parseline (parse_depth s) s 0)"
    using parser_ok [OF assms(1), of 0 "parse_depth s"] by (simp add: parse_depth_def)
  then have "cmd_ok s c"
    using assms(2) by (auto simp: parsecmd_def parse_ok_def Let_def split: parsed.splits prod.splits if_splits)
  then show ?thesis
    using assms(1,3) cmd_ok_words unfolding nulterminate_words by (intro cstring_at_word) auto
qed

theorem nulterminate_correct_witness:
  "\<exists>c p. parsecmd ''a|b'' = Parsed c p \<and> (2, 3) \<in> set (cmd_words c)
     \<and> cstring_at (nulterminate c (''a|b'' @ [CHR 0x00])) 2 = ''b''"
proof -
  have "parsecmd ''a|b'' = Parsed (PIPE (EXEC [(0, 1)]) (EXEC [(2, 3)])) 3" by code_simp
  then show ?thesis using nulterminate_correct [of "''a|b''" _ 3 "(2, 3)"] by auto
qed

subsection \<open>Running commands\<close>

declare printf.simps [simp del]

lemma uexit_no_Ret [simp]: "uexit s \<noteq> Ret x t"
  by (simp add: uexit_def kseq_def kbind_def syscall_answer_def)

lemma sh_panic_no_Ret [simp]: "sh_panic msg s \<noteq> Ret x t"
  by (auto simp: sh_panic_def kseq_eq_Ret)

text \<open>
  C36: \<open>runcmd\<close> never returns, whatever the kernel answers to its system calls: a process that runs
  a command does not fall back into the loop that reads commands.
\<close>

theorem runcmd_never_returns: "runcmd b c s \<noteq> Ret () t"
proof (induction c arbitrary: s t)
  case (EXEC ws)
  then show ?case by (cases ws) (auto simp: kseq_eq_Ret)
next
  case (REDIR c f mode fd)
  then show ?case by (auto simp: kseq_eq_Ret kbind_eq_Ret split: if_splits)
next
  case (PIPE l r)
  then show ?case 
    by (auto simp: kseq_eq_Ret kbind_eq_Ret kwhen_eq_Ret split: if_splits list.splits)
next
  case (LIST l r)
  then show ?case by (auto simp: kseq_eq_Ret kbind_eq_Ret kwhen_eq_Ret split: if_splits)
next
  case (BACK c)
  then show ?case by (auto simp: kseq_eq_Ret kbind_eq_Ret kwhen_eq_Ret split: if_splits)
qed

end
