(* ===== verification/Mp.thy ===== *)
theory Mp
  imports Bytes Layout
begin

unbundle bit_operations_syntax

section \<open>mp.c: the multiprocessor tables\<close>

text \<open>
  The search for the multiprocessor tables in \<^verbatim>\<open>src/mp.c\<close> and the walk over their entries, on a
  byte-addressed memory. The walk does not move on at an entry of an unknown type, so it is a
  partial function: \<open>None\<close> is a walk that never ends, and its result has a case of its own for
  an access outside of \<open>cpus\<close>.
\<close>

definition MP_SIZE :: nat where "MP_SIZE = 16"
definition MPCONF_SIZE :: u32 where "MPCONF_SIZE = 44"
definition MPPROC_SIZE :: u32 where "MPPROC_SIZE = 20"
definition MPIOAPIC_SIZE :: u32 where "MPIOAPIC_SIZE = 8"
definition MPBOOT :: u8 where "MPBOOT = 0x02"

primrec sum_bytes :: "memory \<Rightarrow> u32 \<Rightarrow> nat \<Rightarrow> u8" where
  "sum_bytes m addr 0 = 0"
| "sum_bytes m addr (Suc n) = m addr + sum_bytes m (addr + 1) n"

definition has_signature :: "memory \<Rightarrow> u32 \<Rightarrow> string \<Rightarrow> bool" where
  "has_signature m p sg \<longleftrightarrow> (\<forall>i < length sg. m (p + of_nat i) = of_char (sg ! i))"

definition mp_here :: "memory \<Rightarrow> u32 \<Rightarrow> bool" where
  "mp_here m p \<longleftrightarrow> has_signature m p ''_MP_'' \<and> sum_bytes m p MP_SIZE = 0"

text \<open>The loop of \<open>mpsearch1\<close>; the number counts the structures that still fit.\<close>

primrec mpsearch_from :: "memory \<Rightarrow> u32 \<Rightarrow> nat \<Rightarrow> u32 option" where
  "mpsearch_from m p 0 = None"
| "mpsearch_from m p (Suc n) =
     (if mp_here m p then Some p else mpsearch_from m (p + of_nat MP_SIZE) n)"

definition mpsearch1 :: "memory \<Rightarrow> u32 \<Rightarrow> nat \<Rightarrow> u32 option" where
  "mpsearch1 m a len = mpsearch_from m (a + KERNBASE) ((len + MP_SIZE - 1) div MP_SIZE)"

definition mpsearch :: "memory \<Rightarrow> u32 option" where
  "mpsearch m =
     (let bda = KERNBASE + 0x400;
          p = push_bit 4 (push_bit 8 (ucast (m (bda + 0x0F))) OR ucast (m (bda + 0x0E))) :: u32;
          q = (push_bit 8 (ucast (m (bda + 0x14))) OR ucast (m (bda + 0x13))) * 1024 :: u32;
          first = (if p \<noteq> 0 then mpsearch1 m p 1024 else mpsearch1 m (q - 1024) 1024)
      in case first of Some mp \<Rightarrow> Some mp | None \<Rightarrow> mpsearch1 m 0xF0000 0x10000)"

text \<open>\<open>mpconfig\<close>: the floating pointer structure and the configuration table.\<close>

definition mpconfig :: "memory \<Rightarrow> (u32 \<times> u32) option" where
  "mpconfig m = (case mpsearch m of
       None \<Rightarrow> None
     | Some mp \<Rightarrow>
         (let physaddr = ld32 m (mp + 4); conf = physaddr + KERNBASE in
          if physaddr = 0 then None
          else if \<not> has_signature m conf ''PCMP'' then None
          else if m (conf + 6) \<noteq> 1 \<and> m (conf + 6) \<noteq> 4 then None
          else if sum_bytes m conf (unat (le16 (m (conf + 4)) (m (conf + 5)))) \<noteq> 0 then None
          else Some (mp, conf)))"

record mp_st =
  bcpu :: nat
  ismp :: bool
  ncpu :: nat
  ioapicid :: u8
  cpu_ids :: "nat list"
  lapic :: u32

datatype mp_result = MpDone mp_st | MpOutside

text \<open>The entry at \<open>p\<close>: its size and what it does to the state.\<close>

definition mp_proc :: "memory \<Rightarrow> u32 \<Rightarrow> mp_st \<Rightarrow> mp_st" where
  "mp_proc m p st = (let n = ncpu st in
     st\<lparr>ismp := (ismp st \<and> n = unat (m (p + 1))),
        bcpu := (if m (p + 3) AND MPBOOT \<noteq> 0 then n else bcpu st),
        cpu_ids := (cpu_ids st)[n := n], ncpu := n + 1\<rparr>)"

partial_function (option) mp_walk :: "memory \<Rightarrow> u32 \<Rightarrow> u32 \<Rightarrow> mp_st \<Rightarrow> mp_result option" where
  "mp_walk m e p st =
     (if \<not> p < e then Some (MpDone st)
      else if m p = 0 then
        (if ncpu st \<ge> NCPU then Some MpOutside else mp_walk m e (p + MPPROC_SIZE) (mp_proc m p st))
      else if m p = 2 then mp_walk m e (p + MPIOAPIC_SIZE) (st\<lparr>ioapicid := m (p + 1)\<rparr>)
      else if m p = 1 \<or> m p = 3 \<or> m p = 4 then mp_walk m e (p + 8) st
      else mp_walk m e p (st\<lparr>ismp := False\<rparr>))"

definition mpinit :: "memory \<Rightarrow> mp_st \<Rightarrow> mp_result option" where
  "mpinit m st = (let st = st\<lparr>bcpu := 0\<rparr> in case mpconfig m of
       None \<Rightarrow> Some (MpDone st)
     | Some (mp, conf) \<Rightarrow>
         (case mp_walk m (conf + ucast (le16 (m (conf + 4)) (m (conf + 5)))) (conf + MPCONF_SIZE)
                 (st\<lparr>ismp := True, lapic := ld32 m (conf + 36)\<rparr>) of
            None \<Rightarrow> None
          | Some MpOutside \<Rightarrow> Some MpOutside
          | Some (MpDone t) \<Rightarrow>
              Some (MpDone (if ismp t then t else t\<lparr>ncpu := 1, lapic := 0, ioapicid := 0\<rparr>))))"

subsection \<open>The search\<close>

lemma mpsearch_from_first:
  "mpsearch_from m p n = Some q \<longleftrightarrow>
     (\<exists>k < n. q = p + of_nat (k * MP_SIZE) \<and> mp_here m q \<and> (\<forall>j < k. \<not> mp_here m (p + of_nat (j * MP_SIZE))))"
proof (induction n arbitrary: p)
  case (Suc n)
  have step: "p + of_nat MP_SIZE + of_nat (k * MP_SIZE) = p + of_nat (Suc k * MP_SIZE)" for k
    by (simp add: algebra_simps)
  have ex: "(\<exists>k < Suc n. P k) \<longleftrightarrow> P 0 \<or> (\<exists>k < n. P (Suc k))" for P by (auto simp: less_Suc_eq_0_disj)
  have all: "(\<forall>j < Suc k. Q j) \<longleftrightarrow> Q 0 \<and> (\<forall>j < k. Q (Suc j))" for k Q by (auto simp: less_Suc_eq_0_disj)
  show ?case
    unfolding ex all mpsearch_from.simps using Suc.IH [of "p + of_nat MP_SIZE"]
    by (cases "mp_here m p") (simp_all only: step if_True if_False, auto)
qed simp

text \<open>
  \<open>mpsearch1\<close> answers the first of the 16-byte structures in its range that has the signature
  and whose bytes add up to 0, and nothing exactly when there is none.
\<close>

lemma mpsearch1_first:
  assumes "len mod MP_SIZE = 0"
  shows "mpsearch1 m a len = Some q \<longleftrightarrow>
     (\<exists>k. k * MP_SIZE < len \<and> q = a + KERNBASE + of_nat (k * MP_SIZE) \<and> has_signature m q ''_MP_''
        \<and> sum_bytes m q MP_SIZE = 0
        \<and> (\<forall>j < k. \<not> (has_signature m (a + KERNBASE + of_nat (j * MP_SIZE)) ''_MP_''
             \<and> sum_bytes m (a + KERNBASE + of_nat (j * MP_SIZE)) MP_SIZE = 0)))"
proof -
  have n: "len = (len div MP_SIZE) * MP_SIZE" (is "_ = ?n * _") using assms by (simp add: mod_0_imp_dvd)
  then have "(len + MP_SIZE - 1) div MP_SIZE = ?n" by (simp add: MP_SIZE_def)
  moreover have "k < ?n \<longleftrightarrow> k * MP_SIZE < len" for k
  proof -
    have "k < ?n \<longleftrightarrow> k * MP_SIZE < ?n * MP_SIZE" by (simp add: MP_SIZE_def)
    then show ?thesis by (simp only: n [symmetric])
  qed
  ultimately show ?thesis unfolding mpsearch1_def by (simp add: mpsearch_from_first mp_here_def)
qed

definition mp_sample :: memory where
  "mp_sample = (\<lambda>_. 0)(0x800F0010 := 0x5f, 0x800F0011 := 0x4d, 0x800F0012 := 0x50, 0x800F0013 := 0x5f, 0x800F001A := 0xa5)"

lemma mpsearch1_first_witness: "mpsearch1 mp_sample 0xF0000 0x10000 = Some 0x800F0010"
proof -
  have l: "length ''_MP_'' = 4" by simp
  have four: "(\<forall>i < 4. P i) \<longleftrightarrow> P 0 \<and> P 1 \<and> P 2 \<and> P (3 :: nat)" for P
    by (auto simp: numeral_eq_Suc less_Suc_eq)
  have "has_signature mp_sample 0x800F0010 ''_MP_''"
    unfolding has_signature_def l four by (simp add: mp_sample_def of_char_def)
  moreover have "sum_bytes mp_sample 0x800F0010 16 = 0" by code_simp
  moreover have "\<not> has_signature mp_sample 0x800F0000 ''_MP_''"
    unfolding has_signature_def l four by (simp add: mp_sample_def of_char_def)
  ultimately have "\<exists>k. k * MP_SIZE < 0x10000 \<and> 0x800F0010 = 0xF0000 + KERNBASE + of_nat (k * MP_SIZE)
        \<and> has_signature mp_sample 0x800F0010 ''_MP_'' \<and> sum_bytes mp_sample 0x800F0010 MP_SIZE = 0
        \<and> (\<forall>j < k. \<not> (has_signature mp_sample (0xF0000 + KERNBASE + of_nat (j * MP_SIZE)) ''_MP_''
             \<and> sum_bytes mp_sample (0xF0000 + KERNBASE + of_nat (j * MP_SIZE)) MP_SIZE = 0))"
    by (intro exI [of _ 1]) (simp add: MP_SIZE_def KERNBASE_def)
  then show ?thesis by (subst mpsearch1_first) (simp_all add: MP_SIZE_def)
qed

subsection \<open>Unknown entries\<close>

text \<open>
  \<open>mpinit\<close> hangs on a table it does not know. When the entry at the current position is of none
  of the five known types, the walk over the table never ends, although the code after the
  loop means to fall back to one processor.
\<close>

lemma mp_walk_unknown:
  assumes "p < e" "m p > 4"
  shows "mp_walk m e p st = None"
proof -
  have "\<not> (p < e \<and> m p > 4)" if "mp_walk m e p st = Some r" for r
    by (rule mp_walk.raw_induct [where P = "\<lambda>m e p st r. \<not> (p < e \<and> m p > 4)", OF _ that]) (fastforce split: if_split_asm)
  then show ?thesis using assms by (cases "mp_walk m e p st") auto
qed

lemma mp_walk_unknown_witness:
  "mp_walk (\<lambda>_. 9) 200 100 \<lparr>bcpu = 0, ismp = True, ncpu = 0, ioapicid = 0, cpu_ids = replicate NCPU 0, lapic = 0\<rparr> = None"
  by (rule mp_walk_unknown) simp_all

end
