(* ===== verification/Mkfs.thy ===== *)
theory Mkfs
  imports Dir_Spec
begin

unbundle bit_operations_syntax

section \<open>mkfs.c: the initial disk image\<close>

text \<open>
  The host program \<^verbatim>\<open>src/mkfs.c\<close>, which writes the disk image the kernel starts from. The image file
  is a function of the sector number and a length in sectors; reading past its end is the error
  exit of \<open>rsect\<close>, and other host I/O on the image succeeds. \<open>exit(1)\<close> is \<open>Switch\<close>, a failed \<open>assert\<close> is
  \<open>Panic\<close>. The host is little-endian, so that a \<open>uint\<close> in a buffer has the bytes \<open>xint\<close> gives it.
\<close>

record mk_st =
  m_img :: "u32 \<Rightarrow> block"
  m_len :: nat
  m_freeblock :: u32
  m_usedblocks :: u32
  m_freeinode :: u32

definition mk_nblocks :: nat where "mk_nblocks = 25000"
definition mk_ninodes :: nat where "mk_ninodes = 200"
definition mk_size :: nat where "mk_size = 25045"

definition mk_exit :: "('s, 'a) kern" where "mk_exit = (\<lambda>s. Switch s)"

definition mk_assert :: "bool \<Rightarrow> ('s, unit) kern" where
  "mk_assert c = (if c then kret () else panic ''assert'')"

definition xshort :: "u16 \<Rightarrow> u16" where
  "xshort x = le16 (byte_of16 x 0) (byte_of16 x 1)"

definition xint :: "u32 \<Rightarrow> u32" where
  "xint x = le32 (byte_of32 x 0) (byte_of32 x 1) (byte_of32 x 2) (byte_of32 x 3)"

subsection \<open>Sectors and inodes\<close>

definition wsect :: "u32 \<Rightarrow> block \<Rightarrow> (mk_st, unit) kern" where
  "wsect sec buf = kmod (\<lambda>s. s\<lparr>m_img := (m_img s)(sec := buf), m_len := max (m_len s) (unat sec + 1)\<rparr>)"

definition rsect :: "u32 \<Rightarrow> (mk_st, block) kern" where
  "rsect sec = kbind (kget m_len) (\<lambda>n. if n \<le> unat sec then mk_exit else kget (\<lambda>s. m_img s sec))"

definition i2b :: "u32 \<Rightarrow> u32" where
  "i2b inum = inum div of_nat IPB + 2"

text \<open>\<open>*dip = *ip\<close> on the bytes of the buffer.\<close>

definition put_dinode :: "block \<Rightarrow> nat \<Rightarrow> dinode \<Rightarrow> block" where
  "put_dinode d k ip = write_addrs (wr32 (wr16 (wr16 (wr16 (wr16 d k (di_type ip)) (k + 2) (di_major ip))
     (k + 4) (di_minor ip)) (k + 6) (di_nlink ip)) (k + 8) (di_size ip)) (k + 12) (di_addrs ip)"

definition winode :: "u32 \<Rightarrow> dinode \<Rightarrow> (mk_st, unit) kern" where
  "winode inum ip = (let bn = i2b inum in
     kbind (rsect bn) (\<lambda>buf. wsect bn (put_dinode buf (dinode_off inum) ip)))"

definition rinode :: "u32 \<Rightarrow> (mk_st, dinode) kern" where
  "rinode inum = kbind (rsect (i2b inum)) (\<lambda>buf. kret (read_dinode buf (dinode_off inum)))"

definition mk_ialloc :: "u16 \<Rightarrow> (mk_st, u32) kern" where
  "mk_ialloc type = kbind (kget m_freeinode) (\<lambda>inum.
     kseq (kmod (\<lambda>s. s\<lparr>m_freeinode := inum + 1\<rparr>))
    (kseq (winode inum \<lparr>di_type = xshort type, di_major = 0, di_minor = 0, di_nlink = xshort 1, di_size = xint 0,
        di_addrs = replicate NADDRS 0\<rparr>)
     (kret inum)))"

definition mk_balloc :: "nat \<Rightarrow> (mk_st, unit) kern" where
  "mk_balloc used = kseq (mk_assert (used < 512 * 8))
     (wsect (of_nat (mk_ninodes div IPB + 3)) (foldl bm_set zero_block [0..<used]))"

subsection \<open>Files\<close>

text \<open>\<open>freeblock++\<close> and \<open>usedblocks++\<close>.\<close>

definition next_block :: "(mk_st, u32) kern" where
  "next_block = kbind (kget m_freeblock) (\<lambda>b.
     kseq (kmod (\<lambda>s. s\<lparr>m_freeblock := b + 1, m_usedblocks := m_usedblocks s + 1\<rparr>)) (kret b))"

text \<open>
  The sector of block \<open>fbn\<close> of the file, allocated when there is none. The array \<open>indirect\<close> has
  \<open>NINDIRECT\<close> entries, but \<open>rsect\<close> fills only the first 512 bytes of it: an entry behind them was
  never set.
\<close>

definition iappend_indirect :: "dinode \<Rightarrow> nat \<Rightarrow> (mk_st, u32 \<times> dinode) kern" where
  "iappend_indirect din k =
     kbind (if xint (di_addrs din ! NDIRECT) = 0
            then kbind next_block (\<lambda>b. kret (din\<lparr>di_addrs := (di_addrs din)[NDIRECT := xint b]\<rparr>))
            else kret din) (\<lambda>din.
     kbind (rsect (xint (di_addrs din ! NDIRECT))) (\<lambda>indirect.
     if PTRS_PER_BLOCK \<le> k then fault ''indirect: not set''
     else kbind (if blk_ptr indirect k = 0
            then kbind next_block (\<lambda>b. let indirect = set_blk_ptr indirect k (xint b) in
               kseq (wsect (xint (di_addrs din ! NDIRECT)) indirect) (kret indirect))
            else kret indirect) (\<lambda>indirect.
       kret (xint (blk_ptr indirect k), din))))"

definition iappend_block :: "dinode \<Rightarrow> nat \<Rightarrow> (mk_st, u32 \<times> dinode) kern" where
  "iappend_block din fbn =
     (if fbn < NDIRECT then
        kbind (if xint (di_addrs din ! fbn) = 0
               then kbind next_block (\<lambda>b. kret (din\<lparr>di_addrs := (di_addrs din)[fbn := xint b]\<rparr>))
               else kret din) (\<lambda>din. kret (xint (di_addrs din ! fbn), din))
      else iappend_indirect din (fbn - NDIRECT))"

lemma rest_of_block_eq: "(off div 512 + 1) * 512 - off = 512 - off mod 512" for off :: nat
proof -
  have "a + r = off \<Longrightarrow> a + 512 - off = 512 - r" for a r by arith
  from this [OF div_mult_mod_eq] show ?thesis by (simp only: add_mult_distrib mult_1)
qed

lemma rest_of_block: "0 < (off div 512 + 1) * 512 - (off :: nat)"
  unfolding rest_of_block_eq by simp

function iappend_loop :: "nat \<Rightarrow> dinode \<Rightarrow> u8 list \<Rightarrow> (mk_st, nat \<times> dinode) kern" where
  "iappend_loop off din p =
     (if p = [] then kret (off, din)
      else let fbn = off div 512; n1 = min (length p) ((fbn + 1) * 512 - off) in
        kseq (mk_assert (fbn < MAXFILE))
       (kbind (iappend_block din fbn) (\<lambda>(x, din).
        kbind (rsect x) (\<lambda>buf.
        kseq (wsect x (blk_write buf (off - fbn * 512) (take n1 p)))
         (iappend_loop (off + n1) din (drop n1 p))))))"
  by pat_completeness auto
termination
  by (relation "measure (\<lambda>(off, din, p). length p)") (use rest_of_block in \<open>simp_all del: add_is_0\<close>)

declare iappend_loop.simps [simp del]

definition iappend :: "u32 \<Rightarrow> u8 list \<Rightarrow> (mk_st, unit) kern" where
  "iappend inum p = kbind (rinode inum) (\<lambda>din.
     kbind (iappend_loop (unat (xint (di_size din))) din p) (\<lambda>(off, din).
     winode inum (din\<lparr>di_size := xint (of_nat off)\<rparr>)))"

subsection \<open>The main program\<close>

definition mk_dirent :: "u32 \<Rightarrow> u8 list \<Rightarrow> u8 list" where
  "mk_dirent inum name = dirent_bytes \<lparr>de_inum = xshort (ucast inum), de_name = strncpy_name name\<rparr>"

text \<open>The superblock and the empty image. Before, \<open>main\<close> computes \<open>bitblocks\<close>, \<open>usedblocks\<close> and \<open>freeblock\<close>.\<close>

definition mk_format :: "(mk_st, unit) kern" where
  "mk_format =
     (let bitblocks = mk_size div (512 * 8) + 1; used = mk_ninodes div IPB + 3 + bitblocks in
      kseq (kmod (\<lambda>s. s\<lparr>m_usedblocks := of_nat used, m_freeblock := of_nat used\<rparr>))
     (kseq (mk_assert (mk_nblocks + used + LOGSIZE = mk_size))
     (kseq (kfor [0..<mk_nblocks + used + LOGSIZE] (\<lambda>i. wsect (of_nat i) zero_block))
      (wsect 1 (wr32 (wr32 (wr32 (wr32 zero_block 0 (xint (of_nat mk_size))) 4 (xint (of_nat mk_nblocks)))
         8 (xint (of_nat mk_ninodes))) 12 (xint (of_nat LOGSIZE)))))))"

definition mk_root :: "(mk_st, u32) kern" where
  "mk_root = kbind (mk_ialloc T_DIR) (\<lambda>rootino.
     kseq (mk_assert (rootino = ROOTINO))
    (kseq (iappend rootino (mk_dirent rootino [46]))
    (kseq (iappend rootino (mk_dirent rootino [46, 46])) (kret rootino))))"

text \<open>A file of the argument list: its name, and the pieces \<open>read\<close> answers, or nothing if \<open>open\<close> fails.\<close>

definition mk_file :: "u32 \<Rightarrow> u8 list \<times> u8 list list option \<Rightarrow> (mk_st, unit) kern" where
  "mk_file rootino arg = (case arg of (name, data) \<Rightarrow>
     kseq (mk_assert (slash \<notin> set name))
     (case data of
        None \<Rightarrow> mk_exit
      | Some chunks \<Rightarrow>
          let name = (case name of c # cs \<Rightarrow> if c = 95 then cs else name | [] \<Rightarrow> []) in
          kbind (mk_ialloc T_FILE) (\<lambda>inum.
          kseq (iappend rootino (mk_dirent inum name)) (kfor chunks (iappend inum)))))"

definition mk_fix_root :: "u32 \<Rightarrow> (mk_st, unit) kern" where
  "mk_fix_root rootino = kbind (rinode rootino) (\<lambda>din.
     let off = xint (di_size din); off = (off div of_nat BSIZE + 1) * of_nat BSIZE in
     winode rootino (din\<lparr>di_size := xint off\<rparr>))"

text \<open>
  \<open>main\<close>: \<open>img\<close> is \<open>None\<close> without arguments, otherwise whether the image file could be opened, which
  empties it. A return of the model is \<open>exit(0)\<close>.
\<close>

definition mkfs_main :: "bool option \<Rightarrow> (u8 list \<times> u8 list list option) list \<Rightarrow> (mk_st, unit) kern" where
  "mkfs_main img args = (case img of
     None \<Rightarrow> mk_exit
   | Some opened \<Rightarrow>
       if \<not> opened then mk_exit
       else kseq (kmod (\<lambda>s. s\<lparr>m_img := \<lambda>_. zero_block, m_len := 0\<rparr>))
           (kseq mk_format
           (kbind mk_root (\<lambda>rootino.
            kseq (kfor args (mk_file rootino))
           (kseq (mk_fix_root rootino)
           (kbind (kget m_usedblocks) (\<lambda>used. mk_balloc (unat used))))))))"

definition mk_start :: mk_st where
  "mk_start = \<lparr>m_img = \<lambda>_. zero_block, m_len = 0, m_freeblock = 0, m_usedblocks = 0, m_freeinode = 1\<rparr>"

subsection \<open>Appending to a file\<close>

lemma xint_id [simp]: "xint x = x" and xshort_id [simp]: "xshort y = y"
  by (simp_all add: xint_def xshort_def)

lemma read_put_dinode:
  assumes "length (di_addrs ip) = NADDRS"
  shows "read_dinode (put_dinode d k ip) k = ip"
proof -
  have f: "rd16 (write_addrs e (k + 12) as) (k + n) = rd16 e (k + n)" if "n + 2 \<le> 12" for e as n
    by (rule rd16_cong) (use that in \<open>simp add: write_addrs_def write_addrs_outside\<close>)
  have g: "rd32 (write_addrs e (k + 12) as) (k + 8) = rd32 e (k + 8)" for e as
    by (rule rd32_cong) (simp add: write_addrs_def write_addrs_outside)
  have a: "map (\<lambda>m. rd32 (write_addrs e (k + 12) (di_addrs ip)) (k + 12 + 4 * m)) [0..<NADDRS] = di_addrs ip" for e
    using assms by (auto simp: write_addrs_def write_addrs_upto intro: nth_equalityI)
  show ?thesis
    using f [of 0] f [of 2]
    by (simp add: read_dinode_def put_dinode_def a f g rd16_wr16_other rd16_wr32_other rd32_wr16_other)
qed

text \<open>The first \<open>n\<close> bytes of a file that uses direct blocks only.\<close>

definition file_bytes :: "mk_st \<Rightarrow> dinode \<Rightarrow> nat \<Rightarrow> u8 list" where
  "file_bytes s din n = map (\<lambda>j. m_img s (di_addrs din ! (j div 512)) (j mod 512)) [0..<n]"

lemma length_file_bytes [simp]: "length (file_bytes s din n) = n"
  by (simp add: file_bytes_def)

lemma file_bytes_nth: "j < n \<Longrightarrow> file_bytes s din n ! j = m_img s (di_addrs din ! (j div 512)) (j mod 512)"
  by (simp add: file_bytes_def)

text \<open>
  The direct blocks of the file lie in the data area below \<open>freeblock\<close> and are different, and the
  blocks of its first \<open>off\<close> bytes are there.
\<close>

definition direct_ok :: "mk_st \<Rightarrow> dinode \<Rightarrow> nat \<Rightarrow> bool" where
  "direct_ok s din off \<longleftrightarrow> length (di_addrs din) = NADDRS \<and> 35 \<le> m_freeblock s
     \<and> (\<forall>k < NDIRECT. di_addrs din ! k \<noteq> 0 \<longrightarrow> 35 \<le> di_addrs din ! k \<and> di_addrs din ! k < m_freeblock s)
     \<and> (\<forall>k < NDIRECT. \<forall>j < NDIRECT. j \<noteq> k \<longrightarrow> di_addrs din ! j = di_addrs din ! k \<longrightarrow> di_addrs din ! j = 0)
     \<and> (\<forall>k < NDIRECT. k * 512 < off \<longrightarrow> di_addrs din ! k \<noteq> 0)"

text \<open>What an append changes: new blocks and the blocks of the file itself.\<close>

definition appends :: "mk_st \<Rightarrow> dinode \<Rightarrow> mk_st \<Rightarrow> dinode \<Rightarrow> bool" where
  "appends s din t din' \<longleftrightarrow> m_len t = m_len s \<and> m_freeinode t = m_freeinode s \<and> m_freeblock s \<le> m_freeblock t
     \<and> din' = din\<lparr>di_addrs := di_addrs din'\<rparr>
     \<and> (\<forall>k < NDIRECT. di_addrs din' ! k = di_addrs din ! k \<or> di_addrs din ! k = 0 \<and> m_freeblock s \<le> di_addrs din' ! k)
     \<and> (\<forall>b < m_freeblock s. b = 0 \<or> (\<forall>k < NDIRECT. di_addrs din ! k \<noteq> b) \<longrightarrow> m_img t b = m_img s b)"

lemma appends_refl: "appends s din s din"
  by (simp add: appends_def)

lemma appends_trans:
  assumes "appends s din t din'" "appends t din' u din''"
  shows "appends s din u din''"
proof -
  note a = assms(1) [unfolded appends_def] and b = assms(2) [unfolded appends_def]
  have "m_img u c = m_img s c" if c: "c < m_freeblock s" "c = 0 \<or> (\<forall>k < NDIRECT. di_addrs din ! k \<noteq> c)" for c
  proof -
    have "c < m_freeblock t" using a c(1) by (metis order_less_le_trans)
    moreover have "c = 0 \<or> (\<forall>k < NDIRECT. di_addrs din' ! k \<noteq> c)" using a c by (metis linorder_not_le)
    ultimately show ?thesis using a b c by metis
  qed
  moreover have "di_addrs din'' ! k = di_addrs din ! k \<or> di_addrs din ! k = 0 \<and> m_freeblock s \<le> di_addrs din'' ! k"
    if "k < NDIRECT" for k using a b that by (metis order_trans)
  moreover have "din'' = din\<lparr>di_addrs := di_addrs din''\<rparr>" using a b by (cases din; cases din'; cases din'') simp
  ultimately show ?thesis using a b by (auto simp: appends_def)
qed

lemma before_block: "j \<noteq> off div 512 \<Longrightarrow> j * 512 < Suc off \<Longrightarrow> j * 512 < (off :: nat)"
  by (cases "j * 512 = off") auto

lemma iappend_block_direct:
  assumes ok: "direct_ok s din off" and k: "off div 512 < NDIRECT" and room: "unat (m_freeblock s) < m_len s" "m_len s < 2 ^ 32"
  shows "\<exists>x din' u. iappend_block din (off div 512) s = Ret (x, din') u \<and> x = di_addrs din' ! (off div 512) \<and> x \<noteq> 0
    \<and> 35 \<le> x \<and> unat x < m_len s \<and> direct_ok u din' (Suc off) \<and> appends s din u din' \<and> m_img u = m_img s
    \<and> (x = di_addrs din ! (off div 512) \<or> di_addrs din ! (off div 512) = 0 \<and> x = m_freeblock s)
    \<and> (\<forall>j. j \<noteq> off div 512 \<longrightarrow> di_addrs din' ! j = di_addrs din ! j)
    \<and> unat (m_freeblock u) \<le> Suc (unat (m_freeblock s))"
proof (cases "di_addrs din ! (off div 512) = 0")
  case False
  have "direct_ok s din (Suc off)"
  proof -
    have "di_addrs din ! j \<noteq> 0" if "j < NDIRECT" "j * 512 < Suc off" for j
    proof (cases "j = off div 512")
      case ne: False
      then have "j * 512 < off" using that(2) by (rule before_block)
      then show ?thesis using ok that(1) by (simp add: direct_ok_def)
    qed (use False in simp)
    then show ?thesis using ok by (simp add: direct_ok_def)
  qed
  moreover have a: "35 \<le> di_addrs din ! (off div 512)" "di_addrs din ! (off div 512) < m_freeblock s"
    using ok k False by (simp_all add: direct_ok_def)
  moreover have "unat (di_addrs din ! (off div 512)) < m_len s" using a(2) room(1) by (simp add: word_less_nat_alt)
  ultimately show ?thesis using k False by (simp add: iappend_block_def appends_refl)
next
  case True
  let ?b = "m_freeblock s" and ?k = "off div 512"
  let ?u = "s\<lparr>m_freeblock := ?b + 1, m_usedblocks := m_usedblocks s + 1\<rparr>" and ?d = "din\<lparr>di_addrs := (di_addrs din)[?k := ?b]\<rparr>"
  have len: "?k < length (di_addrs din)" and b35: "35 \<le> ?b"
    using ok k by (simp_all add: direct_ok_def NADDRS_def)
  have run: "iappend_block din ?k s = Ret (?b, ?d) ?u" using True k len by (simp add: iappend_block_def next_block_def)
  have "unat (?b + 1) = Suc (unat ?b)" using room by (simp add: unat_word_ariths)
  then have up: "?b < ?b + 1" "unat (?b + 1) = Suc (unat ?b)" by (simp_all add: word_less_nat_alt)
  have b0: "?b \<noteq> 0" using b35 by auto
  have old: "j < NDIRECT \<Longrightarrow> di_addrs din ! j \<noteq> 0 \<Longrightarrow> 35 \<le> di_addrs din ! j \<and> di_addrs din ! j < ?b" for j
    using ok by (simp add: direct_ok_def)
  then have ne: "j < NDIRECT \<Longrightarrow> di_addrs din ! j \<noteq> ?b" for j using b0 by (metis order_less_irrefl)
  have dist: "i < NDIRECT \<Longrightarrow> j < NDIRECT \<Longrightarrow> i \<noteq> j \<Longrightarrow> di_addrs din ! i = di_addrs din ! j \<Longrightarrow> di_addrs din ! i = 0" for i j
    using ok by (simp add: direct_ok_def)
  have "direct_ok ?u ?d (Suc off)"
  proof -
    have 1: "35 \<le> di_addrs ?d ! j \<and> di_addrs ?d ! j < ?b + 1" if "j < NDIRECT" "di_addrs ?d ! j \<noteq> 0" for j
      using old [of j] that up(1) b35 len by (cases "j = ?k") auto
    have 2: "di_addrs ?d ! i = 0" if "j < NDIRECT" "i < NDIRECT" "i \<noteq> j" "di_addrs ?d ! i = di_addrs ?d ! j" for i j
      using dist [of i j] that ne [of i] ne [of j] len by (auto simp: nth_list_update split: if_splits)
    have 3: "di_addrs ?d ! j \<noteq> 0" if "j < NDIRECT" "j * 512 < Suc off" for j
    proof (cases "j = ?k")
      case ne: False
      then have "j * 512 < off" using that(2) by (rule before_block)
      then show ?thesis using ok that(1) ne by (simp add: direct_ok_def)
    qed (use b0 len in simp)
    have "35 \<le> ?b + 1" by (rule order_trans [OF b35 order_less_imp_le [OF up(1)]])
    then show ?thesis using 1 2 3 ok by (simp add: direct_ok_def)
  qed
  moreover have "appends s din ?u ?d"
    using up(1) True len unfolding appends_def by (auto simp: nth_list_update)
  ultimately show ?thesis
    using run room(1) b0 b35 len True up(2) by (intro exI [of _ ?b] exI [of _ ?d] exI [of _ ?u]) simp
qed

lemma direct_ok_upto:
  assumes "direct_ok s din (Suc off)" "n \<le> (off div 512 + 1) * 512"
  shows "direct_ok s din n"
proof -
  have "k * 512 < Suc off" if "k * 512 < n" for k
  proof -
    have "k < off div 512 + 1" using that assms(2) by (metis mult_less_cancel2 order_less_le_trans)
    then have "k \<le> off div 512" by simp
    then have "k * 512 \<le> off div 512 * 512" by (rule mult_le_mono1)
    then show ?thesis using div_mult_mod_eq [of off 512] by linarith
  qed
  then show ?thesis using assms(1) by (simp add: direct_ok_def)
qed

lemma block_split: "r < 512 \<Longrightarrow> j = k * 512 + r \<Longrightarrow> j div 512 = k \<and> j mod 512 = r" for r j k :: nat
  by simp

lemma blk_write_at: "i < length q \<Longrightarrow> blk_write d k q (k + i) = q ! i"
  by (simp add: blk_write_def)

lemma iappend_turn:
  assumes ok: "direct_ok s din off" and k: "off div 512 < NDIRECT" and room: "unat (m_freeblock s) < m_len s" "m_len s < 2 ^ 32"
    and q: "off mod 512 + length q \<le> 512"
  shows "\<exists>x din' u v. iappend_block din (off div 512) s = Ret (x, din') u
    \<and> rsect x u = Ret (m_img u x) u \<and> wsect x (blk_write (m_img u x) (off mod 512) q) u = Ret () v
    \<and> direct_ok v din' (off + length q) \<and> appends s din v din' \<and> file_bytes v din' (off + length q) = file_bytes s din off @ q
    \<and> unat (m_freeblock v) \<le> Suc (unat (m_freeblock s))"
proof -
  let ?k = "off div 512"
  from iappend_block_direct [OF ok k room] obtain x din' u where r: "iappend_block din ?k s = Ret (x, din') u"
    and x: "x = di_addrs din' ! ?k" "x \<noteq> 0" "35 \<le> x" "unat x < m_len s"
    and d: "direct_ok u din' (Suc off)" and ap: "appends s din u din'" and im: "m_img u = m_img s"
    and sel: "x = di_addrs din ! ?k \<or> di_addrs din ! ?k = 0 \<and> x = m_freeblock s"
    and oth: "\<And>j. j \<noteq> ?k \<Longrightarrow> di_addrs din' ! j = di_addrs din ! j"
    and fb: "unat (m_freeblock u) \<le> Suc (unat (m_freeblock s))" by blast
  let ?v = "u\<lparr>m_img := (m_img u)(x := blk_write (m_img u x) (off mod 512) q)\<rparr>"
  have len: "m_len u = m_len s" using ap by (simp add: appends_def)
  have w: "wsect x (blk_write (m_img u x) (off mod 512) q) u = Ret () ?v" "rsect x u = Ret (m_img u x) u"
    using x(4) by (simp_all add: wsect_def rsect_def len max_def)
  have off: "off = ?k * 512 + off mod 512" by simp
  have v1: "direct_ok ?v din' (off + length q)"
    using direct_ok_upto [OF d, of "off + length q"] off q by (simp add: direct_ok_def)
  have v2: "appends s din ?v din'"
  proof -
    have "m_img ?v b = m_img s b" if "b < m_freeblock s" "b = 0 \<or> (\<forall>k < NDIRECT. di_addrs din ! k \<noteq> b)" for b
    proof -
      have "b \<noteq> x" using that sel x(2) k by auto
      then show ?thesis by (simp add: im)
    qed
    then show ?thesis using ap by (simp add: appends_def)
  qed
  have v3: "file_bytes ?v din' (off + length q) = file_bytes s din off @ q"
  proof (rule nth_equalityI)
    fix j assume "j < length (file_bytes ?v din' (off + length q))"
    then have j: "j < off + length q" by (simp add: file_bytes_def)
    show "file_bytes ?v din' (off + length q) ! j = (file_bytes s din off @ q) ! j"
    proof (cases "j < off")
      case True
      have le: "j div 512 \<le> ?k" using True by (simp add: div_le_mono)
      have "m_img ?v (di_addrs din' ! (j div 512)) (j mod 512) = m_img s (di_addrs din ! (j div 512)) (j mod 512)"
      proof (cases "j div 512 = ?k")
        case same: True
        then have "?k * 512 < off" "j mod 512 < off mod 512"
          using True off div_mult_mod_eq [of j 512] by linarith+
        then show ?thesis using ok k x(1) sel same by (auto simp: direct_ok_def blk_write_def im)
      next
        case diff: False
        then have "di_addrs din' ! (j div 512) \<noteq> x"
          using d k le x(1,2) unfolding direct_ok_def by (metis le_less_trans)
        then show ?thesis using oth [OF diff] by (simp add: im)
      qed
      then show ?thesis using True j by (simp only: file_bytes_nth nth_append length_file_bytes if_True)
    next
      case False
      then have "j div 512 = ?k" "j mod 512 = off mod 512 + (j - off)"
        using block_split [of "off mod 512 + (j - off)" j ?k] j q off by linarith+
      moreover have "blk_write (m_img u x) (off mod 512) q (off mod 512 + (j - off)) = q ! (j - off)"
        by (rule blk_write_at) (use False j in linarith)
      ultimately show ?thesis using False j x(1) by (simp add: file_bytes_nth nth_append)
    qed
  qed (simp add: file_bytes_def)
  show ?thesis by (intro exI conjI) (fact r, fact w(2), fact w(1), fact v1, fact v2, fact v3, use fb in simp)
qed


lemma iappend_loop_direct:
  "direct_ok s din off \<Longrightarrow> off + length p \<le> NDIRECT * 512 \<Longrightarrow> unat (m_freeblock s) + length p \<le> m_len s \<Longrightarrow>
   m_len s < 2 ^ 32 \<Longrightarrow>
   \<exists>din' t. iappend_loop off din p s = Ret (off + length p, din') t \<and> direct_ok t din' (off + length p)
     \<and> appends s din t din' \<and> file_bytes t din' (off + length p) = file_bytes s din off @ p
     \<and> unat (m_freeblock t) \<le> unat (m_freeblock s) + length p"
proof (induction p arbitrary: off din s rule: length_induct)
  case (1 p)
  show ?case
  proof (cases "p = []")
    case True
    then show ?thesis using 1(2) by (simp add: iappend_loop.simps [of off] appends_refl)
  next
    case False
    define n where "n = min (length p) ((off div 512 + 1) * 512 - off)"
    have n: "0 < n" "n \<le> length p" using False rest_of_block [of off] by (simp_all add: n_def)
    have q: "off mod 512 + length (take n p) \<le> 512"
    proof -
      have "n \<le> 512 - off mod 512" unfolding n_def rest_of_block_eq by (rule min.cobounded2)
      moreover have "off mod 512 < 512" "length (take n p) \<le> n" by simp_all
      ultimately show ?thesis by linarith
    qed
    have "off < NDIRECT * 512" using 1(3) False by (cases p) simp_all
    then have k: "off div 512 < NDIRECT" by (rule less_mult_imp_div_less)
    then have ass: "mk_assert (off div 512 < MAXFILE) = kret ()" by (simp add: mk_assert_def MAXFILE_def)
    have "unat (m_freeblock s) < m_len s" using 1(4) False by (cases p) simp_all
    note turn = iappend_turn [OF 1(2) k this 1(5) q]
    have "length (take n p) = n" using n by simp
    from turn [unfolded this] obtain x din1 u v
      where r: "iappend_block din (off div 512) s = Ret (x, din1) u" "rsect x u = Ret (m_img u x) u"
        "wsect x (blk_write (m_img u x) (off mod 512) (take n p)) u = Ret () v"
      and v: "direct_ok v din1 (off + n)" "appends s din v din1"
        "file_bytes v din1 (off + n) = file_bytes s din off @ take n p"
        "unat (m_freeblock v) \<le> Suc (unat (m_freeblock s))"
      by blast
    have step: "iappend_loop off din p s = iappend_loop (off + n) din1 (drop n p) v"
      unfolding iappend_loop.simps [of off din p] Let_def n_def [symmetric]
      using False r by (simp add: ass minus_div_mult_eq_mod)
    have len: "m_len v = m_len s" using v(2) by (simp add: appends_def)
    have e: "off + n + length (drop n p) = off + length p" using n by simp
    have less: "length (drop n p) < length p" using n by simp
    have l: "off + n + length (drop n p) \<le> NDIRECT * 512" "unat (m_freeblock v) + length (drop n p) \<le> m_len v" "m_len v < 2 ^ 32"
      using n v(4) 1(3,4,5) len by (simp_all only: e) simp
    from 1(1) [rule_format, OF less v(1) l, unfolded e] obtain din' t
      where t: "iappend_loop (off + n) din1 (drop n p) v = Ret (off + length p, din') t"
        "direct_ok t din' (off + length p)" "appends v din1 t din'"
        "file_bytes t din' (off + length p) = file_bytes v din1 (off + n) @ drop n p"
        "unat (m_freeblock t) \<le> unat (m_freeblock v) + length (drop n p)"
      by blast
    have "unat (m_freeblock t) \<le> unat (m_freeblock s) + length p" using t(5) v(4) n by simp
    moreover have "file_bytes t din' (off + length p) = file_bytes s din off @ p" by (simp add: t(4) v(3))
    ultimately show ?thesis using step t(1,2) appends_trans [OF v(2) t(3)] by auto
  qed
qed

lemma rinode_apply: "unat (i2b inum) < m_len s \<Longrightarrow> rinode inum s = Ret (read_dinode (m_img s (i2b inum)) (dinode_off inum)) s"
  by (simp add: rinode_def rsect_def)

lemma winode_apply:
  assumes "unat (i2b inum) < m_len s"
  shows "winode inum d s = Ret () (s\<lparr>m_img := (m_img s)(i2b inum := put_dinode (m_img s (i2b inum)) (dinode_off inum) d)\<rparr>)"
proof -
  have "max (m_len s) (unat (i2b inum) + 1) = m_len s" using assms by simp
  then show ?thesis using assms by (simp add: winode_def rsect_def wsect_def Let_def)
qed

text \<open>
  C40: \<open>iappend\<close> appends: for a file in direct blocks, and with room on the disk, \<open>iappend\<close> succeeds; the
  inode on the disk then has the new size, the file has its old bytes followed by the new ones, and its
  blocks are still different blocks of the data area.
\<close>

theorem iappend_appends:
  assumes din: "din = read_dinode (m_img s (i2b inum)) (dinode_off inum)" and i: "i2b inum < 35"
    and ok: "direct_ok s din (unat (di_size din))" and fits: "unat (di_size din) + length p \<le> NDIRECT * 512"
    and room: "unat (m_freeblock s) + length p \<le> m_len s" "m_len s < 2 ^ 32"
  shows "\<exists>t din'. iappend inum p s = Ret () t \<and> din' = read_dinode (m_img t (i2b inum)) (dinode_off inum)
    \<and> unat (di_size din') = unat (di_size din) + length p \<and> direct_ok t din' (unat (di_size din'))
    \<and> file_bytes t din' (unat (di_size din')) = file_bytes s din (unat (di_size din)) @ p"
proof -
  let ?n = "unat (di_size din) + length p" and ?i = "i2b inum"
  from iappend_loop_direct [OF ok fits room] obtain d t where
    t: "iappend_loop (unat (di_size din)) din p s = Ret (?n, d) t" "direct_ok t d ?n" "appends s din t d"
      "file_bytes t d ?n = file_bytes s din (unat (di_size din)) @ p" by blast
  let ?d = "d\<lparr>di_size := of_nat ?n\<rparr>"
  let ?t = "t\<lparr>m_img := (m_img t)(?i := put_dinode (m_img t ?i) (dinode_off inum) ?d)\<rparr>"
  have fb: "35 \<le> m_freeblock s" and len: "m_len t = m_len s" "length (di_addrs ?d) = NADDRS"
    using ok t(2,3) by (simp_all add: direct_ok_def appends_def)
  have "unat ?i < m_len s" using i fb room(1) by (simp add: word_less_nat_alt word_le_nat_alt)
  then have "rinode inum s = Ret din s" "winode inum ?d t = Ret () ?t"
    using winode_apply [of inum t ?d] len(1) by (simp_all only: rinode_apply din)
  then have run: "iappend inum p s = Ret () ?t" using t(1) by (simp add: iappend_def)
  have "m_img ?t ?i = put_dinode (m_img t ?i) (dinode_off inum) ?d" by simp
  then have rd: "?d = read_dinode (m_img ?t ?i) (dinode_off inum)" by (simp only: read_put_dinode [OF len(2)])
  have "?n < 2 ^ 32" using fits by (simp add: NDIRECT_def)
  then have "unat (of_nat ?n :: u32) = ?n" unfolding unat_of_nat by (intro mod_less) simp
  then have sz: "unat (di_size ?d) = ?n" by simp
  have fb_eq: "file_bytes ?t ?d ?n = file_bytes t d ?n"
  proof (rule nth_equalityI)
    fix j assume "j < length (file_bytes ?t ?d ?n)"
    then have j: "j < ?n" by simp
    then have "j div 512 < NDIRECT" using fits by (intro less_mult_imp_div_less) simp
    moreover have "j div 512 * 512 < ?n" by (rule order_le_less_trans [OF div_times_less_eq_dividend j])
    ultimately have "35 \<le> di_addrs d ! (j div 512)" using t(2) by (simp add: direct_ok_def)
    then have "di_addrs d ! (j div 512) \<noteq> ?i" using i by auto
    then show "file_bytes ?t ?d ?n ! j = file_bytes t d ?n ! j" using j by (simp add: file_bytes_nth)
  qed simp
  have d_ok: "direct_ok ?t ?d ?n" using t(2) by (simp add: direct_ok_def)
  show ?thesis by (intro exI conjI, rule run, rule rd) (simp_all only: sz fb_eq d_ok t(4))
qed

definition mk_sample :: mk_st where
  "mk_sample = \<lparr>m_img = \<lambda>_. zero_block, m_len = 100, m_freeblock = 35, m_usedblocks = 35, m_freeinode = 2\<rparr>"

theorem iappend_appends_witness:
  "\<exists>t din'. iappend 1 [7, 8] mk_sample = Ret () t \<and> din' = read_dinode (m_img t 2) 64
     \<and> file_bytes t din' 2 = [7, 8]"
proof -
  let ?z = "\<lparr>di_type = 0, di_major = 0, di_minor = 0, di_nlink = 0, di_size = 0, di_addrs = replicate NADDRS 0\<rparr>"
  have d: "?z = read_dinode (m_img mk_sample (i2b 1)) (dinode_off 1)"
    by (simp add: read_dinode_def mk_sample_def map_replicate_const)
  have i: "i2b 1 = 2" "dinode_off 1 = 64" by (simp_all add: i2b_def dinode_off_def fs_defs)
  have ok: "direct_ok mk_sample ?z (unat (di_size ?z))"
    by (simp add: direct_ok_def NADDRS_def) (simp add: mk_sample_def)
  have "\<exists>t din'. iappend 1 [7, 8] mk_sample = Ret () t \<and> din' = read_dinode (m_img t (i2b 1)) (dinode_off 1)
    \<and> unat (di_size din') = unat (di_size ?z) + length [7, 8 :: u8] \<and> direct_ok t din' (unat (di_size din'))
    \<and> file_bytes t din' (unat (di_size din')) = file_bytes mk_sample ?z (unat (di_size ?z)) @ [7, 8]"
    by (rule iappend_appends [OF d _ ok]) (simp_all add: i mk_sample_def NDIRECT_def)
  then show ?thesis by (auto simp: i file_bytes_def [of mk_sample] numeral_2_eq_2)
qed

subsection \<open>The bitmap\<close>

lemma bm_bit_upto: "bm_bit (foldl bm_set zero_block [0..<n]) b \<longleftrightarrow> b < n"
  by (induction n) (auto simp: bm_bit_set, simp add: bm_bit_iff zero_block_def)

text \<open>\<open>freeblock\<close> and \<open>usedblocks\<close> are counted up together.\<close>

definition mk_level :: "mk_st \<Rightarrow> mk_st \<Rightarrow> bool" where
  "mk_level s t \<longleftrightarrow> (m_freeblock s = m_usedblocks s \<longrightarrow> m_freeblock t = m_usedblocks t)"

interpretation level: kern_relation mk_level
  by unfold_locales (simp_all add: mk_level_def)

lemma level_mk_exit: "within mk_level mk_exit"
  by (simp add: within_def mk_exit_def mk_level_def)

lemma level_mk_assert: "within mk_level (mk_assert c)"
  by (auto simp: mk_assert_def intro: level.within_rules)

lemma level_wsect: "within mk_level (wsect sec buf)"
  unfolding wsect_def by (rule level.within_kmod) (simp add: mk_level_def)

lemma level_rsect: "within mk_level (rsect sec)"
  unfolding rsect_def by (intro level.within_rules level_mk_exit)

lemma level_next_block: "within mk_level next_block"
  unfolding next_block_def by (rule withinI) (auto simp: mk_level_def)

lemmas level_rules = level.within_rules level_mk_exit level_mk_assert level_wsect level_rsect level_next_block

lemma level_winode: "within mk_level (winode inum ip)"
  unfolding winode_def Let_def by (intro level_rules)

lemma level_rinode: "within mk_level (rinode inum)"
  unfolding rinode_def by (intro level_rules)

lemma level_mk_ialloc: "within mk_level (mk_ialloc type)"
  unfolding mk_ialloc_def by (intro level_rules level_winode level.within_kmod) (simp add: mk_level_def)

lemma level_iappend_block: "within mk_level (iappend_block din fbn)"
  unfolding iappend_block_def iappend_indirect_def Let_def by (intro level_rules)

lemma level_iappend_loop: "within mk_level (iappend_loop off din p)"
proof (induction off din p rule: iappend_loop.induct)
  case (1 off din p)
  show ?case
    by (subst iappend_loop.simps) (auto simp: Let_def intro!: level_rules level_iappend_block 1)
qed

lemma level_iappend: "within mk_level (iappend inum p)"
  unfolding iappend_def by (intro level_rules level_rinode level_iappend_loop level_winode)

lemma level_mk_root: "within mk_level mk_root"
  unfolding mk_root_def by (intro level_rules level_mk_ialloc level_iappend)

lemma level_mk_file: "within mk_level (mk_file rootino arg)"
  unfolding mk_file_def Let_def by (intro level_rules level_mk_ialloc level_iappend)

lemma level_mk_fix_root: "within mk_level (mk_fix_root rootino)"
  unfolding mk_fix_root_def Let_def by (intro level_rules level_rinode level_winode)

lemma mk_format_level: "mk_format s = Ret () t \<Longrightarrow> m_freeblock t = m_usedblocks t"
proof -
  let ?used = "mk_ninodes div IPB + 3 + (mk_size div (512 * 8) + 1)"
  let ?rest = "kseq (mk_assert (mk_nblocks + ?used + LOGSIZE = mk_size))
     (kseq (kfor [0..<mk_nblocks + ?used + LOGSIZE] (\<lambda>i. wsect (of_nat i) zero_block))
      (wsect 1 (wr32 (wr32 (wr32 (wr32 zero_block 0 (xint (of_nat mk_size))) 4 (xint (of_nat mk_nblocks)))
         8 (xint (of_nat mk_ninodes))) 12 (xint (of_nat LOGSIZE)))))"
  assume "mk_format s = Ret () t"
  then have "?rest (s\<lparr>m_usedblocks := of_nat ?used, m_freeblock := of_nat ?used\<rparr>) = Ret () t"
    by (simp only: mk_format_def Let_def kseq_def kbind_def kmod_apply outcome.case)
  moreover have "within mk_level ?rest" by (intro level_rules)
  ultimately have "mk_level (s\<lparr>m_usedblocks := of_nat ?used, m_freeblock := of_nat ?used\<rparr>) t"
    by (rule withinD [rotated])
  then show ?thesis by (simp add: mk_level_def)
qed

text \<open>
  When \<open>mkfs\<close> succeeds, the bitmap block the kernel looks at has the bits of exactly the blocks below
  \<open>freeblock\<close> set: the boot block, the superblock, the inodes, the bitmap and every block given to a file.
\<close>

lemma mkfs_bitmap:
  assumes "mkfs_main img args s = Ret () t" and "b < BPB"
  shows "bm_bit (m_img t (BBLOCK (of_nat b) (of_nat mk_ninodes))) b \<longleftrightarrow> b < unat (m_freeblock t)"
proof -
  obtain s1 r s2 s3 u where st: "mk_format (s\<lparr>m_img := \<lambda>_. zero_block, m_len := 0\<rparr>) = Ret () s1" "mk_root s1 = Ret r s2"
      "kfor args (mk_file r) s2 = Ret () s3" "mk_fix_root r s3 = Ret () u"
    and bal: "mk_balloc (unat (m_usedblocks u)) u = Ret () t"
    using assms(1) unfolding mkfs_main_def mk_exit_def
    by (auto simp: kseq_eq_Ret kbind_eq_Ret split: option.splits if_splits)
  have "mk_level s1 s2" "mk_level s2 s3" "mk_level s3 u"
    using withinD [OF level_mk_root st(2)] withinD [OF level.within_kfor st(3), OF level_mk_file]
      withinD [OF level_mk_fix_root st(4)] by auto
  then have u: "m_freeblock u = m_usedblocks u" using mk_format_level [OF st(1)] by (simp add: mk_level_def)
  have "BBLOCK (of_nat b) (of_nat mk_ninodes) = of_nat (mk_ninodes div IPB + 3)"
  proof -
    have "of_nat b div (4096 :: u32) = 0"
      using assms(2) by (simp add: fs_defs word_arith_nat_div unat_of_nat)
    then show ?thesis by (simp add: BBLOCK_def fs_defs mk_ninodes_def)
  qed
  with u bal show ?thesis
    by (auto simp: mk_balloc_def mk_assert_def wsect_def kseq_eq_Ret bm_bit_upto split: if_splits)
qed


end
