(* ===== verification/Ports.thy ===== *)
theory Ports
  imports Bytes Layout
begin

unbundle bit_operations_syntax

section \<open>Ports: interrupt controllers, timer and serial port\<close>

text \<open>
  \<^verbatim>\<open>src/picirq.c\<close>, \<^verbatim>\<open>ioapic.c\<close>, \<^verbatim>\<open>lapic.c\<close>, \<^verbatim>\<open>timer.c\<close> and the set-up of \<^verbatim>\<open>uart.c\<close>, over the port instructions of
  \<^verbatim>\<open>x86.h\<close>. Every access to a device is recorded in \<open>io_log\<close>, and \<open>io_dev\<close>, an argument in the state, is
  what a device answers to a read after the accesses so far. A loop that polls a device is observed for
  \<open>io_budget\<close> turns; a device that is not ready by then is taken to be never ready, which is \<open>Switch\<close>.
  Registers in memory are named by their device and number. \<open>microdelay\<close> does nothing in the source.
  Messages to the console are left out.
\<close>

datatype io =
    Outb u16 u8 | Inb u16 | Outsl u16 block nat | Insl u16 nat
  | ApicW nat u32 | ApicR nat | IoapicReg u32 | IoapicW u32 | IoapicR

record io_st =
  io_dev :: "io list \<Rightarrow> io \<Rightarrow> u32"
  io_sector :: "io list \<Rightarrow> block"
  io_log :: "io list"
  io_budget :: nat
  irqmask :: u16
  p_ismp :: bool
  p_lapic :: bool
  p_uart :: bool
  io_mem :: memory

definition io_access :: "io \<Rightarrow> ('x io_st_scheme, u32) kern" where
  "io_access a = (\<lambda>s. Ret (io_dev s (io_log s) a) (s\<lparr>io_log := io_log s @ [a]\<rparr>))"

definition outb :: "u16 \<Rightarrow> u8 \<Rightarrow> ('x io_st_scheme, unit) kern" where
  "outb p d = kseq (io_access (Outb p d)) (kret ())"

definition inb :: "u16 \<Rightarrow> ('x io_st_scheme, u8) kern" where
  "inb p = kbind (io_access (Inb p)) (\<lambda>w. kret (ucast w))"

definition outsl :: "u16 \<Rightarrow> block \<Rightarrow> nat \<Rightarrow> ('x io_st_scheme, unit) kern" where
  "outsl p d n = kseq (io_access (Outsl p d n)) (kret ())"

definition insl :: "u16 \<Rightarrow> nat \<Rightarrow> ('x io_st_scheme, block) kern" where
  "insl p n = kbind (kget (\<lambda>s. io_sector s (io_log s))) (\<lambda>d. kseq (io_access (Insl p n)) (kret d))"

text \<open>A polling loop.\<close>

primrec spin_n :: "nat \<Rightarrow> ('s, 'a option) kern \<Rightarrow> ('s, 'a) kern" where
  "spin_n 0 m = (\<lambda>s. Switch s)"
| "spin_n (Suc n) m = kbind m (\<lambda>r. case r of Some x \<Rightarrow> kret x | None \<Rightarrow> spin_n n m)"

definition spin :: "('x io_st_scheme, 'a option) kern \<Rightarrow> ('x io_st_scheme, 'a) kern" where
  "spin m = kbind (kget io_budget) (\<lambda>n. spin_n n m)"

subsection \<open>picirq.c\<close>

definition IO_PIC1 :: u16 where "IO_PIC1 = 0x20"
definition IO_PIC2 :: u16 where "IO_PIC2 = 0xA0"
definition IRQ_SLAVE :: nat where "IRQ_SLAVE = 2"

definition irqmask_start :: u16 where
  "irqmask_start = 0xFFFF AND NOT (push_bit IRQ_SLAVE 1)"

definition picsetmask :: "u16 \<Rightarrow> ('x io_st_scheme, unit) kern" where
  "picsetmask m = kseq (kmod (\<lambda>s. s\<lparr>irqmask := m\<rparr>))
    (kseq (outb (IO_PIC1 + 1) (ucast m)) (outb (IO_PIC2 + 1) (ucast (drop_bit 8 m))))"

definition picenable :: "nat \<Rightarrow> ('x io_st_scheme, unit) kern" where
  "picenable irq = kbind (kget irqmask) (\<lambda>m. picsetmask (m AND NOT (push_bit irq 1)))"

primrec outbs :: "(u16 \<times> u8) list \<Rightarrow> ('x io_st_scheme, unit) kern" where
  "outbs [] = kret ()"
| "outbs (pd # pds) = kseq (outb (fst pd) (snd pd)) (outbs pds)"

definition picinit :: "('x io_st_scheme, unit) kern" where
  "picinit = kseq (outbs
     [(IO_PIC1 + 1, 0xFF), (IO_PIC2 + 1, 0xFF),
      (IO_PIC1, 0x11), (IO_PIC1 + 1, ucast T_IRQ0), (IO_PIC1 + 1, push_bit IRQ_SLAVE 1), (IO_PIC1 + 1, 0x3),
      (IO_PIC2, 0x11), (IO_PIC2 + 1, ucast T_IRQ0 + 8), (IO_PIC2 + 1, of_nat IRQ_SLAVE), (IO_PIC2 + 1, 0x3),
      (IO_PIC1, 0x68), (IO_PIC1, 0x0a), (IO_PIC2, 0x68), (IO_PIC2, 0x0a)])
    (kbind (kget irqmask) (\<lambda>m. kwhen (m \<noteq> 0xFFFF) (picsetmask m)))"

subsection \<open>timer.c\<close>

definition IO_TIMER1 :: u16 where "IO_TIMER1 = 0x040"
definition TIMER_FREQ :: nat where "TIMER_FREQ = 1193182"
definition TIMER_DIV :: "nat \<Rightarrow> nat" where "TIMER_DIV x = (TIMER_FREQ + x div 2) div x"
definition TIMER_MODE :: u16 where "TIMER_MODE = IO_TIMER1 + 3"

text \<open>The mode is \<open>TIMER_SEL0 | TIMER_RATEGEN | TIMER_16BIT\<close>.\<close>

definition timerinit :: "('x io_st_scheme, unit) kern" where
  "timerinit = kseq (outb TIMER_MODE (0x00 OR 0x04 OR 0x30))
    (kseq (outb IO_TIMER1 (of_nat (TIMER_DIV 100 mod 256)))
    (kseq (outb IO_TIMER1 (of_nat (TIMER_DIV 100 div 256))) (picenable (unat IRQ_TIMER))))"

subsection \<open>ioapic.c\<close>

definition REG_ID :: u32 where "REG_ID = 0x00"
definition REG_VER :: u32 where "REG_VER = 0x01"
definition REG_TABLE :: u32 where "REG_TABLE = 0x10"
definition INT_DISABLED :: u32 where "INT_DISABLED = 0x00010000"

definition ioapicread :: "u32 \<Rightarrow> ('x io_st_scheme, u32) kern" where
  "ioapicread reg = kseq (io_access (IoapicReg reg)) (io_access IoapicR)"

definition ioapicwrite :: "u32 \<Rightarrow> u32 \<Rightarrow> ('x io_st_scheme, unit) kern" where
  "ioapicwrite reg data = kseq (io_access (IoapicReg reg)) (kseq (io_access (IoapicW data)) (kret ()))"

definition ioapicinit :: "('x io_st_scheme, unit) kern" where
  "ioapicinit = kbind (kget p_ismp) (\<lambda>mp. kwhen mp
     (kbind (ioapicread REG_VER) (\<lambda>v. let maxintr = drop_bit 16 v AND 0xFF in
      kbind (ioapicread REG_ID) (\<lambda>_.
      kfor [0..<Suc (unat maxintr)] (\<lambda>i.
        kseq (ioapicwrite (REG_TABLE + 2 * of_nat i) (INT_DISABLED OR (T_IRQ0 + of_nat i)))
             (ioapicwrite (REG_TABLE + 2 * of_nat i + 1) 0))))))"

definition ioapicenable :: "u32 \<Rightarrow> u32 \<Rightarrow> ('x io_st_scheme, unit) kern" where
  "ioapicenable irq cpunum = kbind (kget p_ismp) (\<lambda>mp. kwhen mp
     (kseq (ioapicwrite (REG_TABLE + 2 * irq) (T_IRQ0 + irq))
           (ioapicwrite (REG_TABLE + 2 * irq + 1) (push_bit 24 cpunum))))"

subsection \<open>lapic.c\<close>

text \<open>The registers with their index in \<open>lapic\<close>, and the bits of their values.\<close>

datatype lapic_reg = LAPIC_ID | LAPIC_VER | TPR | EOI | SVR | ESR | ICRLO | ICRHI
  | LAPIC_TIMER | PCINT | LINT0 | LINT1 | LAPIC_ERROR | TICR | TCCR | TDCR

primrec lapic_index :: "lapic_reg \<Rightarrow> nat" where
  "lapic_index LAPIC_ID = 0x0020 div 4"
| "lapic_index LAPIC_VER = 0x0030 div 4"
| "lapic_index TPR = 0x0080 div 4"
| "lapic_index EOI = 0x00B0 div 4"
| "lapic_index SVR = 0x00F0 div 4"
| "lapic_index ESR = 0x0280 div 4"
| "lapic_index ICRLO = 0x0300 div 4"
| "lapic_index ICRHI = 0x0310 div 4"
| "lapic_index LAPIC_TIMER = 0x0320 div 4"
| "lapic_index PCINT = 0x0340 div 4"
| "lapic_index LINT0 = 0x0350 div 4"
| "lapic_index LINT1 = 0x0360 div 4"
| "lapic_index LAPIC_ERROR = 0x0370 div 4"
| "lapic_index TICR = 0x0380 div 4"
| "lapic_index TCCR = 0x0390 div 4"
| "lapic_index TDCR = 0x03E0 div 4"

datatype lapic_flag = ENABLE | LAPIC_INIT | STARTUP | DELIVS | LAPIC_ASSERT | DEASSERT | LAPIC_LEVEL
  | BCAST | LAPIC_BUSY | LAPIC_FIXED | LAPIC_X1 | PERIODIC | MASKED

primrec lapic_bits :: "lapic_flag \<Rightarrow> u32" where
  "lapic_bits ENABLE = 0x00000100"
| "lapic_bits LAPIC_INIT = 0x00000500"
| "lapic_bits STARTUP = 0x00000600"
| "lapic_bits DELIVS = 0x00001000"
| "lapic_bits LAPIC_ASSERT = 0x00004000"
| "lapic_bits DEASSERT = 0x00000000"
| "lapic_bits LAPIC_LEVEL = 0x00008000"
| "lapic_bits BCAST = 0x00080000"
| "lapic_bits LAPIC_BUSY = 0x00001000"
| "lapic_bits LAPIC_FIXED = 0x00000000"
| "lapic_bits LAPIC_X1 = 0x0000000B"
| "lapic_bits PERIODIC = 0x00020000"
| "lapic_bits MASKED = 0x00010000"

definition lapicw :: "lapic_reg \<Rightarrow> u32 \<Rightarrow> ('x io_st_scheme, unit) kern" where
  "lapicw index value = kseq (io_access (ApicW (lapic_index index) value)) (kseq (io_access (ApicR (lapic_index LAPIC_ID))) (kret ()))"

definition lapic_delivered :: "('x io_st_scheme, unit option) kern" where
  "lapic_delivered = kbind (io_access (ApicR (lapic_index ICRLO))) (\<lambda>w. kret (if w AND lapic_bits DELIVS \<noteq> 0 then None else Some ()))"

definition lapicinit :: "('x io_st_scheme, unit) kern" where
  "lapicinit = kbind (kget p_lapic) (\<lambda>on. kwhen on
     (kseq (lapicw SVR (lapic_bits ENABLE OR (T_IRQ0 + IRQ_SPURIOUS)))
     (kseq (lapicw TDCR (lapic_bits LAPIC_X1))
     (kseq (lapicw LAPIC_TIMER (lapic_bits PERIODIC OR (T_IRQ0 + IRQ_TIMER)))
     (kseq (lapicw TICR 10000000)
     (kseq (lapicw LINT0 (lapic_bits MASKED))
     (kseq (lapicw LINT1 (lapic_bits MASKED))
     (kbind (io_access (ApicR (lapic_index LAPIC_VER))) (\<lambda>v.
      kseq (kwhen (4 \<le> drop_bit 16 v AND 0xFF) (lapicw PCINT (lapic_bits MASKED)))
     (kseq (lapicw LAPIC_ERROR (T_IRQ0 + IRQ_ERROR))
     (kseq (lapicw ESR 0)
     (kseq (lapicw ESR 0)
     (kseq (lapicw EOI 0)
     (kseq (lapicw ICRHI 0)
     (kseq (lapicw ICRLO (lapic_bits BCAST OR lapic_bits LAPIC_INIT OR lapic_bits LAPIC_LEVEL))
     (kseq (spin lapic_delivered)
      (lapicw TPR 0)))))))))))))))))"

definition cpunum :: "('x io_st_scheme, u32) kern" where
  "cpunum = kbind (kget p_lapic) (\<lambda>on.
     if on then kbind (io_access (ApicR (lapic_index LAPIC_ID))) (\<lambda>w. kret (drop_bit 24 w)) else kret 0)"

definition lapiceoi :: "('x io_st_scheme, unit) kern" where
  "lapiceoi = kbind (kget p_lapic) (\<lambda>on. kwhen on (lapicw EOI 0))"

definition IO_RTC :: u16 where "IO_RTC = 0x70"

definition warm_reset :: u32 where "warm_reset = p2v (push_bit 4 0x40 OR 0x67)"

definition lapicstartap :: "u8 \<Rightarrow> u32 \<Rightarrow> ('x io_st_scheme, unit) kern" where
  "lapicstartap apicid addr =
     kseq (outb IO_RTC 0xF)
    (kseq (outb (IO_RTC + 1) 0x0A)
    (kseq (kmod (\<lambda>s. s\<lparr>io_mem := (io_mem s)(warm_reset := 0, warm_reset + 1 := 0,
        warm_reset + 2 := byte_of32 (drop_bit 4 addr) 0, warm_reset + 3 := byte_of32 (drop_bit 4 addr) 1)\<rparr>))
    (kseq (lapicw ICRHI (push_bit 24 (ucast apicid)))
    (kseq (lapicw ICRLO (lapic_bits LAPIC_INIT OR lapic_bits LAPIC_LEVEL OR lapic_bits LAPIC_ASSERT))
    (kseq (lapicw ICRLO (lapic_bits LAPIC_INIT OR lapic_bits LAPIC_LEVEL))
     (kfor [0..<2] (\<lambda>i. kseq (lapicw ICRHI (push_bit 24 (ucast apicid)))
        (lapicw ICRLO (lapic_bits STARTUP OR drop_bit 12 addr)))))))))"

subsection \<open>The serial port\<close>

definition COM1 :: u16 where "COM1 = 0x3f8"

text \<open>\<open>uartputc\<close> waits for the transmitter at most 128 times.\<close>

primrec uart_wait :: "nat \<Rightarrow> ('x io_st_scheme, unit) kern" where
  "uart_wait 0 = kret ()"
| "uart_wait (Suc n) = kbind (inb (COM1 + 5)) (\<lambda>b. if b AND 0x20 \<noteq> 0 then kret () else uart_wait n)"

definition uart_send :: "u8 \<Rightarrow> ('x io_st_scheme, unit) kern" where
  "uart_send c = kbind (kget p_uart) (\<lambda>on. kwhen on (kseq (uart_wait 128) (outb COM1 c)))"

definition uartgetc :: "('x io_st_scheme, int) kern" where
  "uartgetc = kbind (kget p_uart) (\<lambda>on. if \<not> on then kret (-1)
     else kbind (inb (COM1 + 5)) (\<lambda>b. if b AND 0x01 = 0 then kret (-1)
       else kbind (inb COM1) (\<lambda>c. kret (uint c))))"

definition uartinit :: "('x io_st_scheme, unit) kern" where
  "uartinit = kseq (outbs [(COM1 + 2, 0), (COM1 + 3, 0x80), (COM1, of_nat (115200 div 9600)), (COM1 + 1, 0),
       (COM1 + 3, 0x03), (COM1 + 4, 0), (COM1 + 1, 0x01)])
    (kbind (inb (COM1 + 5)) (\<lambda>b. kwhen (b \<noteq> 0xFF)
      (kseq (kmod (\<lambda>s. s\<lparr>p_uart := True\<rparr>))
      (kseq (inb (COM1 + 2))
      (kseq (inb COM1)
      (kseq (picenable (unat IRQ_COM1))
      (kseq (ioapicenable IRQ_COM1 0)
       (kfor (''xv6...'' @ [CHR 10]) (\<lambda>c. uart_send (of_char c))))))))))"

subsection \<open>What the devices hold\<close>

text \<open>The byte last written to a port, and the registers of the I/O APIC behind its two windows.\<close>

definition port_step :: "u16 \<Rightarrow> u8 option \<Rightarrow> io \<Rightarrow> u8 option" where
  "port_step p v a = (case a of Outb q d \<Rightarrow> if q = p then Some d else v | _ \<Rightarrow> v)"

definition port_value :: "io list \<Rightarrow> u16 \<Rightarrow> u8 option" where
  "port_value l p = foldl (port_step p) None l"

definition apic_step :: "u32 \<times> (u32 \<Rightarrow> u32) \<Rightarrow> io \<Rightarrow> u32 \<times> (u32 \<Rightarrow> u32)" where
  "apic_step v a = (case a of IoapicReg r \<Rightarrow> (r, snd v) | IoapicW d \<Rightarrow> (fst v, (snd v)(fst v := d)) | _ \<Rightarrow> v)"

definition ioapic_state :: "io list \<Rightarrow> u32 \<times> (u32 \<Rightarrow> u32)" where
  "ioapic_state l = foldl apic_step (0, \<lambda>_. 0) l"

abbreviation ioapic_regs :: "io list \<Rightarrow> u32 \<Rightarrow> u32" where
  "ioapic_regs l \<equiv> snd (ioapic_state l)"

lemma port_value_append [simp]: "port_value (l @ as) p = foldl (port_step p) (port_value l p) as"
  by (simp add: port_value_def)

lemma ioapic_state_append [simp]: "ioapic_state (l @ as) = foldl apic_step (ioapic_state l) as"
  by (simp add: ioapic_state_def)

lemma io_access_apply [simp]: "io_access a s = Ret (io_dev s (io_log s) a) (s\<lparr>io_log := io_log s @ [a]\<rparr>)"
  by (simp add: io_access_def)

lemma outb_apply [simp]: "outb p d s = Ret () (s\<lparr>io_log := io_log s @ [Outb p d]\<rparr>)"
  by (simp add: outb_def)

lemma outbs_apply: "outbs pds s = Ret () (s\<lparr>io_log := io_log s @ map (\<lambda>pd. Outb (fst pd) (snd pd)) pds\<rparr>)"
  by (induction pds arbitrary: s) simp_all

lemma picsetmask_apply: "picsetmask m s = Ret () (s\<lparr>irqmask := m,
    io_log := io_log s @ [Outb (IO_PIC1 + 1) (ucast m), Outb (IO_PIC2 + 1) (ucast (drop_bit 8 m))]\<rparr>)"
  by (simp add: picsetmask_def)

text \<open>The mask registers of the two controllers hold the variable \<open>irqmask\<close>.\<close>

definition masks_set :: "'x io_st_scheme \<Rightarrow> bool" where
  "masks_set s \<longleftrightarrow> port_value (io_log s) (IO_PIC1 + 1) = Some (ucast (irqmask s))
     \<and> port_value (io_log s) (IO_PIC2 + 1) = Some (ucast (drop_bit 8 (irqmask s)))"

lemma masks_set_after: "picsetmask m s = Ret () t \<Longrightarrow> masks_set t \<and> irqmask t = m"
  by (auto simp: picsetmask_apply masks_set_def port_step_def IO_PIC1_def IO_PIC2_def)

lemma picenable_all:
  assumes "masks_set s"
  shows "\<exists>t. kfor irqs picenable s = Ret () t \<and> masks_set t
    \<and> (\<forall>i < 16. bit (irqmask t) i \<longleftrightarrow> bit (irqmask s) i \<and> i \<notin> set irqs)"
  using assms
proof (induction irqs arbitrary: s)
  case (Cons irq irqs)
  let ?m = "irqmask s AND NOT (push_bit irq 1)"
  obtain u where u: "picsetmask ?m s = Ret () u" by (simp add: picsetmask_apply)
  then have m: "masks_set u" "irqmask u = ?m" using masks_set_after by blast+
  from Cons.IH [OF m(1)] obtain t where t: "kfor irqs picenable u = Ret () t" "masks_set t"
    "\<forall>i < 16. bit (irqmask t) i \<longleftrightarrow> bit (irqmask u) i \<and> i \<notin> set irqs" by blast
  have "picenable irq s = Ret () u" using u by (simp add: picenable_def)
  then have "kfor (irq # irqs) picenable s = Ret () t" using t(1) by simp
  moreover have "\<forall>i < 16. bit (irqmask t) i \<longleftrightarrow> bit (irqmask s) i \<and> i \<notin> set (irq # irqs)"
    using t(3) m(2) by (auto simp: bit_simps)
  ultimately show ?case using t(2) by blast
qed simp

lemma picinit_masks:
  assumes "irqmask s \<noteq> 0xFFFF"
  shows "\<exists>t. picinit s = Ret () t \<and> masks_set t \<and> irqmask t = irqmask s"
proof -
  obtain u where u: "outbs
     [(IO_PIC1 + 1, 0xFF), (IO_PIC2 + 1, 0xFF),
      (IO_PIC1, 0x11), (IO_PIC1 + 1, ucast T_IRQ0), (IO_PIC1 + 1, push_bit IRQ_SLAVE 1), (IO_PIC1 + 1, 0x3),
      (IO_PIC2, 0x11), (IO_PIC2 + 1, ucast T_IRQ0 + 8), (IO_PIC2 + 1, of_nat IRQ_SLAVE), (IO_PIC2 + 1, 0x3),
      (IO_PIC1, 0x68), (IO_PIC1, 0x0a), (IO_PIC2, 0x68), (IO_PIC2, 0x0a)] s = Ret () u" "irqmask u = irqmask s"
    by (simp add: outbs_apply)
  moreover obtain t where "picsetmask (irqmask s) u = Ret () t" by (simp add: picsetmask_apply)
  ultimately show ?thesis
    using assms masks_set_after [of "irqmask s" u t] unfolding picinit_def by (simp del: outbs.simps)
qed

text \<open>
  After \<open>picinit\<close> and any calls of \<open>picenable\<close>, in any order, the mask registers of the two interrupt
  controllers let through exactly the lines that were enabled and the line that connects the
  second controller.
\<close>

lemma pic_lines:
  assumes "irqmask s = irqmask_start"
  shows "\<exists>t lo hi. kseq picinit (kfor irqs picenable) s = Ret () t
    \<and> port_value (io_log t) 0x21 = Some lo \<and> port_value (io_log t) 0xA1 = Some hi
    \<and> (\<forall>i < 8. bit lo i \<longleftrightarrow> i \<noteq> 2 \<and> i \<notin> set irqs) \<and> (\<forall>i < 8. bit hi i \<longleftrightarrow> i + 8 \<notin> set irqs)"
proof -
  have b: "bit irqmask_start i \<longleftrightarrow> i \<noteq> 2" if "i < 16" for i
  proof -
    have "irqmask_start = NOT (push_bit 2 1)" by (simp add: irqmask_start_def IRQ_SLAVE_def)
    then have "bit irqmask_start i = bit (NOT (push_bit 2 (1 :: u16))) i" by (rule arg_cong)
    then show ?thesis using that by (simp only: bit_simps) auto
  qed
  have "irqmask s \<noteq> 0xFFFF" using assms by (simp add: irqmask_start_def IRQ_SLAVE_def)
  then obtain u where u: "picinit s = Ret () u" "masks_set u" "irqmask u = irqmask_start"
    using picinit_masks assms by metis
  then obtain t where t: "kfor irqs picenable u = Ret () t" "masks_set t"
    "\<forall>i < 16. bit (irqmask t) i \<longleftrightarrow> bit irqmask_start i \<and> i \<notin> set irqs" using picenable_all [OF u(2)] by metis
  have "kseq picinit (kfor irqs picenable) s = Ret () t" using u(1) t(1) by simp
  moreover have "port_value (io_log t) 0x21 = Some (ucast (irqmask t))"
    "port_value (io_log t) 0xA1 = Some (ucast (drop_bit 8 (irqmask t)))"
    using t(2) by (simp_all add: masks_set_def IO_PIC1_def IO_PIC2_def)
  moreover have "\<forall>i < 8. bit (ucast (irqmask t) :: u8) i \<longleftrightarrow> i \<noteq> 2 \<and> i \<notin> set irqs" using t(3) b by (auto simp: bit_simps)
  moreover have "\<forall>i < 8. bit (ucast (drop_bit 8 (irqmask t)) :: u8) i \<longleftrightarrow> i + 8 \<notin> set irqs"
    using t(3) b by (auto simp: bit_simps add.commute)
  ultimately show ?thesis by blast
qed

definition io_start :: io_st where
  "io_start = \<lparr>io_dev = \<lambda>_ _. 0x170000, io_sector = \<lambda>_ _. 0, io_log = [], io_budget = 10, irqmask = irqmask_start,
     p_ismp = True, p_lapic = True, p_uart = False, io_mem = \<lambda>_. 0\<rparr>"

lemma pic_lines_witness:
  "\<exists>t lo. kseq picinit (kfor [0, 1, 14] picenable) io_start = Ret () t \<and> port_value (io_log t) 0x21 = Some lo
     \<and> (\<forall>i < 8. bit lo i \<longleftrightarrow> i \<noteq> 2 \<and> i \<notin> set [0, 1, 14])"
  using pic_lines [of io_start "[0, 1, 14]"] by (auto simp: io_start_def)

subsection \<open>The redirection table\<close>

lemma ioapicwrite_apply: "ioapicwrite r d s = Ret () (s\<lparr>io_log := io_log s @ [IoapicReg r, IoapicW d]\<rparr>)"
  by (simp add: ioapicwrite_def)

lemma ioapic_regs_write: "ioapic_regs (l @ [IoapicReg r, IoapicW d]) = (ioapic_regs l)(r := d)"
  by (simp add: apic_step_def)

definition clear_entry :: "nat \<Rightarrow> io list" where
  "clear_entry i = [IoapicReg (REG_TABLE + 2 * of_nat i), IoapicW (INT_DISABLED OR (T_IRQ0 + of_nat i))]
     @ [IoapicReg (REG_TABLE + 2 * of_nat i + 1), IoapicW 0]"

lemma clear_entries_log:
  "kfor [0..<n] (\<lambda>i. kseq (ioapicwrite (REG_TABLE + 2 * of_nat i) (INT_DISABLED OR (T_IRQ0 + of_nat i)))
        (ioapicwrite (REG_TABLE + 2 * of_nat i + 1) 0)) s
   = Ret () (s\<lparr>io_log := io_log s @ concat (map clear_entry [0..<n])\<rparr>)"
  by (induction n) (simp_all add: kfor_append ioapicwrite_apply clear_entry_def)

lemma table_entries_apart:
  assumes "i < 256" "j < 256"
  shows "REG_TABLE + 2 * of_nat i \<noteq> REG_TABLE + 2 * of_nat j + (1 :: u32)"
    and "REG_TABLE + 2 * of_nat j + (1 :: u32) \<noteq> REG_TABLE + 2 * of_nat i"
    and "REG_TABLE + 2 * (of_nat i :: u32) = REG_TABLE + 2 * of_nat j \<longleftrightarrow> i = j"
    and "REG_TABLE + 2 * of_nat i + (1 :: u32) = REG_TABLE + 2 * of_nat j + 1 \<longleftrightarrow> i = j"
proof -
  have u: "unat (REG_TABLE + 2 * of_nat k :: u32) = 16 + 2 * k" "unat (REG_TABLE + 2 * of_nat k + 1 :: u32) = 17 + 2 * k" if "k < 256" for k
    using that by (simp_all add: REG_TABLE_def unat_word_ariths unat_of_nat)
  note ui = u [OF assms(1)] and uj = u [OF assms(2)]
  have "16 + 2 * i \<noteq> 17 + 2 * j" by presburger
  then show "REG_TABLE + 2 * of_nat i \<noteq> REG_TABLE + 2 * of_nat j + (1 :: u32)"
    "REG_TABLE + 2 * of_nat j + (1 :: u32) \<noteq> REG_TABLE + 2 * of_nat i" using ui(1) uj(2) by metis+
  have "16 + 2 * i = 16 + 2 * j \<longleftrightarrow> i = j" "17 + 2 * i = 17 + 2 * j \<longleftrightarrow> i = j" by simp_all
  then show "REG_TABLE + 2 * (of_nat i :: u32) = REG_TABLE + 2 * of_nat j \<longleftrightarrow> i = j"
    "REG_TABLE + 2 * of_nat i + (1 :: u32) = REG_TABLE + 2 * of_nat j + 1 \<longleftrightarrow> i = j" using ui uj by metis+
qed

lemma clear_entries_regs:
  assumes "n \<le> 256" "i < n"
  shows "ioapic_regs (l @ concat (map clear_entry [0..<n])) (REG_TABLE + 2 * of_nat i) = INT_DISABLED OR (T_IRQ0 + of_nat i)
    \<and> ioapic_regs (l @ concat (map clear_entry [0..<n])) (REG_TABLE + 2 * of_nat i + 1) = 0"
  using assms
proof (induction n)
  case (Suc n)
  let ?l = "l @ concat (map clear_entry [0..<n])"
  have e: "ioapic_regs (?l @ clear_entry n)
      = (ioapic_regs ?l)(REG_TABLE + 2 * of_nat n := INT_DISABLED OR (T_IRQ0 + of_nat n), REG_TABLE + 2 * of_nat n + 1 := 0)"
    by (simp add: clear_entry_def apic_step_def)
  have a: "l @ concat (map clear_entry [0..<Suc n]) = ?l @ clear_entry n" by simp
  have lt: "i < 256" "n < 256" using Suc.prems by simp_all
  note ap = table_entries_apart [OF lt] table_entries_apart [OF lt(2,1)] table_entries_apart [OF lt(2,2)]
  show ?case
  proof (cases "i = n")
    case True
    then show ?thesis unfolding a e by (simp only: fun_upd_apply ap if_True if_False simp_thms)
  next
    case False
    then have "i < n" using Suc.prems by simp
    then show ?thesis using Suc.IH Suc.prems False unfolding a e by (simp only: fun_upd_apply ap if_False simp_thms)
  qed
qed simp

text \<open>
  With an I/O APIC of \<open>n + 1\<close> lines, \<open>ioapicinit\<close> followed by \<open>ioapicenable\<close> for one line leaves every
  line disabled, with its own vector and no processor, except the one that was enabled, which goes
  to the given processor.
\<close>

lemma ioapic_routes:
  assumes "p_ismp s" and n: "n = drop_bit 16 (io_dev s (io_log s @ [IoapicReg REG_VER]) IoapicR) AND 0xFF"
    and irq: "irq \<le> unat n" and i: "i \<le> unat n"
  shows "\<exists>t. kseq ioapicinit (ioapicenable (of_nat irq) cpu) s = Ret () t
    \<and> ioapic_regs (io_log t) (REG_TABLE + 2 * of_nat i) = (if i = irq then T_IRQ0 + of_nat i else INT_DISABLED OR (T_IRQ0 + of_nat i))
    \<and> ioapic_regs (io_log t) (REG_TABLE + 2 * of_nat i + 1) = (if i = irq then push_bit 24 cpu else 0)"
proof -
  have "n \<le> 0xFF" unfolding n by (rule word_and_le1)
  then have m: "unat n < 256" by (simp add: word_le_nat_alt)
  let ?l = "io_log s @ [IoapicReg REG_VER, IoapicR, IoapicReg REG_ID, IoapicR]"
  let ?l2 = "?l @ concat (map clear_entry [0..<Suc (unat n)])"
  let ?l3 = "(?l2 @ [IoapicReg (REG_TABLE + 2 * of_nat irq), IoapicW (T_IRQ0 + of_nat irq)])
     @ [IoapicReg (REG_TABLE + 2 * of_nat irq + 1), IoapicW (push_bit 24 cpu)]"
  have "ioapicinit s = Ret () (s\<lparr>io_log := ?l2\<rparr>)"
    using assms(1) by (simp add: ioapicinit_def ioapicread_def clear_entries_log Let_def n [symmetric] del: upt_Suc)
  then have run: "kseq ioapicinit (ioapicenable (of_nat irq) cpu) s = Ret () (s\<lparr>io_log := ?l3\<rparr>)"
    using assms(1) by (simp add: ioapicenable_def ioapicwrite_apply)
  have regs: "ioapic_regs ?l3 = (ioapic_regs ?l2)(REG_TABLE + 2 * of_nat irq := T_IRQ0 + of_nat irq,
      REG_TABLE + 2 * of_nat irq + 1 := push_bit 24 cpu)"
    by (simp only: ioapic_regs_write)
  have lt: "i < 256" "irq < 256" using i irq m by simp_all
  note ap = table_entries_apart [OF lt] table_entries_apart [OF lt(2,1)] table_entries_apart [OF lt(2,2)]
  have c: "ioapic_regs ?l2 (REG_TABLE + 2 * of_nat i) = INT_DISABLED OR (T_IRQ0 + of_nat i)
    \<and> ioapic_regs ?l2 (REG_TABLE + 2 * of_nat i + 1) = 0"
    using clear_entries_regs [of "Suc (unat n)" i ?l] i m by (simp del: upt_Suc ioapic_state_append)
  have "ioapic_regs ?l3 (REG_TABLE + 2 * of_nat i) = (if i = irq then T_IRQ0 + of_nat i else INT_DISABLED OR (T_IRQ0 + of_nat i))
    \<and> ioapic_regs ?l3 (REG_TABLE + 2 * of_nat i + 1) = (if i = irq then push_bit 24 cpu else 0)"
    unfolding regs by (cases "i = irq") (simp_all only: fun_upd_apply ap c if_True if_False simp_thms)
  then show ?thesis using run by (intro exI [of _ "s\<lparr>io_log := ?l3\<rparr>"]) simp
qed

lemma ioapic_routes_witness:
  "\<exists>t. kseq ioapicinit (ioapicenable 4 0) io_start = Ret () t
    \<and> ioapic_regs (io_log t) (REG_TABLE + 2 * of_nat 14) = INT_DISABLED OR (T_IRQ0 + of_nat 14)"
proof -
  have "unat (drop_bit 16 (io_dev io_start (io_log io_start @ [IoapicReg REG_VER]) IoapicR) AND 0xFF) = 23"
    by (simp add: io_start_def)
  then show ?thesis
    using ioapic_routes [of io_start "drop_bit 16 (io_dev io_start (io_log io_start @ [IoapicReg REG_VER]) IoapicR) AND 0xFF" 4 14 0]
    by (auto simp: io_start_def)
qed

end
