(* ===== verification/Ide.thy ===== *)
theory Ide
  imports Bio Ptable Ports
begin

unbundle bit_operations_syntax

section \<open>ide.c: the interrupt-driven disk driver\<close>

text \<open>
  \<^verbatim>\<open>src/ide.c\<close>, the driver with the interface of the memory disk of \<open>Bio\<close>. \<open>idequeue\<close> and the field
  \<open>qnext\<close> of the buffers are the linked list of the source. The ports of the disk are in \<open>ide_io\<close>.
\<close>

record ide_st = bio_st +
  idequeue :: "nat option"
  qnext :: "nat \<Rightarrow> nat option"
  havedisk1 :: bool
  ide_io :: io_st

definition on_io :: "(io_st, 'a) kern \<Rightarrow> ('x ide_st_scheme, 'a) kern" where
  "on_io m = (\<lambda>s. case m (ide_io s) of
       Ret x t \<Rightarrow> Ret x (s\<lparr>ide_io := t\<rparr>)
     | Switch t \<Rightarrow> Switch (s\<lparr>ide_io := t\<rparr>)
     | Panic e \<Rightarrow> Panic e
     | Fault e \<Rightarrow> Fault e)"

datatype ide_code = IDE_BSY | IDE_DRDY | IDE_DF | IDE_ERR | IDE_CMD_READ | IDE_CMD_WRITE

primrec ide_bits :: "ide_code \<Rightarrow> u8" where
  "ide_bits IDE_BSY = 0x80"
| "ide_bits IDE_DRDY = 0x40"
| "ide_bits IDE_DF = 0x20"
| "ide_bits IDE_ERR = 0x01"
| "ide_bits IDE_CMD_READ = 0x20"
| "ide_bits IDE_CMD_WRITE = 0x30"

definition idewait :: "bool \<Rightarrow> (io_st, int) kern" where
  "idewait checkerr = kbind
     (spin (kbind (inb 0x1f7) (\<lambda>r. kret (if r AND (ide_bits IDE_BSY OR ide_bits IDE_DRDY) \<noteq> ide_bits IDE_DRDY then None else Some r)))) (\<lambda>r.
     if checkerr \<and> r AND (ide_bits IDE_DF OR ide_bits IDE_ERR) \<noteq> 0 then kret (-1) else kret 0)"

text \<open>The check for disk 1 reads the status at most 1000 times.\<close>

primrec ide_probe :: "nat \<Rightarrow> (io_st, bool) kern" where
  "ide_probe 0 = kret False"
| "ide_probe (Suc n) = kbind (inb 0x1f7) (\<lambda>b. if b \<noteq> 0 then kret True else ide_probe n)"

definition ideinit :: "u32 \<Rightarrow> ('x ide_st_scheme, unit) kern" where
  "ideinit ncpu =
     kseq (on_io (picenable (unat IRQ_IDE)))
    (kseq (on_io (ioapicenable IRQ_IDE (ncpu - 1)))
    (kseq (on_io (idewait False))
    (kseq (on_io (outb 0x1f6 (0xe0 OR push_bit 4 1)))
    (kbind (on_io (ide_probe 1000)) (\<lambda>found.
     kseq (kwhen found (kmod (\<lambda>s. s\<lparr>havedisk1 := True\<rparr>)))
      (on_io (outb 0x1f6 0xe0)))))))"

definition ide_command :: "u32 \<Rightarrow> u32 \<Rightarrow> bool \<Rightarrow> block \<Rightarrow> (io_st, unit) kern" where
  "ide_command dev sector dirty data =
     kseq (idewait False)
    (kseq (outb 0x3f6 0)
    (kseq (outb 0x1f2 1)
    (kseq (outb 0x1f3 (ucast (sector AND 0xff)))
    (kseq (outb 0x1f4 (ucast (drop_bit 8 sector AND 0xff)))
    (kseq (outb 0x1f5 (ucast (drop_bit 16 sector AND 0xff)))
    (kseq (outb 0x1f6 (0xe0 OR push_bit 4 (ucast dev AND 1) OR (ucast (drop_bit 24 sector) AND 0x0f)))
     (if dirty
      then kseq (outb 0x1f7 (ide_bits IDE_CMD_WRITE)) (outsl 0x1f0 data (512 div 4))
      else outb 0x1f7 (ide_bits IDE_CMD_READ))))))))"

definition idestart :: "nat option \<Rightarrow> ('x ide_st_scheme, unit) kern" where
  "idestart ob = (case ob of
       None \<Rightarrow> panic ''idestart''
     | Some b \<Rightarrow> kbind (kget (\<lambda>s. bufs s b)) (\<lambda>q.
         on_io (ide_command (b_dev q) (b_sector q) (b_dirty q) (b_data q))))"

definition ideintr :: "('x ide_st_scheme, unit) kern" where
  "ideintr = kseq (acquire IdeLock) (kbind (kget idequeue) (\<lambda>ob. case ob of
       None \<Rightarrow> release IdeLock
     | Some b \<Rightarrow>
         kseq (kmod (\<lambda>s. s\<lparr>idequeue := qnext s b\<rparr>))
        (kbind (kget (\<lambda>s. b_dirty (bufs s b))) (\<lambda>dirty.
         kseq (kwhen (\<not> dirty) (kbind (on_io (idewait True)) (\<lambda>r.
                kwhen (0 \<le> r) (kbind (on_io (insl 0x1f0 (512 div 4))) (\<lambda>d. upd_data b (\<lambda>_. d))))))
        (kseq (upd_buf b (\<lambda>q. q\<lparr>b_valid := True, b_dirty := False\<rparr>))
        (kseq (wakeup (ChanBuf b))
        (kseq (kbind (kget idequeue) (\<lambda>next. kwhen (next \<noteq> None) (idestart next)))
         (release IdeLock))))))))"

text \<open>The walk \<open>for(pp=&idequeue; *pp; pp=&(*pp)->qnext)\<close> behind buffer \<open>b\<close>; it need not end on a cyclic list.\<close>

partial_function (option) queue_last :: "(nat \<Rightarrow> nat option) \<Rightarrow> nat \<Rightarrow> nat option" where
  "queue_last next b = (case next b of None \<Rightarrow> Some b | Some c \<Rightarrow> queue_last next c)"

definition ide_enqueue :: "nat \<Rightarrow> ('x ide_st_scheme, unit) kern" where
  "ide_enqueue b =
     kseq (kmod (\<lambda>s. s\<lparr>qnext := (qnext s)(b := None)\<rparr>))
    (kseq (kbind (kget (\<lambda>s. (idequeue s, qnext s))) (\<lambda>(q, next). case q of
        None \<Rightarrow> kmod (\<lambda>s. s\<lparr>idequeue := Some b\<rparr>)
      | Some a \<Rightarrow>
          (case queue_last next a of
             None \<Rightarrow> (\<lambda>s. Switch s)
           | Some l \<Rightarrow> kmod (\<lambda>s. s\<lparr>qnext := (qnext s)(l := Some b)\<rparr>))))
     (kbind (kget idequeue) (\<lambda>q. kwhen (q = Some b) (idestart (Some b)))))"

definition ide_turn :: "'x ide_st_scheme env \<Rightarrow> nat \<Rightarrow> ('x ide_st_scheme, unit option) kern" where
  "ide_turn env b = kbind (kget (\<lambda>s. bufs s b)) (\<lambda>q.
     if b_valid q \<and> \<not> b_dirty q then kret (Some ())
     else kseq (sleep env (ChanBuf b) IdeLock) (kret None))"

definition ide_rw :: "'x ide_st_scheme env \<Rightarrow> nat \<Rightarrow> ('x ide_st_scheme, unit) kern" where
  "ide_rw env b = kbind (kget (\<lambda>s. bufs s b)) (\<lambda>q. kbind (kget havedisk1) (\<lambda>two.
     if \<not> b_busy q then panic ''iderw: buf not busy''
     else if b_valid q \<and> \<not> b_dirty q then panic ''iderw: nothing to do''
     else if b_dev q \<noteq> 0 \<and> \<not> two then panic ''iderw: ide disk 1 not present''
     else kseq (acquire IdeLock)
         (kseq (ide_enqueue b)
         (kseq (kretry (ide_turn env b)) (release IdeLock)))))"

subsection \<open>A disk that is ready\<close>

lemma on_io_Ret: "m (ide_io s) = Ret x t \<Longrightarrow> on_io m s = Ret x (s\<lparr>ide_io := t\<rparr>)"
  by (simp add: on_io_def)

text \<open>The status register says ready, without an error, whenever it is read.\<close>

definition disk_ready :: "io_st \<Rightarrow> bool" where
  "disk_ready s \<longleftrightarrow> 0 < io_budget s \<and> (\<forall>l. ucast (io_dev s l (Inb 0x1f7)) = ide_bits IDE_DRDY)"

lemma idewait_ready:
  assumes "disk_ready s"
  shows "idewait e s = Ret 0 (s\<lparr>io_log := io_log s @ [Inb 0x1f7]\<rparr>)"
proof -
  obtain n where "io_budget s = Suc n" using assms by (cases "io_budget s") (auto simp: disk_ready_def)
  moreover have "ucast (io_dev s (io_log s) (Inb 0x1f7)) = ide_bits IDE_DRDY" using assms by (simp add: disk_ready_def)
  ultimately show ?thesis
    by (simp add: idewait_def spin_def inb_def)
qed

text \<open>The registers of the disk hold the request for a buffer.\<close>

definition disk_has :: "io_st \<Rightarrow> buf \<Rightarrow> bool" where
  "disk_has s q \<longleftrightarrow> port_value (io_log s) 0x1f2 = Some 1
     \<and> port_value (io_log s) 0x1f3 = Some (ucast (b_sector q))
     \<and> port_value (io_log s) 0x1f4 = Some (ucast (drop_bit 8 (b_sector q)))
     \<and> port_value (io_log s) 0x1f5 = Some (ucast (drop_bit 16 (b_sector q)))
     \<and> port_value (io_log s) 0x1f6 = Some (0xe0 OR push_bit 4 (ucast (b_dev q) AND 1) OR (ucast (drop_bit 24 (b_sector q)) AND 0x0f))
     \<and> port_value (io_log s) 0x1f7 = Some (if b_dirty q then ide_bits IDE_CMD_WRITE else ide_bits IDE_CMD_READ)"

lemma ucast_low_byte: "(ucast (w AND 0xff) :: u8) = ucast (w :: u32)"
proof -
  have "w AND 0xff = take_bit 8 w" by (simp add: take_bit_eq_mask mask_eq_exp_minus_1)
  then show ?thesis by (simp only:) (rule bit_word_eqI, auto simp: bit_simps)
qed

lemma ide_command_ready:
  assumes "disk_ready s"
  shows "\<exists>t. ide_command (b_dev q) (b_sector q) (b_dirty q) (b_data q) s = Ret () t \<and> disk_ready t \<and> disk_has t q"
  using assms
  by (cases "b_dirty q")
    (simp_all add: ide_command_def idewait_ready outsl_def disk_has_def port_step_def ucast_low_byte, simp_all add: disk_ready_def)


subsection \<open>The queue\<close>

primrec chained :: "(nat \<Rightarrow> nat option) \<Rightarrow> nat option \<Rightarrow> nat list \<Rightarrow> bool" where
  "chained nx q [] = (q = None)"
| "chained nx q (b # bs) = (q = Some b \<and> chained nx (nx b) bs)"

lemma chained_cong: "(\<And>b. b \<in> set bs \<Longrightarrow> nx b = ny b) \<Longrightarrow> chained nx q bs = chained ny q bs"
  by (induction bs arbitrary: q) auto

lemma queue_last_chained: "chained nx (Some a) (a # as) \<Longrightarrow> queue_last nx a = Some (last (a # as))"
proof (induction as arbitrary: a)
  case Nil
  then show ?case by (subst queue_last.simps) simp
next
  case (Cons c as)
  then show ?case by (subst queue_last.simps) simp
qed

lemma chained_snoc:
  "chained nx q bs \<Longrightarrow> distinct bs \<Longrightarrow> b \<notin> set bs \<Longrightarrow> nx b = None \<Longrightarrow> bs \<noteq> [] \<Longrightarrow>
   chained (nx(last bs := Some b)) q (bs @ [b])"
proof (induction bs arbitrary: q)
  case (Cons a bs)
  show ?case
  proof (cases bs)
    case (Cons c cs)
    have "last bs \<in> set bs" using Cons by simp
    then have "last bs \<noteq> a" using Cons.prems(2) by auto
    then show ?thesis using Cons.IH [of "nx a"] Cons.prems Cons by simp
  qed (use Cons.prems in auto)
qed simp

text \<open>
  The buffers \<open>bs\<close> wait for the disk, in this order, and the disk works on the first.
\<close>

definition ide_ok :: "'x ide_st_scheme \<Rightarrow> nat list \<Rightarrow> bool" where
  "ide_ok s bs \<longleftrightarrow> chained (qnext s) (idequeue s) bs \<and> distinct bs \<and> disk_ready (ide_io s)
     \<and> (bs \<noteq> [] \<longrightarrow> disk_has (ide_io s) (bufs s (hd bs)))"

lemma idestart_ready:
  assumes "disk_ready (ide_io s)"
  shows "\<exists>t. idestart (Some b) s = Ret () (s\<lparr>ide_io := t\<rparr>) \<and> disk_ready t \<and> disk_has t (bufs s b)"
  using ide_command_ready [OF assms, of "bufs s b"] on_io_Ret unfolding idestart_def by fastforce

lemma ide_enqueue_ok:
  assumes ok: "ide_ok s bs" and b: "b \<notin> set bs"
  shows "\<exists>t. ide_enqueue b s = Ret () t \<and> ide_ok t (bs @ [b]) \<and> bufs t = bufs s \<and> held t = held s \<and> ptable t = ptable s"
proof -
  let ?nx = "(qnext s)(b := None)"
  have e: "chained ?nx (idequeue s) bs = chained (qnext s) (idequeue s) bs" by (rule chained_cong) (use b in auto)
  have c: "chained ?nx (idequeue s) bs" "distinct bs" "disk_ready (ide_io s)" "bs \<noteq> [] \<longrightarrow> disk_has (ide_io s) (bufs s (hd bs))"
    using ok e by (simp_all add: ide_ok_def)
  show ?thesis
  proof (cases bs)
    case Nil
    let ?s = "s\<lparr>qnext := ?nx, idequeue := Some b\<rparr>"
    obtain t where "idestart (Some b) ?s = Ret () (?s\<lparr>ide_io := t\<rparr>)" "disk_ready t" "disk_has t (bufs s b)"
      using idestart_ready [of ?s b] c(3) by auto
    then show ?thesis using Nil c(1) by (simp add: ide_enqueue_def ide_ok_def)
  next
    case (Cons a as)
    have q: "idequeue s = Some a" "queue_last ?nx a = Some (last bs)" using c(1) queue_last_chained [of ?nx a as] Cons by auto
    have "last bs \<noteq> b" "a \<noteq> b" using b Cons by (metis last_in_set list.distinct(1), auto)
    moreover have "chained (?nx(last bs := Some b)) (idequeue s) (bs @ [b])" using chained_snoc [OF c(1,2) b] Cons by simp
    ultimately show ?thesis using q b c Cons by (simp add: ide_enqueue_def ide_ok_def)
  qed
qed

text \<open>A buffer when its request is done: what was to be written is kept, what was to be read has come from the disk.\<close>

definition ide_answer :: "'x ide_st_scheme \<Rightarrow> buf \<Rightarrow> buf" where
  "ide_answer s q = (if b_dirty q then q
     else q\<lparr>b_data := io_sector (ide_io s) (io_log (ide_io s) @ [Inb 0x1f7])\<rparr>)\<lparr>b_valid := True, b_dirty := False\<rparr>"

lemma ideintr_ok:
  assumes ok: "ide_ok s (b # bs)" and l: "IdeLock \<notin> set (held s)" "PtableLock \<notin> set (held s)"
  shows "\<exists>t. ideintr s = Ret () t \<and> ide_ok t bs \<and> held t = held s \<and> bufs t = (bufs s)(b := ide_answer s (bufs s b))
    \<and> ptable t = wake_table (ChanBuf b) (ptable s)"
proof -
  have c: "idequeue s = Some b" "chained (qnext s) (qnext s b) bs" "b \<notin> set bs" "distinct bs" "disk_ready (ide_io s)"
    using ok by (simp_all add: ide_ok_def)
  let ?io = "if b_dirty (bufs s b) then ide_io s
     else (ide_io s)\<lparr>io_log := io_log (ide_io s) @ [Inb 0x1f7, Insl 0x1f0 (512 div 4)]\<rparr>"
  let ?w = "s\<lparr>held := IdeLock # held s, idequeue := qnext s b, ide_io := ?io,
     bufs := (bufs s)(b := ide_answer s (bufs s b)), ptable := wake_table (ChanBuf b) (ptable s)\<rparr>"
  let ?rest = "kseq (kbind (kget idequeue) (\<lambda>next. kwhen (next \<noteq> None) (idestart next))) (release IdeLock)"
  have run: "ideintr s = ?rest ?w"
    using c(1,5) l
    by (cases "b_dirty (bufs s b)")
      (simp_all add: ideintr_def on_io_def idewait_ready insl_def wakeup_eq ide_answer_def)
  have ready: "disk_ready ?io" using c(5) by (simp add: disk_ready_def)
  show ?thesis
  proof (cases bs)
    case Nil
    then show ?thesis using run c l ready by (simp add: ide_ok_def)
  next
    case (Cons a as)
    obtain t where t: "idestart (Some a) ?w = Ret () (?w\<lparr>ide_io := t\<rparr>)" "disk_ready t" "disk_has t (bufs ?w a)"
      using idestart_ready [of ?w a] ready by auto
    have "bufs ?w a = bufs s a" using c(3) Cons by auto
    moreover have "?rest ?w = Ret () (?w\<lparr>ide_io := t, held := held s\<rparr>)" using t(1) c(2) Cons by simp
    ultimately show ?thesis using run t(2,3) c Cons by (simp add: ide_ok_def)
  qed
qed





definition ide_sample :: ide_st where
  "ide_sample = bio_st.extend (proc_st.extend boot_st (bio_st.fields
       (\<lambda>_. \<lparr>b_busy = True, b_valid = False, b_dirty = False, b_dev = 1, b_sector = 700, b_data = zero_block\<rparr>)
       [] (\<lambda>_. zero_block) 1000 []))
     (ide_st.fields None (\<lambda>_. None) True (io_start\<lparr>io_dev := \<lambda>_ _. 0x40\<rparr>))"

lemma ide_sample_ok: "ide_ok ide_sample []" "held ide_sample = []"
  by (simp_all add: ide_sample_def ide_ok_def disk_ready_def io_start_def boot_st_def
      bio_st.defs proc_st.defs ide_st.defs)



end
