(* ===== verification/Umalloc.thy ===== *)
theory Umalloc
  imports Bytes
begin

section \<open>umalloc.c: the allocator of user programs\<close>

text \<open>
  \<^verbatim>\<open>src/umalloc.c\<close>. A header is named by its address, and its two fields are functions of the address.
  Sizes count units of 8 bytes, the size of a header, and wrap at 32 bits. \<open>base\<close>, the address of the
  static header, and \<open>sbrk\<close> are arguments: \<open>sbrk\<close> answers from the requests so far and the request,
  \<open>None\<close> standing for -1. \<open>um_freep\<close> is \<open>None\<close> for the null pointer. The loops over the ring of free
  blocks need not end on a broken ring, so their value is an option.
\<close>

record um_st =
  um_ptr :: "nat \<Rightarrow> nat"
  um_size :: "nat \<Rightarrow> u32"
  um_freep :: "nat option"
  um_log :: "u32 list"

type_synonym um_sbrk = "u32 list \<Rightarrow> u32 \<Rightarrow> nat option"

definition units :: "u32 \<Rightarrow> nat" where "units n = 8 * unat n"

text \<open>The header before which \<open>free\<close> stops its search from \<open>p\<close>.\<close>

partial_function (option) free_find :: "um_st \<Rightarrow> nat \<Rightarrow> nat \<Rightarrow> nat option" where
  "free_find s bp p =
     (if p < bp \<and> bp < um_ptr s p then Some p
      else if um_ptr s p \<le> p \<and> (p < bp \<or> bp < um_ptr s p) then Some p
      else free_find s bp (um_ptr s p))"

definition set_ptr :: "nat \<Rightarrow> nat \<Rightarrow> um_st \<Rightarrow> um_st" where
  "set_ptr a p s = s\<lparr>um_ptr := (um_ptr s)(a := p)\<rparr>"

definition set_size :: "nat \<Rightarrow> u32 \<Rightarrow> um_st \<Rightarrow> um_st" where
  "set_size a n s = s\<lparr>um_size := (um_size s)(a := n)\<rparr>"

definition join_upper :: "nat \<Rightarrow> nat \<Rightarrow> um_st \<Rightarrow> um_st" where
  "join_upper bp p s =
     (if bp + units (um_size s bp) = um_ptr s p
      then let s = set_size bp (um_size s bp + um_size s (um_ptr s p)) s in
        set_ptr bp (um_ptr s (um_ptr s p)) s
      else set_ptr bp (um_ptr s p) s)"

definition join_lower :: "nat \<Rightarrow> nat \<Rightarrow> um_st \<Rightarrow> um_st" where
  "join_lower bp p s =
     (if p + units (um_size s p) = bp
      then let s = set_size p (um_size s p + um_size s bp) s in set_ptr p (um_ptr s bp) s
      else set_ptr p bp s)"

definition ufree :: "nat \<Rightarrow> um_st \<Rightarrow> um_st option" where
  "ufree ap s = (let bp = ap - 8 in
     case um_freep s of
       None \<Rightarrow> None
     | Some p0 \<Rightarrow>
         (case free_find s bp p0 of
            None \<Rightarrow> None
          | Some p \<Rightarrow> Some ((join_lower bp p (join_upper bp p s))\<lparr>um_freep := Some p\<rparr>)))"

definition morecore :: "um_sbrk \<Rightarrow> u32 \<Rightarrow> um_st \<Rightarrow> (nat option \<times> um_st) option" where
  "morecore sbrk nu s =
     (let nu = (if nu < 4096 then 4096 else nu); p = sbrk (um_log s) (nu * 8);
          s = s\<lparr>um_log := um_log s @ [nu * 8]\<rparr> in
      case p of
        None \<Rightarrow> Some (None, s)
      | Some hp \<Rightarrow>
          (case ufree (hp + 8) (set_size hp nu s) of None \<Rightarrow> None | Some s \<Rightarrow> Some (um_freep s, s)))"

text \<open>Taking \<open>nunits\<close> from the block \<open>p\<close> behind \<open>prevp\<close>: the whole block, or its tail.\<close>

definition take_block :: "u32 \<Rightarrow> nat \<Rightarrow> nat \<Rightarrow> um_st \<Rightarrow> nat \<times> um_st" where
  "take_block nunits prevp p s =
     (if um_size s p = nunits
      then (p + 8, (set_ptr prevp (um_ptr s p) s)\<lparr>um_freep := Some prevp\<rparr>)
      else let s = set_size p (um_size s p - nunits) s; p = p + units (um_size s p) in
        (p + 8, (set_size p nunits s)\<lparr>um_freep := Some prevp\<rparr>))"

partial_function (option) malloc_loop :: "um_sbrk \<Rightarrow> u32 \<Rightarrow> nat \<Rightarrow> nat \<Rightarrow> um_st \<Rightarrow> (nat option \<times> um_st) option" where
  "malloc_loop sbrk nunits prevp p s =
     (if nunits \<le> um_size s p
      then (case take_block nunits prevp p s of (r, s) \<Rightarrow> Some (Some r, s))
      else if um_freep s = Some p then
        (case morecore sbrk nunits s of
           None \<Rightarrow> None
         | Some (q, s) \<Rightarrow>
             (case q of None \<Rightarrow> Some (None, s) | Some p \<Rightarrow> malloc_loop sbrk nunits p (um_ptr s p) s))
      else malloc_loop sbrk nunits p (um_ptr s p) s)"

definition malloc_units :: "u32 \<Rightarrow> u32" where
  "malloc_units nbytes = (nbytes + 8 - 1) div 8 + 1"

definition malloc :: "um_sbrk \<Rightarrow> nat \<Rightarrow> u32 \<Rightarrow> um_st \<Rightarrow> (nat option \<times> um_st) option" where
  "malloc sbrk base nbytes s =
     (let nunits = malloc_units nbytes;
          s = (case um_freep s of
                 Some _ \<Rightarrow> s
               | None \<Rightarrow> set_size base 0 ((set_ptr base base s)\<lparr>um_freep := Some base\<rparr>)) in
      case um_freep s of None \<Rightarrow> None | Some prevp \<Rightarrow> malloc_loop sbrk nunits prevp (um_ptr s prevp) s)"

lemma set_sel [simp]:
  "um_ptr (set_ptr a p s) = (um_ptr s)(a := p)" "um_size (set_ptr a p s) = um_size s"
  "um_ptr (set_size a n s) = um_ptr s" "um_size (set_size a n s) = (um_size s)(a := n)"
  "um_freep (set_ptr a p s) = um_freep s" "um_freep (set_size a n s) = um_freep s"
  "um_log (set_ptr a p s) = um_log s" "um_log (set_size a n s) = um_log s"
  by (simp_all add: set_ptr_def set_size_def)

subsection \<open>The ring of free blocks\<close>

text \<open>\<open>linked s xs z\<close>: every header of \<open>xs\<close> points to the next one, and the last to \<open>z\<close>.\<close>

primrec linked :: "um_st \<Rightarrow> nat list \<Rightarrow> nat \<Rightarrow> bool" where
  "linked s [] z = True"
| "linked s (x # xs) z = (um_ptr s x = hd (xs @ [z]) \<and> linked s xs z)"

lemma linked_append: "linked s (xs @ ys) z \<longleftrightarrow> linked s xs (hd (ys @ [z])) \<and> linked s ys z"
  by (induction xs) (auto simp: hd_append)

lemma linked_cong: "(\<And>x. x \<in> set xs \<Longrightarrow> um_ptr t x = um_ptr s x) \<Longrightarrow> linked t xs z = linked s xs z"
  by (induction xs) auto

definition um_end :: "um_st \<Rightarrow> nat \<Rightarrow> nat" where "um_end s a = a + units (um_size s a)"

definition um_block :: "um_st \<Rightarrow> nat \<Rightarrow> nat set" where "um_block s a = {a ..< um_end s a}"

text \<open>
  The free blocks \<open>hs\<close> in the order of their addresses, behind \<open>base\<close>, which has size 0: they
  form a ring with \<open>base\<close>, none is empty, no two touch, and \<open>freep\<close> is in the ring.
\<close>

definition um_ok :: "um_st \<Rightarrow> nat \<Rightarrow> nat list \<Rightarrow> bool" where
  "um_ok s base hs \<longleftrightarrow> linked s (base # hs) base \<and> um_size s base = 0
     \<and> sorted_wrt (\<lambda>x y. um_end s x < y) (base # hs) \<and> (\<forall>a \<in> set hs. 0 < um_size s a \<and> um_end s a \<le> 2 ^ 32)
     \<and> um_freep s \<in> Some ` set (base # hs)"

definition um_free_bytes :: "um_st \<Rightarrow> nat list \<Rightarrow> nat set" where
  "um_free_bytes s hs = (\<Union>a \<in> set hs. um_block s a)"

lemma um_end_base: "um_size s a = 0 \<Longrightarrow> um_end s a = a"
  by (simp add: um_end_def units_def)

lemma um_end_less: "0 < um_size s a \<Longrightarrow> a < um_end s a"
  by (simp add: um_end_def units_def word_less_nat_alt)

lemma um_end_le: "a \<le> um_end s a"
  by (simp add: um_end_def)

subsection \<open>The search of free\<close>

lemma free_find_stop:
  "p < bp \<Longrightarrow> bp < um_ptr s p \<or> um_ptr s p \<le> p \<Longrightarrow> free_find s bp p = Some p"
  by (subst free_find.simps) auto

lemma free_find_below:
  assumes "q < bp"
  shows "sorted_wrt (<) (xs @ [q]) \<Longrightarrow> linked s xs q \<Longrightarrow> p \<in> set (xs @ [q]) \<Longrightarrow> free_find s bp p = free_find s bp q"
proof (induction xs arbitrary: p)
  case (Cons x xs)
  show ?case
  proof (cases "p = x")
    case True
    have n: "um_ptr s x \<in> set (xs @ [q])" using Cons.prems(2) by (cases xs) auto
    then have "x < um_ptr s x" "um_ptr s x \<le> q" using Cons.prems(1) by (auto simp: sorted_wrt_append)
    then have "free_find s bp x = free_find s bp (um_ptr s x)" using assms by (subst free_find.simps) auto
    then show ?thesis using Cons.IH [OF _ _ n] Cons.prems True by simp
  next
    case False
    then show ?thesis using Cons.prems by (intro Cons.IH) auto
  qed
qed simp

lemma free_find_above:
  assumes "base < bp"
  shows "sorted_wrt (<) ys \<Longrightarrow> linked s ys base \<Longrightarrow> \<forall>y \<in> set ys. bp < y \<Longrightarrow> p \<in> set ys \<Longrightarrow>
    free_find s bp p = free_find s bp base"
proof (induction ys arbitrary: p)
  case (Cons y ys)
  show ?case
  proof (cases "p = y")
    case True
    have "\<not> y < bp" "um_ptr s y \<le> y \<Longrightarrow> \<not> bp < um_ptr s y" using Cons.prems assms by (cases ys; auto)+
    then have "free_find s bp y = free_find s bp (um_ptr s y)" by (subst free_find.simps) auto
    moreover have "free_find s bp (um_ptr s y) = free_find s bp base"
      using Cons.IH [of "um_ptr s y"] Cons.prems by (cases ys) auto
    ultimately show ?thesis using True by simp
  next
    case False
    then show ?thesis using Cons.prems by (intro Cons.IH) auto
  qed
qed simp

lemma free_find_gap:
  assumes r: "base # hs = xs @ p # ys" "linked s (base # hs) base" "sorted_wrt (<) (base # hs)"
    and bp: "p < bp" "\<forall>y \<in> set ys. bp < y" and f: "f \<in> set (base # hs)"
  shows "free_find s bp f = Some p"
proof -
  have l: "linked s xs p" "linked s (p # ys) base" using r(1,2) by (simp_all only: linked_append) simp_all
  have o: "sorted_wrt (<) (xs @ [p])" "sorted_wrt (<) ys" using r(1,3) by (auto simp: sorted_wrt_append)
  have b: "base \<in> set (xs @ [p])" using r(1) by (cases xs) auto
  then have "base \<le> p" using o(1) by (auto simp: sorted_wrt_append)
  have stop: "free_find s bp p = Some p"
    using l(2) bp \<open>base \<le> p\<close> by (intro free_find_stop) (cases ys; auto)+
  show ?thesis
  proof (cases "f \<in> set ys")
    case True
    then have "free_find s bp f = free_find s bp base"
      using free_find_above [OF _ o(2) _ bp(2)] l(2) bp(1) \<open>base \<le> p\<close> by auto
    then show ?thesis using free_find_below [OF bp(1) o(1) l(1) b] stop by simp
  next
    case False
    then have "f \<in> set (xs @ [p])" using f unfolding r(1) by auto
    then show ?thesis using free_find_below [OF bp(1) o(1) l(1)] stop by simp
  qed
qed

subsection \<open>Joining blocks\<close>

lemma units_add: "units a + units b \<le> 2 ^ 32 \<Longrightarrow> units (a + b) = units a + units b"
  by (simp add: units_def unat_word_ariths)

lemma size_add_pos: "0 < a \<Longrightarrow> units a + units b \<le> 2 ^ 32 \<Longrightarrow> 0 < a + b"
  using units_add [of a b] by (auto simp: units_def word_less_nat_alt)

lemma join_upper_ok:
  assumes l: "um_ptr s p = hd (ys @ [base])" "linked s ys base" "p \<noteq> bp" "bp \<notin> set ys" "base < bp"
    and o: "sorted_wrt (\<lambda>x y. um_end s x < y) ys" "\<forall>y \<in> set ys. um_end s bp \<le> y"
    and z: "\<forall>a \<in> set (bp # ys). 0 < um_size s a \<and> um_end s a \<le> 2 ^ 32"
  defines "t \<equiv> join_upper bp p s"
  shows "\<exists>zs. linked t (bp # zs) base \<and> sorted_wrt (\<lambda>x y. um_end t x < y) (bp # zs) \<and> set zs \<subseteq> set ys
    \<and> (\<Union>a \<in> set (bp # zs). um_block t a) = um_block s bp \<union> (\<Union>a \<in> set ys. um_block s a)
    \<and> (\<forall>a \<in> set (bp # zs). 0 < um_size t a \<and> um_end t a \<le> 2 ^ 32)
    \<and> (\<forall>a. a \<noteq> bp \<longrightarrow> um_size t a = um_size s a \<and> um_ptr t a = um_ptr s a) \<and> um_freep t = um_freep s"
proof (cases "um_end s bp = um_ptr s p")
  case True
  have bl: "bp < um_end s bp" using z um_end_less by simp
  then obtain y zs where ys: "ys = y # zs" and y: "um_end s bp = y"
    using True l(1,5) by (cases ys) auto
  have t: "t = set_ptr bp (um_ptr s y) (set_size bp (um_size s bp + um_size s y) s)"
    using True l(1) y by (simp add: t_def join_upper_def um_end_def Let_def ys)
  have "um_end s y \<le> 2 ^ 32" "0 < um_size s bp" using z ys by auto
  then have e: "um_end t bp = um_end s y" and pos: "0 < um_size t bp"
    using units_add [of "um_size s bp" "um_size s y"] size_add_pos [of "um_size s bp" "um_size s y"] y
    by (simp_all add: t um_end_def)
  have oth: "a \<noteq> bp \<Longrightarrow> um_size t a = um_size s a \<and> um_ptr t a = um_ptr s a \<and> um_end t a = um_end s a
      \<and> um_block t a = um_block s a" for a
    by (simp add: t um_end_def um_block_def)
  have nb: "a \<noteq> bp" if "a \<in> set ys" for a using that l(4) by auto
  have "linked t zs base" using l(2) oth nb by (subst linked_cong [of zs t s]) (simp_all add: ys)
  moreover have "um_ptr t bp = hd (zs @ [base])" using l(2) by (simp add: t ys)
  moreover have "sorted_wrt (\<lambda>x y. um_end t x < y) (bp # zs)"
    using o(1) e oth nb by (auto simp: ys intro!: sorted_wrt_mono_rel [of zs "\<lambda>x y. um_end s x < y"])
  moreover have "um_block t bp = um_block s bp \<union> um_block s y"
    using e y um_end_le [of y s] bl by (auto simp: um_block_def)
  moreover have "(\<Union>a \<in> set zs. um_block t a) = (\<Union>a \<in> set zs. um_block s a)" using oth nb by (intro SUP_cong) (simp_all add: ys)
  ultimately show ?thesis
    using oth pos e z nb by (intro exI [of _ zs]) (simp add: ys, auto simp: t)
next
  case False
  have t: "t = set_ptr bp (um_ptr s p) s"
    using False by (simp add: t_def join_upper_def um_end_def)
  have oth: "um_size t a = um_size s a \<and> um_end t a = um_end s a \<and> um_block t a = um_block s a" for a
    by (simp add: t um_end_def um_block_def)
  have "linked t ys base" using l(2,4) by (subst linked_cong [of ys t s]) (auto simp: t)
  moreover have "\<forall>y \<in> set ys. um_end s bp < y"
    using o False l(1) by (cases ys) (auto simp: um_end_def dest: le_neq_implies_less)
  ultimately show ?thesis
    using oth z l(1) o(1) by (intro exI [of _ ys]) (auto simp: t um_end_def um_block_def)
qed

lemma join_lower_ok:
  assumes l: "linked t (bp # zs) base" "p \<notin> set (bp # zs)" "p < bp" "um_end t p \<le> bp"
    and o: "sorted_wrt (\<lambda>x y. um_end t x < y) (bp # zs)"
    and z: "\<forall>a \<in> set (bp # zs). 0 < um_size t a \<and> um_end t a \<le> 2 ^ 32"
  defines "u \<equiv> join_lower bp p t"
  shows "\<exists>ws. linked u (p # ws) base \<and> sorted_wrt (\<lambda>x y. um_end u x < y) (p # ws) \<and> set ws \<subseteq> set (bp # zs)
    \<and> (\<Union>a \<in> set (p # ws). um_block u a) = um_block t p \<union> (\<Union>a \<in> set (bp # zs). um_block t a)
    \<and> (\<forall>a \<in> set ws. 0 < um_size u a \<and> um_end u a \<le> 2 ^ 32) \<and> um_end u p \<le> 2 ^ 32
    \<and> (0 < um_size t p \<longrightarrow> 0 < um_size u p) \<and> (um_size t p = 0 \<longrightarrow> um_size u p = 0)
    \<and> (\<forall>a. a \<noteq> p \<longrightarrow> um_size u a = um_size t a \<and> um_ptr u a = um_ptr t a)"
proof (cases "um_end t p = bp")
  case True
  have u: "u = set_ptr p (um_ptr t bp) (set_size p (um_size t p + um_size t bp) t)"
    using True l(2) by (simp add: u_def join_lower_def um_end_def Let_def)
  have ne: "um_size t p \<noteq> 0" using True l(3) um_end_base by fastforce
  have bl: "bp < um_end t bp" "um_end t bp \<le> 2 ^ 32" using z um_end_less by simp_all
  have "units (um_size t p) + units (um_size t bp) \<le> 2 ^ 32" using bl(2) True by (simp add: um_end_def)
  then have e: "um_end u p = um_end t bp" and pos: "0 < um_size u p"
    using units_add size_add_pos [of "um_size t p" "um_size t bp"] ne True by (simp_all add: u um_end_def word_neq_0_conv)
  have oth: "a \<noteq> p \<Longrightarrow> um_size u a = um_size t a \<and> um_ptr u a = um_ptr t a \<and> um_end u a = um_end t a
      \<and> um_block u a = um_block t a" for a
    by (simp add: u um_end_def um_block_def)
  have np: "a \<noteq> p" if "a \<in> set zs" for a using that l(2) by auto
  have "linked u zs base" using l(1) oth np by (subst linked_cong [of zs u t]) simp_all
  moreover have "um_ptr u p = hd (zs @ [base])" using l(1) by (simp add: u)
  moreover have "sorted_wrt (\<lambda>x y. um_end u x < y) (p # zs)"
    using o e oth np by (auto intro!: sorted_wrt_mono_rel [of zs "\<lambda>x y. um_end t x < y"])
  moreover have "um_block u p = um_block t p \<union> um_block t bp"
    using e True l(3) bl(1) by (auto simp: um_block_def)
  moreover have "(\<Union>a \<in> set zs. um_block u a) = (\<Union>a \<in> set zs. um_block t a)"
    using oth np by (intro SUP_cong) simp_all
  ultimately show ?thesis
    using oth pos e z np ne bl by (intro exI [of _ zs]) (simp add: Un_assoc subset_insertI)
next
  case False
  have u: "u = set_ptr p bp t" using False by (simp add: u_def join_lower_def um_end_def)
  have oth: "um_size u a = um_size t a \<and> um_end u a = um_end t a \<and> um_block u a = um_block t a" for a
    by (simp add: u um_end_def um_block_def)
  have "linked u (bp # zs) base" using l(1,2) by (subst linked_cong [of _ u t]) (auto simp: u)
  moreover have "um_end t p < bp" using False l(4) by simp
  moreover have "\<forall>y \<in> set zs. um_end t p < y"
    using o l(4) z um_end_less by (fastforce dest: order_le_less_trans)
  moreover have "um_end t p \<le> 2 ^ 32" using l(4) z um_end_less [of t bp] by (simp add: order_trans)
  ultimately show ?thesis using oth z o by (intro exI [of _ "bp # zs"]) (simp add: u um_end_def um_block_def)
qed

lemma blocks_apart_below:
  assumes "um_block s a \<inter> um_block s b = {}" "a < b" "b < um_end s b"
  shows "um_end s a \<le> b"
proof (rule ccontr)
  assume "\<not> um_end s a \<le> b"
  then have "b \<in> um_block s a \<inter> um_block s b" using assms by (simp add: um_block_def)
  with assms show False by simp
qed

lemma sorted_dropWhile: "sorted_wrt (<) xs \<Longrightarrow> \<forall>y \<in> set (dropWhile (\<lambda>a. a < b) xs). b \<le> y" for b :: nat
  by (induction xs) auto

lemma ring_split:
  assumes "um_ok s base hs" "base < bp"
  obtains xs p ys where "base # hs = xs @ p # ys" "p < bp" "\<forall>y \<in> set ys. bp \<le> y"
proof -
  let ?A = "takeWhile (\<lambda>a. a < bp) (base # hs)" and ?B = "dropWhile (\<lambda>a. a < bp) (base # hs)"
  have ne: "?A \<noteq> []" using assms(2) by simp
  have "sorted_wrt (<) (base # hs)"
    using assms(1) um_end_le by (auto simp: um_ok_def intro: order_le_less_trans elim!: sorted_wrt_mono_rel [rotated])
  then have "\<forall>y \<in> set ?B. bp \<le> y" by (rule sorted_dropWhile)
  moreover have "last ?A < bp" using ne by (metis last_in_set set_takeWhileD)
  moreover have "base # hs = butlast ?A @ last ?A # ?B" using ne
    by (metis append.assoc append_Cons append_Nil append_butlast_last_id takeWhile_dropWhile_id)
  ultimately show thesis using that by blast
qed


lemma um_free_bytes_ring: "um_size s base = 0 \<Longrightarrow> um_free_bytes s hs = (\<Union>a \<in> set (base # hs). um_block s a)"
  by (simp add: um_free_bytes_def um_block_def um_end_base)

text \<open>Where \<open>free\<close> puts the block: behind the last header below it, and before all others.\<close>

lemma free_position:
  assumes ok: "um_ok s base hs" and bp: "base < bp" "0 < um_size s bp"
    and dis: "\<forall>a \<in> set hs. um_block s a \<inter> um_block s bp = {}"
  shows "\<exists>xs p ys. base # hs = xs @ p # ys \<and> p < bp \<and> um_end s p \<le> bp \<and> (\<forall>y \<in> set ys. bp < y \<and> um_end s bp \<le> y)
    \<and> (\<forall>f \<in> set (base # hs). free_find s bp f = Some p)"
proof -
  obtain xs p ys where r: "base # hs = xs @ p # ys" "p < bp" and ge: "\<forall>y \<in> set ys. bp \<le> y"
    using ring_split [OF ok bp(1)] by blast
  have lk: "linked s (base # hs) base" and so: "sorted_wrt (\<lambda>x y. um_end s x < y) (base # hs)"
    and sz: "um_size s base = 0" "\<forall>a \<in> set hs. 0 < um_size s a" using ok by (simp_all add: um_ok_def)
  have lt: "sorted_wrt (<) (base # hs)"
    by (rule sorted_wrt_mono_rel [OF _ so]) (meson um_end_le order_le_less_trans)
  have bl: "bp < um_end s bp" using bp(2) by (rule um_end_less)
  have ysh: "set ys \<subseteq> set hs" using r(1) by (cases xs) auto
  have "bp \<notin> set ys"
  proof
    assume "bp \<in> set ys"
    then have "um_block s bp = {}" using dis ysh by blast
    then show False using bl by (auto simp: um_block_def)
  qed
  then have gt: "\<forall>y \<in> set ys. bp < y" using ge by (metis le_neq_implies_less)
  have up: "\<forall>y \<in> set ys. um_end s bp \<le> y"
    using blocks_apart_below [of s bp] dis ysh gt sz(2) um_end_less by (metis Int_commute subsetD)
  have "um_end s p \<le> bp"
  proof (cases "p = base")
    case False
    then have "p \<in> set hs" using r(1) by (cases xs) auto
    then show ?thesis using blocks_apart_below [OF _ r(2) bl] dis by blast
  qed (use sz bp in \<open>simp add: um_end_base\<close>)
  moreover have "\<forall>f \<in> set (base # hs). free_find s bp f = Some p"
    using free_find_gap [OF r(1) lk lt r(2) gt] by blast
  ultimately show ?thesis using r gt up by blast
qed

text \<open>A ring whose tail from \<open>p\<close> on has been replaced.\<close>

lemma ring_new_tail:
  assumes ok: "um_ok s base hs" and r: "base # hs = xs @ p # ys" and fp: "um_freep u = Some p"
    and xsu: "\<And>x. x \<in> set xs \<Longrightarrow> um_size u x = um_size s x \<and> um_ptr u x = um_ptr s x"
    and l: "linked u (p # ws) base" "sorted_wrt (\<lambda>x y. um_end u x < y) (p # ws)" "\<forall>w \<in> set ws. p \<le> w"
    and z: "\<forall>a \<in> set ws. 0 < um_size u a \<and> um_end u a \<le> 2 ^ 32" "um_end u p \<le> 2 ^ 32"
      "0 < um_size s p \<longrightarrow> 0 < um_size u p" "um_size s p = 0 \<longrightarrow> um_size u p = 0"
  shows "\<exists>gs. um_ok u base gs \<and> um_free_bytes u gs = (\<Union>a \<in> set xs. um_block s a) \<union> (\<Union>a \<in> set (p # ws). um_block u a)"
proof -
  have xse: "um_end u x = um_end s x" "um_block u x = um_block s x" if "x \<in> set xs" for x
    using xsu [OF that] by (simp_all add: um_end_def um_block_def)
  have sz: "um_size s base = 0" "\<forall>a \<in> set hs. 0 < um_size s a \<and> um_end s a \<le> 2 ^ 32" using ok by (simp_all add: um_ok_def)
  have "linked s (xs @ p # ys) base" "sorted_wrt (\<lambda>x y. um_end s x < y) (xs @ p # ys)"
    using ok unfolding r [symmetric] by (simp_all add: um_ok_def)
  then have lx: "linked s xs p" and sx: "sorted_wrt (\<lambda>x y. um_end s x < y) xs" "\<forall>x \<in> set xs. um_end s x < p"
    by (auto simp: linked_append sorted_wrt_append)
  obtain gs where gs: "base # gs = xs @ p # ws" using r by (cases xs) auto
  have "linked u (base # gs) base"
    using l(1) lx linked_cong [of xs u s p] xsu unfolding gs by (simp add: linked_append)
  moreover have "sorted_wrt (\<lambda>x y. um_end u x < y) (base # gs)"
  proof -
    have "um_end u x < y" if "x \<in> set xs" "y \<in> set (p # ws)" for x y
      using that sx(2) xse(1) [OF that(1)] l(3) by fastforce
    moreover have "sorted_wrt (\<lambda>x y. um_end u x < y) xs"
      by (rule sorted_wrt_mono_rel [OF _ sx(1)]) (simp add: xse)
    ultimately show ?thesis using l(2) unfolding gs by (simp add: sorted_wrt_append)
  qed
  moreover have zero: "um_size u base = 0" using r sz(1) z(4) xsu [of base] by (cases xs) auto
  moreover have "\<forall>a \<in> set gs. 0 < um_size u a \<and> um_end u a \<le> 2 ^ 32"
  proof (cases xs)
    case Nil
    then show ?thesis using gs z(1) by simp
  next
    case (Cons x xs')
    then have h: "set xs' \<subseteq> set hs" "p \<in> set hs" "set gs = set xs' \<union> {p} \<union> set ws" using r gs by auto
    have "0 < um_size u a \<and> um_end u a \<le> 2 ^ 32" if "a \<in> set xs'" for a
      using xsu [of a] xse(1) [of a] that sz(2) h(1) Cons by auto
    moreover have "0 < um_size u p \<and> um_end u p \<le> 2 ^ 32" using sz(2) h(2) z(2,3) by simp
    ultimately show ?thesis using z(1) unfolding h(3) by blast
  qed
  moreover have "um_freep u \<in> Some ` set (base # gs)" unfolding gs fp by simp
  ultimately have "um_ok u base gs" unfolding um_ok_def by blast
  moreover have "um_free_bytes u gs = (\<Union>a \<in> set xs. um_block s a) \<union> (\<Union>a \<in> set (p # ws). um_block u a)"
    using um_free_bytes_ring [OF zero, of gs] xse(2) unfolding gs by auto
  ultimately show ?thesis by blast
qed

lemma ufree_ok:
  assumes ok: "um_ok s base hs" and bp: "base < bp" "0 < um_size s bp" "um_end s bp \<le> 2 ^ 32"
    and dis: "\<forall>a \<in> set hs. um_block s a \<inter> um_block s bp = {}"
  shows "\<exists>t gs. ufree (bp + 8) s = Some t \<and> um_ok t base gs \<and> um_free_bytes t gs = um_free_bytes s hs \<union> um_block s bp"
proof -
  obtain xs p ys where r: "base # hs = xs @ p # ys" "p < bp" and low: "um_end s p \<le> bp"
    and ys: "\<forall>y \<in> set ys. bp < y" "\<forall>y \<in> set ys. um_end s bp \<le> y" and find: "\<forall>f \<in> set (base # hs). free_find s bp f = Some p"
    using free_position [OF ok bp(1,2) dis] by blast
  have "linked s (xs @ p # ys) base" and so: "sorted_wrt (\<lambda>x y. um_end s x < y) (xs @ p # ys)"
    using ok unfolding r(1) [symmetric] by (simp_all add: um_ok_def)
  then have lys: "um_ptr s p = hd (ys @ [base])" "linked s ys base" by (simp_all add: linked_append)
  have sys: "sorted_wrt (\<lambda>x y. um_end s x < y) ys" "\<forall>x \<in> set xs. um_end s x < p" using so by (auto simp: sorted_wrt_append)
  have "set ys \<subseteq> set hs" using r(1) by (cases xs) auto
  then have sp: "\<forall>a \<in> set (bp # ys). 0 < um_size s a \<and> um_end s a \<le> 2 ^ 32" using ok bp by (auto simp: um_ok_def)
  have nb: "p \<noteq> bp" "bp \<notin> set ys" using r(2) ys(1) by auto
  define t where "t = join_upper bp p s"
  obtain zs where zs: "linked t (bp # zs) base" "sorted_wrt (\<lambda>x y. um_end t x < y) (bp # zs)" "set zs \<subseteq> set ys"
      "(\<Union>a \<in> set (bp # zs). um_block t a) = um_block s bp \<union> (\<Union>a \<in> set ys. um_block s a)"
      "\<forall>a \<in> set (bp # zs). 0 < um_size t a \<and> um_end t a \<le> 2 ^ 32"
      "\<forall>a. a \<noteq> bp \<longrightarrow> um_size t a = um_size s a \<and> um_ptr t a = um_ptr s a"
    using join_upper_ok [OF lys nb bp(1) sys(1) ys(2) sp] unfolding t_def by blast
  have pt: "um_end t p = um_end s p" "um_block t p = um_block s p" "um_size t p = um_size s p"
    using zs(6) nb(1) by (auto simp: um_end_def um_block_def)
  have pn: "p \<notin> set (bp # zs)" using zs(3) ys(1) r(2) by fastforce
  define u where "u = join_lower bp p t"
  obtain ws where ws: "linked u (p # ws) base" "sorted_wrt (\<lambda>x y. um_end u x < y) (p # ws)" "set ws \<subseteq> set (bp # zs)"
      "(\<Union>a \<in> set (p # ws). um_block u a) = um_block t p \<union> (\<Union>a \<in> set (bp # zs). um_block t a)"
      "\<forall>a \<in> set ws. 0 < um_size u a \<and> um_end u a \<le> 2 ^ 32" "um_end u p \<le> 2 ^ 32"
      "0 < um_size t p \<longrightarrow> 0 < um_size u p" "um_size t p = 0 \<longrightarrow> um_size u p = 0"
      "\<forall>a. a \<noteq> p \<longrightarrow> um_size u a = um_size t a \<and> um_ptr u a = um_ptr t a"
    using join_lower_ok [OF zs(1) pn r(2) _ zs(2,5)] low unfolding pt(1) u_def by blast
  let ?v = "u\<lparr>um_freep := Some p\<rparr>"
  have sel: "um_end ?v = um_end u" "um_block ?v = um_block u" "linked ?v as z = linked u as z" for as z
    by (auto simp: um_end_def um_block_def fun_eq_iff intro!: linked_cong)
  have xsu: "um_size ?v x = um_size s x \<and> um_ptr ?v x = um_ptr s x" if "x \<in> set xs" for x
  proof -
    have "x < p" using that sys(2) um_end_le order_le_less_trans by blast
    then show ?thesis using zs(6) ws(9) r(2) by simp
  qed
  have pw: "\<forall>w \<in> set ws. p \<le> w" using ws(3) zs(3) ys(1) r(2) by fastforce
  obtain gs where "um_ok ?v base gs" "um_free_bytes ?v gs = (\<Union>a \<in> set xs. um_block s a) \<union> (\<Union>a \<in> set (p # ws). um_block u a)"
    using ring_new_tail [OF ok r(1) _ xsu, of ws] ws pw pt(3) by (auto simp: sel)
  moreover have "um_free_bytes s hs = (\<Union>a \<in> set xs. um_block s a) \<union> um_block s p \<union> (\<Union>a \<in> set ys. um_block s a)"
    using um_free_bytes_ring [of s base hs] ok unfolding r(1) by (auto simp: um_ok_def)
  moreover have "ufree (bp + 8) s = Some ?v"
    using ok find by (auto simp: ufree_def um_ok_def u_def t_def)
  ultimately show ?thesis using ws(4) zs(4) pt(2) by (intro exI conjI) (assumption, assumption, simp only: Un_ac)
qed

subsection \<open>The search of malloc\<close>

lemma malloc_loop_skip:
  assumes "um_size s p < n" "um_freep s \<noteq> Some p"
  shows "malloc_loop sbrk n prev p s = malloc_loop sbrk n p (um_ptr s p) s"
proof -
  have "\<not> n \<le> um_size s p" using assms(1) by simp
  then show ?thesis using assms(2) by (subst malloc_loop.simps) simp
qed

lemma malloc_loop_walk:
  "linked s (prev # us) q \<Longrightarrow> \<forall>x \<in> set us. um_size s x < n \<and> um_freep s \<noteq> Some x \<Longrightarrow>
   malloc_loop sbrk n prev (um_ptr s prev) s = malloc_loop sbrk n (last (prev # us)) q s"
proof (induction us arbitrary: prev)
  case (Cons x us)
  have "malloc_loop sbrk n prev x s = malloc_loop sbrk n x (um_ptr s x) s"
    using Cons.prems(2) by (intro malloc_loop_skip) auto
  then show ?case using Cons.IH [of x] Cons.prems by simp
qed simp

text \<open>The order in which \<open>malloc\<close> visits the ring: from behind \<open>freep\<close> around to \<open>freep\<close>.\<close>

lemma ring_from_freep:
  assumes "um_ok s base hs"
  obtains f vs where "um_freep s = Some f" "set (vs @ [f]) = set (base # hs)" "distinct (vs @ [f])" "linked s (f # vs) f"
proof -
  obtain f where f: "um_freep s = Some f" "f \<in> set (base # hs)" using assms by (auto simp: um_ok_def)
  then obtain xs ys where r: "base # hs = xs @ f # ys" by (meson split_list)
  have "sorted_wrt (\<lambda>x y. um_end s x < y) (base # hs)" using assms by (simp add: um_ok_def)
  then have "sorted_wrt (<) (base # hs)" by (rule sorted_wrt_mono_rel [rotated]) (meson um_end_le order_le_less_trans)
  then have "distinct (base # hs)" by (simp only: strict_sorted_iff)
  then have d: "distinct ((ys @ xs) @ [f])" unfolding r by auto
  have b: "base = hd (xs @ [f])" using r by (cases xs) auto
  have "linked s (xs @ f # ys) base" using assms unfolding r [symmetric] by (simp add: um_ok_def)
  then have "linked s (f # ys) base" "linked s xs f" by (simp_all add: linked_append)
  then have "linked s (f # ys @ xs) f"
    using b linked_append [of s "f # ys" xs f] by simp
  moreover have "set ((ys @ xs) @ [f]) = set (base # hs)" unfolding r by auto
  ultimately show thesis using that f(1) d by blast
qed

lemma malloc_loop_fit:
  assumes ok: "um_ok s base hs" and f: "um_freep s = Some f" and fit: "a \<in> set hs" "n \<le> um_size s a" and n: "0 < n"
  shows "\<exists>xs prev q ys. base # hs = xs @ prev # q # ys \<and> n \<le> um_size s q
    \<and> malloc_loop sbrk n f (um_ptr s f) s = (case take_block n prev q s of (r, t) \<Rightarrow> Some (Some r, t))"
proof -
  obtain vs where v: "set (vs @ [f]) = set (base # hs)" "distinct (vs @ [f])" "linked s (f # vs) f"
    using ring_from_freep [OF ok] f by auto
  have "\<exists>x \<in> set (vs @ [f]). n \<le> um_size s x" unfolding v(1) using fit by auto
  then obtain us q ws where us: "vs @ [f] = us @ q # ws" "n \<le> um_size s q" "\<forall>x \<in> set us. \<not> n \<le> um_size s x"
    by (rule split_list_first_propE)
  have l: "linked s (f # us) q" and fu: "f \<notin> set us"
  proof -
    have "linked s (f # us) q \<and> f \<notin> set us"
    proof (cases ws rule: rev_cases)
      case Nil
      then show ?thesis using us(1) v(2,3) by auto
    next
      case (snoc ws' w)
      then have "vs = us @ q # ws'" "w = f" using us(1) by simp_all
      then show ?thesis using v(2,3) linked_append [of s "f # us" "q # ws'" f] by auto
    qed
    then show "linked s (f # us) q" "f \<notin> set us" by simp_all
  qed
  let ?prev = "last (f # us)"
  have "?prev \<in> set (vs @ [f])" using us(1) by (metis Un_iff last.simps last_in_set list.set_intros(1) set_append snoc_eq_iff_butlast)
  then obtain xs ds where x: "base # hs = xs @ ?prev # ds" unfolding v(1) by (meson split_list)
  have "um_ptr s ?prev = q" using l by (induction us arbitrary: f rule: rev_induct) (auto simp: linked_append)
  moreover have "um_ptr s ?prev = hd (ds @ [base])"
    using ok unfolding um_ok_def x by (simp add: linked_append)
  moreover have "q \<noteq> base" using ok us(2) n by (auto simp: um_ok_def)
  ultimately obtain ys where "ds = q # ys" by (cases ds) auto
  moreover have "malloc_loop sbrk n f (um_ptr s f) s = malloc_loop sbrk n ?prev q s"
    using us(3) fu f by (intro malloc_loop_walk [OF l]) (auto simp: linorder_not_le)
  moreover have "malloc_loop sbrk n ?prev q s = (case take_block n ?prev q s of (r, t) \<Rightarrow> Some (Some r, t))"
    using us(2) by (subst malloc_loop.simps) simp
  ultimately show ?thesis using x us(2) by metis
qed

lemma malloc_loop_full:
  assumes ok: "um_ok s base hs" and f: "um_freep s = Some f" and full: "\<forall>a \<in> set hs. um_size s a < n" "0 < n"
  shows "malloc_loop sbrk n f (um_ptr s f) s = (case morecore sbrk n s of
       None \<Rightarrow> None
     | Some (q, s) \<Rightarrow>
         (case q of None \<Rightarrow> Some (None, s) | Some p \<Rightarrow> malloc_loop sbrk n p (um_ptr s p) s))"
proof -
  obtain vs where v: "set (vs @ [f]) = set (base # hs)" "distinct (vs @ [f])" "linked s (f # vs) f"
    using ring_from_freep [OF ok] f by auto
  have all: "\<forall>x \<in> set (vs @ [f]). um_size s x < n" unfolding v(1) using full ok by (auto simp: um_ok_def)
  have "malloc_loop sbrk n f (um_ptr s f) s = malloc_loop sbrk n (last (f # vs)) f s"
    using all v(2) f by (intro malloc_loop_walk [OF v(3)]) auto
  also have "\<dots> = (case morecore sbrk n s of
       None \<Rightarrow> None
     | Some (q, s) \<Rightarrow>
         (case q of None \<Rightarrow> Some (None, s) | Some p \<Rightarrow> malloc_loop sbrk n p (um_ptr s p) s))"
  proof -
    have "\<not> n \<le> um_size s f" using all by (auto simp: not_le)
    then show ?thesis using f by (subst malloc_loop.simps) simp
  qed
  finally show ?thesis .
qed


lemma ring_block_apart:
  assumes "sorted_wrt (\<lambda>x y. um_end s x < y) (xs @ q # ys)" "x \<in> set xs \<union> set ys"
  shows "um_block s x \<inter> um_block s q = {}"
  using assms by (auto simp: sorted_wrt_append um_block_def)

lemma take_whole_block:
  assumes ok: "um_ok s base hs" and r: "base # hs = xs @ prev # q # ys" and n: "um_size s q = n"
  defines "t \<equiv> (set_ptr prev (um_ptr s q) s)\<lparr>um_freep := Some prev\<rparr>"
  shows "\<exists>gs. um_ok t base gs \<and> um_free_bytes t gs = um_free_bytes s hs - um_block s q"
proof -
  obtain gs where gs: "base # gs = xs @ prev # ys" "set gs \<subseteq> set hs" using r by (cases xs) auto
  have so: "sorted_wrt (\<lambda>x y. um_end s x < y) (xs @ prev # q # ys)" and lk: "linked s (xs @ prev # q # ys) base"
    using ok unfolding r [symmetric] by (simp_all add: um_ok_def)
  have sel: "um_size t = um_size s" "um_end t = um_end s" "um_block t = um_block s" "um_freep t = Some prev"
    "um_ptr t = (um_ptr s)(prev := um_ptr s q)"
    by (auto simp: t_def um_end_def um_block_def fun_eq_iff)
  have "prev \<notin> set xs \<union> set ys"
    using so um_end_le [of prev s] by (auto simp: sorted_wrt_append not_less dest: order_le_less_trans)
  then have p: "um_ptr t x = um_ptr s x" if "x \<in> set xs \<union> set ys" for x using that by (auto simp: sel)
  have "linked t xs prev" "linked t ys base"
    using lk linked_cong [of xs t s prev, OF p] linked_cong [of ys t s base, OF p] by (simp_all add: linked_append)
  then have "linked t (base # gs) base" using lk unfolding gs(1) by (simp add: linked_append sel)
  moreover have "sorted_wrt (\<lambda>x y. um_end t x < y) (base # gs)" using so unfolding gs(1) sel by (simp add: sorted_wrt_append)
  moreover have "um_freep t \<in> Some ` set (base # gs)" unfolding gs(1) sel by simp
  ultimately have "um_ok t base gs" using ok gs(2) by (auto simp: um_ok_def sel)
  moreover have "um_free_bytes t gs = um_free_bytes s hs - um_block s q"
  proof -
    have z: "um_size s base = 0" "um_size t base = 0" using ok by (simp_all add: um_ok_def sel)
    have "um_block s x \<inter> um_block s q = {}" if "x \<in> set (xs @ prev # ys)" for x
      using ring_block_apart [of s "xs @ [prev]" q ys x] so that by auto
    then show ?thesis
      unfolding um_free_bytes_ring [OF z(1)] um_free_bytes_ring [OF z(2)] r gs(1) sel by auto
  qed
  ultimately show ?thesis by blast
qed

lemma units_sub: "n \<le> m \<Longrightarrow> units (m - n) + units n = units m"
  by (simp add: units_def unat_sub word_le_nat_alt)

lemma take_tail_of_block:
  assumes ok: "um_ok s base hs" and q: "q \<in> set hs" "prev \<in> set (base # hs)" and n: "n < um_size s q" "0 < n"
  defines "a \<equiv> q + units (um_size s q - n)"
  defines "t \<equiv> (set_size a n (set_size q (um_size s q - n) s))\<lparr>um_freep := Some prev\<rparr>"
  shows "um_ok t base hs \<and> um_free_bytes t hs = um_free_bytes s hs - um_block t a
    \<and> um_block t a \<subseteq> um_block s q \<and> um_size t a = n"
proof -
  have pos: "0 < um_size s q - n" using n(1) by (simp add: word_less_nat_alt unat_sub word_le_nat_alt)
  have u: "units (um_size s q - n) + units n = units (um_size s q)" using n(1) by (intro units_sub) simp
  have aq: "q < a" "a + units n = um_end s q" "a < um_end s q"
    using pos u n(2) by (simp_all add: a_def um_end_def units_def word_less_nat_alt)
  obtain xs ys where r: "base # hs = xs @ q # ys" using q(1) by (metis list.set_intros(2) split_list)
  have so: "sorted_wrt (\<lambda>x y. um_end s x < y) (xs @ q # ys)" using ok unfolding r [symmetric] by (simp add: um_ok_def)
  have an: "a \<notin> set (base # hs)" using so aq um_end_le [of _ s] unfolding r
    by (auto simp: sorted_wrt_append) (metis le_less_trans less_asym um_end_le)+
  have sel: "um_ptr t = um_ptr s" "um_freep t = Some prev" "um_size t a = n" "um_size t q = um_size s q - n"
    "\<And>x. x \<noteq> a \<Longrightarrow> x \<noteq> q \<Longrightarrow> um_size t x = um_size s x"
    using aq(1) by (simp_all add: t_def)
  have e: "um_end t q = a" "um_end t a = um_end s q" "\<And>x. x \<noteq> a \<Longrightarrow> x \<noteq> q \<Longrightarrow> um_end t x = um_end s x"
    using aq(2) sel(3,4,5) by (simp_all add: um_end_def) (simp add: a_def)
  have na: "x \<noteq> a" if "x \<in> set (base # hs)" for x using an that by blast
  have le: "um_end t x \<le> um_end s x" if "x \<in> set (base # hs)" for x
    using e(1) e(3) [OF na [OF that]] aq(3) by (cases "x = q") auto
  have so2: "sorted_wrt (\<lambda>x y. um_end s x < y) (base # hs)" and sz: "\<forall>x \<in> set hs. 0 < um_size s x \<and> um_end s x \<le> 2 ^ 32"
    and lk: "linked s (base # hs) base" and z0: "um_size s base = 0" using ok by (simp_all add: um_ok_def)
  have "sorted_wrt (\<lambda>x y. um_end t x < y) (base # hs)"
    by (rule sorted_wrt_mono_rel [OF _ so2]) (use le in \<open>blast intro: order_le_less_trans\<close>)
  moreover have "0 < um_size t x \<and> um_end t x \<le> 2 ^ 32" if "x \<in> set hs" for x
    using that sz le [of x] pos sel(4) sel(5) [OF na [of x]] by (cases "x = q") (auto intro: order_trans)
  moreover have "um_size t base = 0" using sel(5) [OF na [of base]] z0 n by (cases "base = q") auto
  moreover have "linked t (base # hs) base" using lk linked_cong [of "base # hs" t s base] sel(1) by simp
  moreover have "um_freep t \<in> Some ` set (base # hs)" using q(2) sel(2) by auto
  ultimately have "um_ok t base hs" unfolding um_ok_def by blast
  moreover have "um_free_bytes t hs = um_free_bytes s hs - um_block t a"
  proof -
    have z: "um_size s base = 0" "um_size t base = 0" using ok \<open>um_ok t base hs\<close> by (simp_all add: um_ok_def)
    have d: "um_block s x \<inter> um_block s q = {}" "um_block t x = um_block s x" if "x \<in> set xs \<union> set ys" for x
    proof -
      show "um_block s x \<inter> um_block s q = {}" by (rule ring_block_apart [OF so that])
      have "x \<noteq> a" using na [of x] that unfolding r by auto
      moreover have "x \<noteq> q" using so that um_end_le [of q s] by (auto simp: sorted_wrt_append dest: order_le_less_trans)
      ultimately show "um_block t x = um_block s x" by (simp add: um_block_def e(3))
    qed
    have "um_block t q = um_block s q - um_block t a" "um_block t a \<subseteq> um_block s q" using e(1,2) aq by (auto simp: um_block_def)
    then show ?thesis
      using d unfolding um_free_bytes_ring [OF z(1)] um_free_bytes_ring [OF z(2)] r by auto
  qed
  moreover have "um_block t a \<subseteq> um_block s q" using e aq by (auto simp: um_block_def)
  ultimately show ?thesis using sel by simp
qed


text \<open>\<open>a\<close> is a block of \<open>n\<close> units taken out of the free bytes \<open>F\<close>.\<close>

definition um_taken :: "um_st \<Rightarrow> nat \<Rightarrow> nat list \<Rightarrow> nat \<Rightarrow> u32 \<Rightarrow> nat set \<Rightarrow> bool" where
  "um_taken t base gs a n F \<longleftrightarrow> um_ok t base gs \<and> um_size t a = n \<and> um_block t a \<subseteq> F
     \<and> um_free_bytes t gs = F - um_block t a"

lemma take_block_ok:
  assumes ok: "um_ok s base hs" and r: "base # hs = xs @ prev # q # ys" and n: "n \<le> um_size s q" "0 < n"
  shows "\<exists>a t gs. take_block n prev q s = (a + 8, t) \<and> um_taken t base gs a n (um_free_bytes s hs)"
proof -
  have q: "q \<in> set hs" using r by (cases xs) auto
  have prev: "prev \<in> set (base # hs)" unfolding r by simp
  have sub: "um_block s q \<subseteq> um_free_bytes s hs" using q by (auto simp: um_free_bytes_def)
  show ?thesis
  proof (cases "um_size s q = n")
    case True
    let ?t = "(set_ptr prev (um_ptr s q) s)\<lparr>um_freep := Some prev\<rparr>"
    have "um_block ?t q = um_block s q" "um_size ?t q = n" using True by (simp_all add: um_block_def um_end_def)
    then show ?thesis
      using take_whole_block [OF ok r True] sub True unfolding take_block_def um_taken_def
      by (metis (no_types, lifting))
  next
    case False
    let ?a = "q + units (um_size s q - n)"
    let ?t = "(set_size ?a n (set_size q (um_size s q - n) s))\<lparr>um_freep := Some prev\<rparr>"
    have less: "n < um_size s q" using n(1) False by simp
    have "take_block n prev q s = (?a + 8, ?t)" using False by (simp add: take_block_def Let_def)
    moreover have "um_taken ?t base hs ?a n (um_free_bytes s hs)"
      using take_tail_of_block [OF ok q prev less n(2)] sub unfolding um_taken_def by blast
    ultimately show ?thesis by blast
  qed
qed

lemma malloc_loop_takes:
  assumes ok: "um_ok s base hs" and f: "um_freep s = Some f" and fit: "a \<in> set hs" "n \<le> um_size s a" and n: "0 < n"
  shows "\<exists>a t gs. malloc_loop sbrk n f (um_ptr s f) s = Some (Some (a + 8), t) \<and> um_taken t base gs a n (um_free_bytes s hs)"
proof -
  obtain xs prev q ys where "base # hs = xs @ prev # q # ys" "n \<le> um_size s q"
    "malloc_loop sbrk n f (um_ptr s f) s = (case take_block n prev q s of (r, t) \<Rightarrow> Some (Some r, t))"
    using malloc_loop_fit [OF ok f fit n] by blast
  with take_block_ok [OF ok _ _ n] show ?thesis by fastforce
qed

lemma contiguous_block:
  assumes ok: "um_ok t base gs" and sub: "{x ..< y} \<subseteq> um_free_bytes t gs" and xy: "x < y"
  shows "\<exists>g \<in> set gs. g \<le> x \<and> y \<le> um_end t g"
proof -
  have "x \<in> um_free_bytes t gs" using sub xy by auto
  then obtain g where g: "g \<in> set gs" "g \<le> x" "x < um_end t g" by (auto simp: um_free_bytes_def um_block_def)
  have "y \<le> um_end t g"
  proof (rule ccontr)
    assume "\<not> y \<le> um_end t g"
    then have "um_end t g \<in> um_free_bytes t gs" using sub g by auto
    then obtain h where h: "h \<in> set gs" "h \<le> um_end t g" "um_end t g < um_end t h" by (auto simp: um_free_bytes_def um_block_def)
    have so: "sorted_wrt (\<lambda>x y. um_end t x < y) gs" using ok by (simp add: um_ok_def)
    obtain as bs where r: "gs = as @ g # bs" using g(1) by (meson split_list)
    have "h \<noteq> g" using h(3) by auto
    then have "um_end t h < g \<or> um_end t g < h" using so h(1) unfolding r by (auto simp: sorted_wrt_append)
    then show False using h g um_end_le [of g t] by linarith
  qed
  then show ?thesis using g by blast
qed

lemma malloc_units_ok:
  assumes "unat nbytes + 16 \<le> 2 ^ 32"
  shows "unat nbytes + 8 \<le> units (malloc_units nbytes) \<and> 0 < malloc_units nbytes"
proof -
  define k where "k = (unat nbytes + 7) div 8"
  define m where "m = (unat nbytes + 7) mod 8"
  have km: "k * 8 + m = unat nbytes + 7" "m < 8" by (simp_all add: k_def m_def)
  have "unat (nbytes + 7) = unat nbytes + 7" using assms by (simp add: unat_word_ariths)
  then have "unat ((nbytes + 7) div 8) = k" by (simp add: unat_div k_def)
  moreover have "k + 1 < 2 ^ 32" using km assms by linarith
  ultimately have u: "unat ((nbytes + 7) div 8 + 1) = k + 1" by (simp only: unat_word_ariths) simp
  have "malloc_units nbytes = (nbytes + 7) div 8 + 1" by (simp add: malloc_units_def add.commute)
  then have "unat (malloc_units nbytes) = k + 1" using u by simp
  then show ?thesis using km by (auto simp: units_def word_less_nat_alt)
qed

definition core_units :: "u32 \<Rightarrow> u32" where "core_units n = (if n < 4096 then 4096 else n)"

text \<open>
  What \<open>sbrk\<close> promises: the memory it adds lies above the static data and below 4 GB, and holds no
  free block.
\<close>

definition sbrk_fresh :: "um_sbrk \<Rightarrow> nat \<Rightarrow> u32 \<Rightarrow> um_st \<Rightarrow> nat list \<Rightarrow> bool" where
  "sbrk_fresh sbrk base n s hs \<longleftrightarrow> (case sbrk (um_log s) (core_units n * 8) of
     None \<Rightarrow> True
   | Some hp \<Rightarrow> base < hp \<and> hp + units (core_units n) \<le> 2 ^ 32
       \<and> (\<forall>a \<in> set hs. um_block s a \<inter> {hp ..< hp + units (core_units n)} = {}))"

definition new_core :: "um_sbrk \<Rightarrow> u32 \<Rightarrow> um_st \<Rightarrow> nat set" where
  "new_core sbrk n s = (case sbrk (um_log s) (core_units n * 8) of
     None \<Rightarrow> {} | Some hp \<Rightarrow> {hp ..< hp + units (core_units n)})"

lemma um_ok_log: "um_ok (s\<lparr>um_log := l\<rparr>) base hs = um_ok s base hs"
  using linked_cong [of "base # hs" "s\<lparr>um_log := l\<rparr>" s base] by (simp add: um_ok_def um_end_def)

lemma morecore_ok:
  assumes ok: "um_ok s base hs" and fresh: "sbrk_fresh sbrk base n s hs"
  shows "\<exists>q t gs. morecore sbrk n s = Some (q, t) \<and> um_ok t base gs \<and> um_free_bytes t gs = um_free_bytes s hs \<union> new_core sbrk n s
    \<and> (q = None \<longleftrightarrow> sbrk (um_log s) (core_units n * 8) = None) \<and> (q = None \<or> q = um_freep t)"
proof (cases "sbrk (um_log s) (core_units n * 8)")
  case None
  then have "morecore sbrk n s = Some (None, s\<lparr>um_log := um_log s @ [core_units n * 8]\<rparr>)"
    by (simp add: morecore_def core_units_def Let_def)
  moreover have "um_free_bytes (s\<lparr>um_log := l\<rparr>) hs = um_free_bytes s hs" for l
    by (simp add: um_free_bytes_def um_block_def um_end_def)
  ultimately show ?thesis using ok None um_ok_log by (auto simp: new_core_def)
next
  case (Some hp)
  let ?s = "set_size hp (core_units n) (s\<lparr>um_log := um_log s @ [core_units n * 8]\<rparr>)"
  let ?R = "{hp ..< hp + units (core_units n)}"
  have f: "base < hp" "hp + units (core_units n) \<le> 2 ^ 32" "\<And>a. a \<in> set hs \<Longrightarrow> um_block s a \<inter> ?R = {}"
    using fresh Some by (simp_all add: sbrk_fresh_def)
  have pos: "0 < core_units n" by (simp add: core_units_def word_less_nat_alt)
  have "hp \<notin> set hs"
  proof
    assume "hp \<in> set hs"
    moreover from this have "hp \<in> um_block s hp" using ok um_end_less by (auto simp: um_ok_def um_block_def)
    moreover have "hp \<in> ?R" using pos by (simp add: units_def word_less_nat_alt)
    ultimately show False using f(3) by blast
  qed
  then have e: "um_size ?s a = um_size s a" "um_end ?s a = um_end s a" "um_block ?s a = um_block s a" if "a \<in> set (base # hs)" for a
    using that f(1) by (auto simp: um_end_def um_block_def)
  have b: "um_size ?s hp = core_units n" "um_end ?s hp = hp + units (core_units n)" "um_block ?s hp = ?R"
    by (simp_all add: um_end_def um_block_def)
  have "sorted_wrt (\<lambda>x y. um_end ?s x < y) (base # hs)"
    by (rule sorted_wrt_mono_rel [of _ "\<lambda>x y. um_end s x < y"]) (use ok e(2) in \<open>simp_all add: um_ok_def\<close>)
  moreover have "linked ?s (base # hs) base" using ok linked_cong [of "base # hs" ?s s base] by (simp add: um_ok_def)
  ultimately have ok': "um_ok ?s base hs" using ok e unfolding um_ok_def by simp
  obtain t gs where t: "ufree (hp + 8) ?s = Some t" "um_ok t base gs" "um_free_bytes t gs = um_free_bytes ?s hs \<union> ?R"
    using ufree_ok [OF ok' f(1)] pos b f(2,3) e(3) by auto
  have "um_free_bytes ?s hs = um_free_bytes s hs" using e(3) by (simp add: um_free_bytes_def)
  moreover have "morecore sbrk n s = Some (um_freep t, t)" using Some t(1) by (simp add: morecore_def core_units_def Let_def)
  moreover have "um_freep t \<noteq> None" using t(2) by (auto simp: um_ok_def)
  ultimately show ?thesis using t Some by (auto simp: new_core_def)
qed


lemma malloc_loop_ok:
  assumes ok: "um_ok s base hs" and f: "um_freep s = Some f" and n: "0 < n" and fresh: "sbrk_fresh sbrk base n s hs"
  shows "\<exists>r t gs. malloc_loop sbrk n f (um_ptr s f) s = Some (r, t) \<and> um_ok t base gs
    \<and> (case r of
         None \<Rightarrow> new_core sbrk n s = {} \<and> um_free_bytes t gs = um_free_bytes s hs
       | Some p \<Rightarrow> \<exists>F \<in> {um_free_bytes s hs, um_free_bytes s hs \<union> new_core sbrk n s}.
           8 \<le> p \<and> um_taken t base gs (p - 8) n F)"
proof (cases "\<exists>a \<in> set hs. n \<le> um_size s a")
  case True
  then obtain a t gs where "malloc_loop sbrk n f (um_ptr s f) s = Some (Some (a + 8), t)"
      "um_taken t base gs a n (um_free_bytes s hs)"
    using malloc_loop_takes [OF ok f _ _ n] by blast
  then show ?thesis by (intro exI [of _ "Some (a + 8)"] exI [of _ t] exI [of _ gs]) (simp add: um_taken_def)
next
  case False
  then have full: "\<forall>a \<in> set hs. um_size s a < n" by (auto simp: not_le)
  obtain q t gs where m: "morecore sbrk n s = Some (q, t)" "um_ok t base gs"
      "um_free_bytes t gs = um_free_bytes s hs \<union> new_core sbrk n s"
      "q = None \<longleftrightarrow> sbrk (um_log s) (core_units n * 8) = None" "q = None \<or> q = um_freep t"
    using morecore_ok [OF ok fresh] by metis
  note loop = malloc_loop_full [OF ok f full n, of sbrk, unfolded m(1) option.case prod.case]
  show ?thesis
  proof (cases q)
    case None
    then have "new_core sbrk n s = {}" using m(4) by (simp add: new_core_def)
    then show ?thesis using loop None m(2,3) by auto
  next
    case (Some p)
    then obtain hp where hp: "sbrk (um_log s) (core_units n * 8) = Some hp" using m(4) by auto
    have pos: "hp < hp + units (core_units n)" "n \<le> core_units n"
      by (auto simp: core_units_def units_def word_less_nat_alt word_le_nat_alt)
    have "{hp ..< hp + units (core_units n)} \<subseteq> um_free_bytes t gs" using m(3) hp by (simp add: new_core_def)
    then obtain g where g: "g \<in> set gs" "g \<le> hp" "hp + units (core_units n) \<le> um_end t g"
      using contiguous_block [OF m(2) _ pos(1)] by blast
    then have "units (core_units n) \<le> units (um_size t g)" by (simp add: um_end_def)
    then have "n \<le> um_size t g" using pos(2) by (simp add: units_def word_le_nat_alt)
    moreover have fp: "um_freep t = Some p" using m(5) Some by simp
    ultimately obtain a u es where "malloc_loop sbrk n p (um_ptr t p) t = Some (Some (a + 8), u)"
        "um_taken u base es a n (um_free_bytes t gs)"
      using malloc_loop_takes [OF m(2) fp g(1) _ n, of sbrk] by blast
    then show ?thesis
      using loop Some m(3) by (intro exI [of _ "Some (a + 8)"] exI [of _ u] exI [of _ es]) (simp add: um_taken_def)
  qed
qed

text \<open>
  C13: \<open>free\<close> of a block that is not free ends, keeps the ring of free blocks, and the free bytes
  afterwards are those before and the bytes of the block.
\<close>

theorem free_correct:
  assumes "um_ok s base hs" "base < bp" "0 < um_size s bp" "um_end s bp \<le> 2 ^ 32"
    and "\<forall>a \<in> set hs. um_block s a \<inter> um_block s bp = {}"
  shows "\<exists>t gs. ufree (bp + 8) s = Some t \<and> um_ok t base gs \<and> um_free_bytes t gs = um_free_bytes s hs \<union> um_block s bp"
  using ufree_ok [OF assms] by blast

text \<open>
  C12: \<open>malloc\<close> ends, on its first call and on every later one, when \<open>sbrk\<close> adds memory that is not in
  use. It answers nothing only if \<open>sbrk\<close> refuses, and then the free bytes are the same. Otherwise the
  block it answers has room for the header and \<open>nbytes\<close> bytes, was free or was just added, and is
  exactly what is no longer free.
\<close>

theorem malloc_correct:
  assumes s: "um_freep s = None \<and> hs = [] \<or> um_ok s base hs" and nb: "unat nbytes + 16 \<le> 2 ^ 32"
    and fresh: "sbrk_fresh sbrk base (malloc_units nbytes) s hs"
  shows "\<exists>r t gs. malloc sbrk base nbytes s = Some (r, t) \<and> um_ok t base gs
    \<and> (case r of
         None \<Rightarrow> new_core sbrk (malloc_units nbytes) s = {} \<and> um_free_bytes t gs = um_free_bytes s hs
       | Some p \<Rightarrow> \<exists>F \<in> {um_free_bytes s hs, um_free_bytes s hs \<union> new_core sbrk (malloc_units nbytes) s}.
           p + unat nbytes \<le> um_end t (p - 8) \<and> um_block t (p - 8) \<subseteq> F \<and> um_free_bytes t gs = F - um_block t (p - 8))"
proof -
  let ?n = "malloc_units nbytes"
  let ?s = "case um_freep s of Some _ \<Rightarrow> s | None \<Rightarrow> set_size base 0 ((set_ptr base base s)\<lparr>um_freep := Some base\<rparr>)"
  have "um_ok ?s base hs \<and> um_log ?s = um_log s \<and> um_free_bytes ?s hs = um_free_bytes s hs \<and> sbrk_fresh sbrk base ?n ?s hs"
  proof (cases "um_freep s")
    case None
    then have "hs = []" using s by (auto simp: um_ok_def)
    then show ?thesis using None fresh by (simp add: um_ok_def um_free_bytes_def sbrk_fresh_def split: option.splits)
  qed (use s fresh in simp)
  then have ok: "um_ok ?s base hs" and eq: "um_log ?s = um_log s" "um_free_bytes ?s hs = um_free_bytes s hs"
      "sbrk_fresh sbrk base ?n ?s hs" by simp_all
  have core: "new_core sbrk ?n ?s = new_core sbrk ?n s" by (simp add: new_core_def eq(1))
  obtain f where f: "um_freep ?s = Some f" using ok by (auto simp: um_ok_def)
  have n: "unat nbytes + 8 \<le> units ?n" "0 < ?n" using malloc_units_ok [OF nb] by simp_all
  have run: "malloc sbrk base nbytes s = malloc_loop sbrk ?n f (um_ptr ?s f) ?s"
    using f by (simp only: malloc_def Let_def option.case)
  have room: "um_taken t base gs (p - 8) ?n F \<Longrightarrow> 8 \<le> p \<Longrightarrow> p + unat nbytes \<le> um_end t (p - 8)" for t gs p F
    using n(1) by (simp add: um_taken_def um_end_def)
  obtain r t gs where r: "malloc_loop sbrk ?n f (um_ptr ?s f) ?s = Some (r, t)" "um_ok t base gs"
    and c: "case r of
         None \<Rightarrow> new_core sbrk ?n s = {} \<and> um_free_bytes t gs = um_free_bytes s hs
       | Some p \<Rightarrow> \<exists>F \<in> {um_free_bytes s hs, um_free_bytes s hs \<union> new_core sbrk ?n s}. 8 \<le> p \<and> um_taken t base gs (p - 8) ?n F"
    using malloc_loop_ok [OF ok f n(2) eq(3)] unfolding eq(2) core by blast
  show ?thesis
  proof (intro exI conjI)
    show "malloc sbrk base nbytes s = Some (r, t)" using run r(1) by simp
    show "case r of
         None \<Rightarrow> new_core sbrk ?n s = {} \<and> um_free_bytes t gs = um_free_bytes s hs
       | Some p \<Rightarrow> \<exists>F \<in> {um_free_bytes s hs, um_free_bytes s hs \<union> new_core sbrk ?n s}.
           p + unat nbytes \<le> um_end t (p - 8) \<and> um_block t (p - 8) \<subseteq> F \<and> um_free_bytes t gs = F - um_block t (p - 8)"
    proof (cases r)
      case (Some p)
      then obtain F where "F \<in> {um_free_bytes s hs, um_free_bytes s hs \<union> new_core sbrk ?n s}"
        "8 \<le> p" "um_taken t base gs (p - 8) ?n F" using c by auto
      then show ?thesis using room [of t gs p F] Some unfolding um_taken_def by auto
    qed (use c in simp)
  qed (rule r(2))
qed


definition um_start :: um_st where
  "um_start = \<lparr>um_ptr = \<lambda>_. 0, um_size = \<lambda>_. 0, um_freep = None, um_log = []\<rparr>"

theorem malloc_correct_witness:
  "\<exists>p t gs F. malloc (\<lambda>_ _. Some 8192) 4096 20 um_start = Some (Some p, t) \<and> um_ok t 4096 gs
     \<and> p + 20 \<le> um_end t (p - 8) \<and> um_block t (p - 8) \<subseteq> F \<and> F \<subseteq> {8192 ..< 40960}"
proof -
  have n: "core_units (malloc_units 20) = 4096" by (simp add: core_units_def malloc_units_def)
  have c: "new_core (\<lambda>_ _. Some 8192) (malloc_units 20) um_start = {8192 ..< 40960}"
    by (simp add: new_core_def n units_def)
  have f: "sbrk_fresh (\<lambda>_ _. Some 8192) 4096 (malloc_units 20) um_start []"
    by (simp add: sbrk_fresh_def n units_def)
  obtain r t gs where "malloc (\<lambda>_ _. Some 8192) 4096 20 um_start = Some (r, t)" "um_ok t 4096 gs"
     "case r of
         None \<Rightarrow> new_core (\<lambda>_ _. Some 8192) (malloc_units 20) um_start = {} \<and> um_free_bytes t gs = um_free_bytes um_start []
       | Some p \<Rightarrow> \<exists>F \<in> {um_free_bytes um_start [], um_free_bytes um_start [] \<union> new_core (\<lambda>_ _. Some 8192) (malloc_units 20) um_start}.
           p + unat (20 :: u32) \<le> um_end t (p - 8) \<and> um_block t (p - 8) \<subseteq> F \<and> um_free_bytes t gs = F - um_block t (p - 8)"
    using malloc_correct [of um_start "[]" 4096 20, OF _ _ f] by (auto simp: um_start_def)
  then show ?thesis by (cases r) (auto simp: c um_free_bytes_def)
qed

theorem free_correct_witness:
  "\<exists>t gs. ufree 8200 (um_start\<lparr>um_ptr := \<lambda>_. 4096, um_size := (\<lambda>_. 0)(8192 := 16), um_freep := Some 4096\<rparr>) = Some t
     \<and> um_ok t 4096 gs \<and> um_free_bytes t gs = {8192 ..< 8320}"
proof -
  let ?s = "um_start\<lparr>um_ptr := \<lambda>_. 4096, um_size := (\<lambda>_. 0)(8192 := 16), um_freep := Some 4096\<rparr>"
  have "um_ok ?s 4096 []" "um_free_bytes ?s [] = {}" by (simp_all add: um_ok_def um_free_bytes_def)
  moreover have e: "um_end ?s 8192 = 8320" by (simp add: um_end_def units_def)
  ultimately show ?thesis
    using free_correct [of ?s 4096 "[]" 8192] by (simp add: um_block_def)
qed


text \<open>The number of units wraps for requests of nearly 4 GB: \<open>malloc\<close> then answers a block of one unit.\<close>

lemma malloc_units_wraps: "malloc_units 0xFFFFFFFF = 1"
  by (simp add: malloc_units_def)

end
