(* ===== verification/Segments.thy ===== *)
theory Segments
  imports Proc Ports
begin

unbundle bit_operations_syntax

section \<open>Segments and interrupt gates\<close>

text \<open>
  The descriptors of \<^verbatim>\<open>src/mmu.h\<close> with their bit fields, \<open>seginit\<close> of \<^verbatim>\<open>src/vm.c\<close>, the descriptor \<open>switchuvm\<close>
  makes for the task state, and \<open>tvinit\<close> and \<open>idtinit\<close> of \<^verbatim>\<open>src/trap.c\<close>. The addresses of the tables
  and of the members of the CPU structures are fields of the state, as is the table \<open>vectors\<close> of the generated
  file \<^verbatim>\<open>vectors.S\<close>. The lock that \<open>tvinit\<close> initialises is left out.
\<close>

subsection \<open>Descriptors\<close>

text \<open>The kinds of segments and gates, with the bits of their type field.\<close>

datatype seg_kind = STA_X | STA_E | STA_C | STA_W | STA_R | STA_A
  | STS_T16A | STS_LDT | STS_T16B | STS_CG16 | STS_TG | STS_IG16 | STS_TG16
  | STS_T32A | STS_T32B | STS_CG32 | STS_IG32 | STS_TG32

primrec seg_bits :: "seg_kind \<Rightarrow> 4 word" where
  "seg_bits STA_X = 0x8"
| "seg_bits STA_E = 0x4"
| "seg_bits STA_C = 0x4"
| "seg_bits STA_W = 0x2"
| "seg_bits STA_R = 0x2"
| "seg_bits STA_A = 0x1"
| "seg_bits STS_T16A = 0x1"
| "seg_bits STS_LDT = 0x2"
| "seg_bits STS_T16B = 0x3"
| "seg_bits STS_CG16 = 0x4"
| "seg_bits STS_TG = 0x5"
| "seg_bits STS_IG16 = 0x6"
| "seg_bits STS_TG16 = 0x7"
| "seg_bits STS_T32A = 0x9"
| "seg_bits STS_T32B = 0xB"
| "seg_bits STS_CG32 = 0xC"
| "seg_bits STS_IG32 = 0xE"
| "seg_bits STS_TG32 = 0xF"

record segdesc =
  lim_15_0 :: u16
  base_15_0 :: u16
  base_23_16 :: u8
  sd_type :: "4 word"
  sd_s :: "1 word"
  sd_dpl :: "2 word"
  sd_p :: "1 word"
  lim_19_16 :: "4 word"
  sd_avl :: "1 word"
  sd_rsv1 :: "1 word"
  sd_db :: "1 word"
  sd_g :: "1 word"
  base_31_24 :: u8

definition SEG :: "4 word \<Rightarrow> u32 \<Rightarrow> u32 \<Rightarrow> 2 word \<Rightarrow> segdesc" where
  "SEG type base lim dpl = \<lparr>lim_15_0 = ucast (drop_bit 12 lim AND 0xffff), base_15_0 = ucast (base AND 0xffff),
     base_23_16 = ucast (drop_bit 16 base AND 0xff), sd_type = type, sd_s = 1, sd_dpl = dpl, sd_p = 1,
     lim_19_16 = ucast (drop_bit 28 lim), sd_avl = 0, sd_rsv1 = 0, sd_db = 1, sd_g = 1,
     base_31_24 = ucast (drop_bit 24 base)\<rparr>"

definition SEG16 :: "4 word \<Rightarrow> u32 \<Rightarrow> u32 \<Rightarrow> 2 word \<Rightarrow> segdesc" where
  "SEG16 type base lim dpl = \<lparr>lim_15_0 = ucast (lim AND 0xffff), base_15_0 = ucast (base AND 0xffff),
     base_23_16 = ucast (drop_bit 16 base AND 0xff), sd_type = type, sd_s = 1, sd_dpl = dpl, sd_p = 1,
     lim_19_16 = ucast (drop_bit 16 lim), sd_avl = 0, sd_rsv1 = 0, sd_db = 1, sd_g = 0,
     base_31_24 = ucast (drop_bit 24 base)\<rparr>"

record gatedesc =
  off_15_0 :: u16
  gd_cs :: u16
  gd_args :: "5 word"
  gd_rsv1 :: "3 word"
  gd_type :: "4 word"
  gd_s :: "1 word"
  gd_dpl :: "2 word"
  gd_p :: "1 word"
  off_31_16 :: u16

definition SETGATE :: "bool \<Rightarrow> u16 \<Rightarrow> u32 \<Rightarrow> 2 word \<Rightarrow> gatedesc" where
  "SETGATE istrap sel off d = \<lparr>off_15_0 = ucast (off AND 0xffff), gd_cs = sel, gd_args = 0, gd_rsv1 = 0,
     gd_type = seg_bits (if istrap then STS_TG32 else STS_IG32), gd_s = 0, gd_dpl = d, gd_p = 1,
     off_31_16 = ucast (drop_bit 16 off)\<rparr>"

subsection \<open>Setting up a CPU\<close>

definition SEG_KCODE :: u16 where "SEG_KCODE = 1"
definition SEG_KCPU :: u16 where "SEG_KCPU = 3"
definition SEG_TSS :: u16 where "SEG_TSS = 6"

text \<open>
  \<open>gdt\<close> has the table of every CPU; \<open>a_gdt\<close>, \<open>a_cpu\<close> and \<open>a_ts\<close> are the addresses of the members \<open>gdt\<close>,
  \<open>cpu\<close> and \<open>ts\<close> of \<open>cpus[i]\<close>. \<open>gdtr\<close> and \<open>idtr\<close> are the three half-words last loaded, \<open>gs\<close> and \<open>tr\<close> the selectors.
\<close>

record seg_st = io_st +
  gdt :: "nat \<Rightarrow> u16 \<Rightarrow> segdesc"
  a_gdt :: "nat \<Rightarrow> u32"
  a_cpu :: "nat \<Rightarrow> u32"
  a_ts :: "nat \<Rightarrow> u32"
  gdtr :: "u16 list"
  gs :: u16
  tr :: u16
  cpu_now :: "nat option"
  proc_now :: "nat option"
  idt :: "nat \<Rightarrow> gatedesc"
  a_idt :: u32
  vectors :: "nat \<Rightarrow> u32"
  idtr :: "u16 list"

definition pseudo_desc :: "u32 \<Rightarrow> u32 \<Rightarrow> u16 list" where
  "pseudo_desc p sz = [ucast (sz - 1), ucast p, ucast (drop_bit 16 p)]"

definition lgdt :: "u32 \<Rightarrow> u32 \<Rightarrow> ('x seg_st_scheme, unit) kern" where
  "lgdt p sz = kmod (\<lambda>s. s\<lparr>gdtr := pseudo_desc p sz\<rparr>)"

definition lidt :: "u32 \<Rightarrow> u32 \<Rightarrow> ('x seg_st_scheme, unit) kern" where
  "lidt p sz = kmod (\<lambda>s. s\<lparr>idtr := pseudo_desc p sz\<rparr>)"

definition set_seg :: "nat \<Rightarrow> u16 \<Rightarrow> segdesc \<Rightarrow> ('x seg_st_scheme, unit) kern" where
  "set_seg c i d = kmod (\<lambda>s. s\<lparr>gdt := (gdt s)(c := (gdt s c)(i := d))\<rparr>)"

definition seginit :: "('x seg_st_scheme, unit) kern" where
  "seginit = kbind cpunum (\<lambda>n. let c = unat n in
     if NCPU \<le> c then fault ''cpus''
     else kseq (set_seg c SEG_KCODE (SEG (seg_bits STA_X OR seg_bits STA_R) 0 0xffffffff 0))
         (kseq (set_seg c SEG_KDATA (SEG (seg_bits STA_W) 0 0xffffffff 0))
         (kseq (set_seg c SEG_UCODE (SEG (seg_bits STA_X OR seg_bits STA_R) 0 0xffffffff (ucast DPL_USER)))
         (kseq (set_seg c SEG_UDATA (SEG (seg_bits STA_W) 0 0xffffffff (ucast DPL_USER)))
         (kbind (kget (\<lambda>s. a_cpu s c)) (\<lambda>a.
          kseq (set_seg c SEG_KCPU (SEG (seg_bits STA_W) a 8 0))
         (kbind (kget (\<lambda>s. a_gdt s c)) (\<lambda>g.
          kseq (lgdt g (7 * 8))
         (kseq (kmod (\<lambda>s. s\<lparr>gs := push_bit 3 SEG_KCPU\<rparr>))
          (kmod (\<lambda>s. s\<lparr>cpu_now := Some c, proc_now := None\<rparr>)))))))))))"

text \<open>The part of \<open>switchuvm\<close> that makes the task state known to the CPU; a \<open>struct taskstate\<close> has 104 bytes.\<close>

definition set_tss :: "nat \<Rightarrow> ('x seg_st_scheme, unit) kern" where
  "set_tss c = kbind (kget (\<lambda>s. a_ts s c)) (\<lambda>a.
     kseq (set_seg c SEG_TSS ((SEG16 (seg_bits STS_T32A) a (104 - 1) 0)\<lparr>sd_s := 0\<rparr>))
          (kmod (\<lambda>s. s\<lparr>tr := push_bit 3 SEG_TSS\<rparr>)))"

definition set_gate :: "bool \<Rightarrow> nat \<Rightarrow> 2 word \<Rightarrow> ('x seg_st_scheme, unit) kern" where
  "set_gate istrap i d = kmod (\<lambda>s. s\<lparr>idt := (idt s)(i := SETGATE istrap (push_bit 3 SEG_KCODE) (vectors s i) d)\<rparr>)"

definition tvinit :: "('x seg_st_scheme, unit) kern" where
  "tvinit = kseq (kfor [0..<256] (\<lambda>i. set_gate False i 0)) (set_gate True (unat T_SYSCALL) (ucast DPL_USER))"

definition idtinit :: "('x seg_st_scheme, unit) kern" where
  "idtinit = kbind (kget a_idt) (\<lambda>a. lidt a (256 * 8))"

subsection \<open>What the CPU reads\<close>

text \<open>
  The base and the last offset of a segment; with the granularity bit the limit counts pages of 4K.
  The base of a table from the three half-words of its register. The entry point of a gate.
\<close>

definition seg_base :: "segdesc \<Rightarrow> u32" where
  "seg_base d = ucast (base_15_0 d) OR push_bit 16 (ucast (base_23_16 d)) OR push_bit 24 (ucast (base_31_24 d))"

definition seg_limit :: "segdesc \<Rightarrow> u32" where
  "seg_limit d = (let lim = ucast (lim_15_0 d) OR push_bit 16 (ucast (lim_19_16 d)) in
     if sd_g d = 1 then push_bit 12 lim OR 0xfff else lim)"

definition gate_offset :: "gatedesc \<Rightarrow> u32" where
  "gate_offset g = ucast (off_15_0 g) OR push_bit 16 (ucast (off_31_16 g))"

definition table_base :: "u16 list \<Rightarrow> u32" where
  "table_base r = ucast (r ! 1) OR push_bit 16 (ucast (r ! 2))"

lemma low_half: "(w :: u32) AND 0xffff = take_bit 16 w"
  by (simp add: take_bit_eq_mask mask_eq_exp_minus_1)

lemma low_byte: "(w :: u32) AND 0xff = take_bit 8 w"
  by (simp add: take_bit_eq_mask mask_eq_exp_minus_1)

lemma low_page_mask: "(0xfff :: u32) = mask 12"
  by (simp add: mask_eq_exp_minus_1)

lemma bit_cut:
  "bit (ucast (ucast (w :: u32) :: u16) :: u32) n \<longleftrightarrow> n < 16 \<and> bit w n"
  "bit (ucast (ucast (w :: u32) :: u8) :: u32) n \<longleftrightarrow> n < 8 \<and> bit w n"
  "bit (ucast (ucast (w :: u32) :: 4 word) :: u32) n \<longleftrightarrow> n < 4 \<and> bit w n"
  by (auto simp: bit_simps)

lemma halves [simp]: "ucast (ucast (w AND 0xffff) :: u16) OR push_bit 16 (ucast (ucast (drop_bit 16 w) :: u16)) = (w :: u32)"
  by (rule bit_word_eqI) (auto simp: low_half bit_simps)

lemma halves' [simp]: "ucast (ucast w :: u16) OR push_bit 16 (ucast (ucast (drop_bit 16 w) :: u16)) = (w :: u32)"
  by (rule bit_word_eqI) (auto simp: bit_simps)

lemma base_parts:
  fixes w :: u32
  shows "ucast (ucast (w AND 0xffff) :: u16) OR push_bit 16 (ucast (ucast (drop_bit 16 w AND 0xff) :: u8))
     OR push_bit 24 (ucast (ucast (drop_bit 24 w) :: u8)) = w" (is "?a OR ?b OR ?c = w")
proof (rule bit_word_eqI)
  fix n assume n: "n < LENGTH(32)"
  have "bit ?a n \<longleftrightarrow> n < 16 \<and> bit w n" by (simp only: low_half bit_cut) (simp add: bit_take_bit_iff)
  moreover have "bit ?b n \<longleftrightarrow> 16 \<le> n \<and> n < 24 \<and> bit w n"
    using n by (auto simp only: bit_push_bit_iff low_byte bit_cut bit_take_bit_iff bit_drop_bit_eq o_def) auto
  moreover have "bit ?c n \<longleftrightarrow> 24 \<le> n \<and> bit w n"
    using n by (auto simp only: bit_push_bit_iff bit_cut bit_drop_bit_eq o_def) auto
  ultimately show "bit (?a OR ?b OR ?c) n \<longleftrightarrow> bit w n" by (auto simp only: bit_or_iff)
qed

lemma gate_offset_SETGATE [simp]: "gate_offset (SETGATE istrap sel off d) = off"
  by (simp add: gate_offset_def SETGATE_def)

lemma table_base_pseudo [simp]: "table_base (pseudo_desc p n) = p"
  by (simp add: table_base_def pseudo_desc_def)

lemma seg_base_SEG [simp]: "seg_base (SEG t b l d) = b" "seg_base (SEG16 t b l d) = b"
  by (simp_all add: seg_base_def SEG_def SEG16_def base_parts)

lemma seg_limit_SEG [simp]: "seg_limit (SEG t b l d) = l OR 0xfff"
proof (rule bit_word_eqI)
  fix n assume "n < LENGTH(32)"
  then consider "n < 12" | "12 \<le> n \<and> n < 28" | "28 \<le> n \<and> n < 32" by fastforce
  then show "bit (seg_limit (SEG t b l d)) n \<longleftrightarrow> bit (l OR 0xfff) n"
    by cases (auto simp: seg_limit_def SEG_def Let_def low_half low_page_mask bit_simps)
qed

lemma limit_parts:
  fixes l :: u32
  assumes "l < 2 ^ 20"
  shows "ucast (ucast (l AND 0xffff) :: u16) OR push_bit 16 (ucast (ucast (drop_bit 16 l) :: 4 word)) = l" (is "?a OR ?b = l")
proof (rule bit_word_eqI)
  fix n assume n: "n < LENGTH(32)"
  have "bit l n \<longleftrightarrow> bit (l AND mask 20) n" using less_mask_eq [OF assms] by simp
  then have "bit l n \<longrightarrow> n < 20" by (simp only: bit_and_iff bit_mask_iff) blast
  moreover have "bit ?a n \<longleftrightarrow> n < 16 \<and> bit l n" by (simp only: low_half bit_cut) (simp add: bit_take_bit_iff)
  moreover have "bit ?b n \<longleftrightarrow> 16 \<le> n \<and> n < 20 \<and> bit l n"
    using n by (auto simp only: bit_push_bit_iff bit_cut bit_drop_bit_eq o_def) auto
  ultimately show "bit (?a OR ?b) n \<longleftrightarrow> bit l n" by (auto simp only: bit_or_iff)
qed

lemma seg_limit_SEG16: "l < 2 ^ 20 \<Longrightarrow> seg_limit (SEG16 t b l d) = l"
  by (simp add: seg_limit_def SEG16_def Let_def limit_parts)

lemma SEG_sel [simp]: "sd_type (SEG t b l d) = t" "sd_dpl (SEG t b l d) = d" "sd_p (SEG t b l d) = 1" "sd_s (SEG t b l d) = 1"
  by (simp_all add: SEG_def)

lemma SETGATE_sel [simp]: "gd_cs (SETGATE i sel off d) = sel" "gd_dpl (SETGATE i sel off d) = d" "gd_p (SETGATE i sel off d) = 1"
  "gd_type (SETGATE i sel off d) = seg_bits (if i then STS_TG32 else STS_IG32)"
  by (simp_all add: SETGATE_def)

lemmas seg_number_defs = SEG_KCODE_def SEG_KDATA_def SEG_KCPU_def SEG_UCODE_def SEG_UDATA_def SEG_TSS_def

subsection \<open>The tables of a CPU\<close>

definition this_cpu :: "'x io_st_scheme \<Rightarrow> nat" where
  "this_cpu s = (if p_lapic s then unat (drop_bit 24 (io_dev s (io_log s) (ApicR (lapic_index LAPIC_ID)))) else 0)"

lemma cpunum_apply: "\<exists>l. cpunum s = Ret (of_nat (this_cpu s)) (s\<lparr>io_log := l\<rparr>)"
proof (cases "p_lapic s")
  case False
  have "s\<lparr>io_log := io_log s\<rparr> = s" by simp
  then show ?thesis using False by (auto simp: cpunum_def this_cpu_def intro!: exI [of _ "io_log s"])
qed (auto simp: cpunum_def this_cpu_def)

lemma this_cpu_less: "this_cpu s < 2 ^ 32"
  using unsigned_less [of "drop_bit 24 (io_dev s (io_log s) (ApicR (lapic_index LAPIC_ID)))", where ?'a = nat]
  by (simp add: this_cpu_def)

lemma set_seg_apply [simp]: "set_seg c i d s = Ret () (s\<lparr>gdt := (gdt s)(c := (gdt s c)(i := d))\<rparr>)"
  by (simp add: set_seg_def)

lemma set_gate_apply:
  "set_gate b i d s = Ret () (s\<lparr>idt := (idt s)(i := SETGATE b (push_bit 3 SEG_KCODE) (vectors s i) d)\<rparr>)"
  by (simp add: set_gate_def)

lemma set_gates:
  "kfor is (\<lambda>i. set_gate b i d) s = Ret () (s\<lparr>idt := \<lambda>i. if i \<in> set is
      then SETGATE b (push_bit 3 SEG_KCODE) (vectors s i) d else idt s i\<rparr>)"
proof (induction "is" arbitrary: s)
  case (Cons i "is")
  let ?g = "\<lambda>j. SETGATE b (push_bit 3 SEG_KCODE) (vectors s j) d"
  let ?u = "s\<lparr>idt := (idt s)(i := ?g i)\<rparr>"
  have "kfor (i # is) (\<lambda>i. set_gate b i d) s = kfor is (\<lambda>i. set_gate b i d) ?u"
    by (simp only: kfor.simps kseq_Ret [OF set_gate_apply])
  moreover have "vectors ?u = vectors s" "idt ?u = (idt s)(i := ?g i)" "?u\<lparr>idt := f\<rparr> = s\<lparr>idt := f\<rparr>" for f by simp_all
  moreover have "(\<lambda>j. if j \<in> set is then ?g j else ((idt s)(i := ?g i)) j) = (\<lambda>j. if j \<in> set (i # is) then ?g j else idt s j)"
    by (rule ext) simp
  ultimately show ?case by (simp only: Cons.IH)
qed simp

text \<open>The segments of a CPU after \<open>seginit\<close>, by number.\<close>

definition kernel_segments :: "u32 \<Rightarrow> (u16 \<Rightarrow> segdesc) \<Rightarrow> u16 \<Rightarrow> segdesc" where
  "kernel_segments a g = g(SEG_KCODE := SEG (seg_bits STA_X OR seg_bits STA_R) 0 0xffffffff 0,
     SEG_KDATA := SEG (seg_bits STA_W) 0 0xffffffff 0,
     SEG_UCODE := SEG (seg_bits STA_X OR seg_bits STA_R) 0 0xffffffff (ucast DPL_USER),
     SEG_UDATA := SEG (seg_bits STA_W) 0 0xffffffff (ucast DPL_USER),
     SEG_KCPU := SEG (seg_bits STA_W) a 8 0)"

lemma seginit_apply:
  assumes "this_cpu s < NCPU"
  shows "\<exists>l. seginit s = Ret () (s\<lparr>io_log := l,
     gdt := (gdt s)(this_cpu s := kernel_segments (a_cpu s (this_cpu s)) (gdt s (this_cpu s))),
     gdtr := pseudo_desc (a_gdt s (this_cpu s)) 56, gs := push_bit 3 SEG_KCPU,
     cpu_now := Some (this_cpu s), proc_now := None\<rparr>)"
proof -
  obtain l where l: "cpunum s = Ret (of_nat (this_cpu s)) (s\<lparr>io_log := l\<rparr>)" using cpunum_apply by blast
  have c: "unat (of_nat (this_cpu s) :: u32) = this_cpu s" using this_cpu_less [of s] by (simp add: unat_of_nat)
  show ?thesis
    using assms by (intro exI [of _ l])
      (simp add: seginit_def l c Let_def lgdt_def kernel_segments_def)
qed

text \<open>
  C23: the interrupt table protects the kernel. After \<open>seginit\<close>, \<open>tvinit\<close> and \<open>idtinit\<close> the CPU has the two
  tables loaded; every vector enters the kernel at its entry point, in a flat code segment of privilege 0;
  a user program can raise the system call vector only, and only that one leaves interrupts enabled; user segments are
  flat and of privilege 3, and \<open>gs\<close> selects the variables of the CPU.
\<close>

theorem idt_protects:
  assumes "this_cpu s < NCPU"
  shows "\<exists>t. kseq seginit (kseq tvinit idtinit) s = Ret () t
    \<and> table_base (gdtr t) = a_gdt s (this_cpu s) \<and> table_base (idtr t) = a_idt s
    \<and> seg_base (gdt t (this_cpu s) (drop_bit 3 (gs t))) = a_cpu s (this_cpu s)
    \<and> (\<forall>i \<in> {SEG_UCODE, SEG_UDATA}. seg_base (gdt t (this_cpu s) i) = 0 \<and> seg_limit (gdt t (this_cpu s) i) = 0xffffffff
         \<and> sd_dpl (gdt t (this_cpu s) i) = 3)
    \<and> (\<forall>n < 256. gate_offset (idt t n) = vectors s n \<and> gd_p (idt t n) = 1
         \<and> (gd_dpl (idt t n) = 3 \<longleftrightarrow> n = unat T_SYSCALL) \<and> (n \<noteq> unat T_SYSCALL \<longrightarrow> gd_dpl (idt t n) = 0)
         \<and> gd_type (idt t n) = seg_bits (if n = unat T_SYSCALL then STS_TG32 else STS_IG32)
         \<and> (let d = gdt t (this_cpu s) (drop_bit 3 (gd_cs (idt t n))) in
              seg_base d = 0 \<and> seg_limit d = 0xffffffff \<and> sd_dpl d = 0 \<and> sd_type d AND seg_bits STA_X \<noteq> 0))"
proof -
  obtain l where l: "seginit s = Ret () (s\<lparr>io_log := l,
     gdt := (gdt s)(this_cpu s := kernel_segments (a_cpu s (this_cpu s)) (gdt s (this_cpu s))),
     gdtr := pseudo_desc (a_gdt s (this_cpu s)) 56, gs := push_bit 3 SEG_KCPU,
     cpu_now := Some (this_cpu s), proc_now := None\<rparr>)" using seginit_apply [OF assms] by blast
  show ?thesis
    by (simp add: l tvinit_def set_gates set_gate_apply idtinit_def lidt_def del: upt_conv_Cons)
      (simp add: kernel_segments_def seg_number_defs DPL_USER_def T_SYSCALL_def Let_def)
qed

definition seg_start :: seg_st where
  "seg_start = \<lparr>io_dev = (\<lambda>l a. push_bit 24 3), io_sector = (\<lambda>l. zero_block), io_log = [], io_budget = 1,
     irqmask = irqmask_start, p_ismp = True, p_lapic = True, p_uart = False, io_mem = (\<lambda>_. 0),
     gdt = (\<lambda>_ _. SEG 0 0 0 0), a_gdt = (\<lambda>c. 0x80112000 + 188 * of_nat c), a_cpu = (\<lambda>c. 0x80112084 + 188 * of_nat c),
     a_ts = (\<lambda>c. 0x80111f98 + 188 * of_nat c), gdtr = [], gs = 0, tr = 0, cpu_now = None, proc_now = None,
     idt = (\<lambda>_. SETGATE False 0 0 0), a_idt = 0x80114ca0, vectors = (\<lambda>n. 0x80105000 + 9 * of_nat n), idtr = []\<rparr>"

lemma this_cpu_start [simp]: "this_cpu seg_start = 3"
  by (simp add: this_cpu_def seg_start_def)

theorem idt_protects_witness:
  "\<exists>t. kseq seginit (kseq tvinit idtinit) seg_start = Ret () t \<and> table_base (idtr t) = 0x80114ca0
    \<and> gate_offset (idt t 64) = 0x80105240 \<and> gd_dpl (idt t 64) = 3 \<and> gd_dpl (idt t 13) = 0
    \<and> sd_dpl (gdt t 3 (drop_bit 3 (gd_cs (idt t 64)))) = 0"
proof -
  have "this_cpu seg_start < NCPU" by (simp add: NCPU_def)
  from idt_protects [OF this] obtain t where t: "kseq seginit (kseq tvinit idtinit) seg_start = Ret () t"
      "table_base (idtr t) = a_idt seg_start"
    and n: "\<forall>n < 256. gate_offset (idt t n) = vectors seg_start n \<and> gd_p (idt t n) = 1
         \<and> (gd_dpl (idt t n) = 3 \<longleftrightarrow> n = unat T_SYSCALL) \<and> (n \<noteq> unat T_SYSCALL \<longrightarrow> gd_dpl (idt t n) = 0)
         \<and> gd_type (idt t n) = seg_bits (if n = unat T_SYSCALL then STS_TG32 else STS_IG32)
         \<and> (let d = gdt t (this_cpu seg_start) (drop_bit 3 (gd_cs (idt t n))) in
              seg_base d = 0 \<and> seg_limit d = 0xffffffff \<and> sd_dpl d = 0 \<and> sd_type d AND seg_bits STA_X \<noteq> 0)"
    by blast
  have "a_idt seg_start = 0x80114ca0" "vectors seg_start 64 = 0x80105240" by (simp_all add: seg_start_def)
  then show ?thesis using t n [rule_format, of 64] n [rule_format, of 13] by (simp add: T_SYSCALL_def Let_def)
qed

text \<open>The task state segment \<open>switchuvm\<close> makes covers the 104 bytes of the structure.\<close>

lemma set_tss_covers:
  "\<exists>t. set_tss c s = Ret () t \<and> seg_base (gdt t c (drop_bit 3 (tr t))) = a_ts s c
    \<and> seg_limit (gdt t c (drop_bit 3 (tr t))) = 103 \<and> sd_s (gdt t c (drop_bit 3 (tr t))) = 0"
proof -
  have "seg_limit ((SEG16 (seg_bits STS_T32A) a 103 0)\<lparr>sd_s := 0\<rparr>) = 103" for a
    using seg_limit_SEG16 [of 103 "seg_bits STS_T32A" a 0] by (simp add: seg_limit_def)
  moreover have "seg_base ((SEG16 (seg_bits STS_T32A) a 103 0)\<lparr>sd_s := 0\<rparr>) = a" for a
    using seg_base_SEG(2) [of "seg_bits STS_T32A" a 103 0] by (simp add: seg_base_def)
  ultimately show ?thesis by (simp add: set_tss_def SEG_TSS_def)
qed

end
