(* ===== verification/Boot.thy ===== *)
theory Boot
  imports Elf Kstring Ports
begin

unbundle bit_operations_syntax

section \<open>bootmain.c: the boot loader\<close>

text \<open>
  \<^verbatim>\<open>src/bootmain.c\<close>, which loads the kernel from the disk into physical memory, here \<open>io_mem\<close>. The jump to the
  kernel is the answer of \<open>bootmain\<close>; no answer is the return to \<^verbatim>\<open>bootasm.S\<close> on a file that is not a kernel. The
  loop of \<open>readseg\<close> compares 32-bit addresses. After \<open>2 ^ 23\<close> sectors its address is back where it
  started, so a loop that has not ended by then never does.
\<close>

definition waitdisk :: "('x io_st_scheme, unit) kern" where
  "waitdisk = spin (kbind (inb 0x1F7) (\<lambda>b. kret (if b AND 0xC0 \<noteq> 0x40 then None else Some ())))"

text \<open>\<open>insl\<close> of a sector into memory.\<close>

definition put_sector :: "u32 \<Rightarrow> block \<Rightarrow> memory \<Rightarrow> memory" where
  "put_sector dst d m = (\<lambda>a. if in_region dst 512 a then d (unat (a - dst)) else m a)"

definition readsect :: "u32 \<Rightarrow> u32 \<Rightarrow> ('x io_st_scheme, unit) kern" where
  "readsect dst offset =
     kseq waitdisk
    (kseq (outb 0x1F2 1)
    (kseq (outb 0x1F3 (ucast offset))
    (kseq (outb 0x1F4 (ucast (drop_bit 8 offset)))
    (kseq (outb 0x1F5 (ucast (drop_bit 16 offset)))
    (kseq (outb 0x1F6 (ucast (drop_bit 24 offset OR 0xE0)))
    (kseq (outb 0x1F7 0x20)
    (kseq waitdisk
    (kbind (insl 0x1F0 (512 div 4)) (\<lambda>d. kmod (\<lambda>s. s\<lparr>io_mem := put_sector dst d (io_mem s)\<rparr>))))))))))"

primrec readseg_loop :: "nat \<Rightarrow> u32 \<Rightarrow> u32 \<Rightarrow> u32 \<Rightarrow> ('x io_st_scheme, unit) kern" where
  "readseg_loop 0 pa epa offset = (if pa < epa then (\<lambda>s. Switch s) else kret ())"
| "readseg_loop (Suc n) pa epa offset =
     (if pa < epa then kseq (readsect pa offset) (readseg_loop n (pa + 512) epa (offset + 1)) else kret ())"

definition readseg :: "u32 \<Rightarrow> u32 \<Rightarrow> u32 \<Rightarrow> ('x io_st_scheme, unit) kern" where
  "readseg pa count offset =
     readseg_loop (2 ^ 23) (pa - offset mod 512) (pa + count) (offset div 512 + 1)"

definition mem_bytes :: "memory \<Rightarrow> u32 \<Rightarrow> nat \<Rightarrow> u8 list" where
  "mem_bytes m a n = map (\<lambda>i. m (a + of_nat i)) [0..<n]"

definition boot_segment :: "proghdr \<Rightarrow> ('x io_st_scheme, unit) kern" where
  "boot_segment ph =
     kseq (readseg (ph_paddr ph) (ph_filesz ph) (ph_off ph))
     (kwhen (ph_filesz ph < ph_memsz ph)
       (kmod (\<lambda>s. s\<lparr>io_mem := stosb (unat (ph_memsz ph - ph_filesz ph)) (io_mem s) (ph_paddr ph + ph_filesz ph) 0\<rparr>)))"

text \<open>The loop over the headers; they are read from memory in every turn. A loop of \<open>phnum\<close> turns reaches \<open>eph\<close>.\<close>

primrec boot_load :: "nat \<Rightarrow> u32 \<Rightarrow> u32 \<Rightarrow> ('x io_st_scheme, unit) kern" where
  "boot_load 0 ph eph = kret ()"
| "boot_load (Suc n) ph eph = (if ph < eph
     then kbind (kget (\<lambda>s. ph_of (mem_bytes (io_mem s) ph 32))) (\<lambda>h.
            kseq (boot_segment h) (boot_load n (ph + 32) eph))
     else kret ())"

definition bootmain :: "('x io_st_scheme, u32 option) kern" where
  "bootmain =
     kseq (readseg 0x10000 4096 0)
    (kbind (kget (\<lambda>s. elf_of (mem_bytes (io_mem s) 0x10000 52))) (\<lambda>elf.
       if eh_magic elf \<noteq> ELF_MAGIC then kret None
       else kseq (boot_load (unat (eh_phnum elf)) (0x10000 + eh_phoff elf)
                   (0x10000 + eh_phoff elf + ucast (eh_phnum elf) * 32))
           (kret (Some (eh_entry elf)))))"

subsection \<open>The disk\<close>

text \<open>
  What the loader relies on: the disk is ready when asked often enough, and answers the sector whose number
  is in its registers after a command to read one sector. The file of the kernel starts at sector 1.
\<close>

definition disk_lba :: "io list \<Rightarrow> u32" where
  "disk_lba l = (let b = (\<lambda>p. ucast (the (port_value l p)) :: u32) in
     b 0x1f3 OR push_bit 8 (b 0x1f4) OR push_bit 16 (b 0x1f5) OR push_bit 24 (b 0x1f6 AND 0x0f))"

definition boot_disk :: "(nat \<Rightarrow> block) \<Rightarrow> 'x io_st_scheme \<Rightarrow> bool" where
  "boot_disk img s \<longleftrightarrow> 0 < io_budget s \<and> (\<forall>l. ucast (io_dev s l (Inb 0x1F7)) AND 0xC0 = (0x40 :: u8))
     \<and> (\<forall>l. port_value l 0x1f2 = Some 1 \<and> port_value l 0x1f7 = Some 0x20 \<longrightarrow> io_sector s l = img (unat (disk_lba l)))"

definition file_byte :: "(nat \<Rightarrow> block) \<Rightarrow> nat \<Rightarrow> u8" where
  "file_byte img k = img (1 + k div 512) (k mod 512)"

lemma bit_byte: "bit (ucast (ucast (w :: u32) :: u8) :: u32) n \<longleftrightarrow> n < 8 \<and> bit w n"
  by (auto simp: bit_simps)

lemma bit_E0: "n < 4 \<Longrightarrow> \<not> bit (0xE0 :: u32) n"
  by (auto simp: less_Suc_eq numeral_eq_Suc)

lemma lba_parts:
  fixes w :: u32
  assumes "w < 2 ^ 28"
  shows "ucast (ucast w :: u8) OR push_bit 8 (ucast (ucast (drop_bit 8 w) :: u8)) OR push_bit 16 (ucast (ucast (drop_bit 16 w) :: u8))
    OR push_bit 24 (ucast (ucast (drop_bit 24 w OR 0xE0) :: u8) AND 0x0f) = w" (is "?a OR ?b OR ?c OR ?d = w")
proof (rule bit_word_eqI)
  fix n assume n: "n < LENGTH(32)"
  have m: "(0x0f :: u32) = mask 4" by (simp add: mask_eq_exp_minus_1)
  have "bit w n \<longleftrightarrow> bit (w AND mask 28) n" using less_mask_eq [OF assms] by simp
  then have "bit w n \<longrightarrow> n < 28" by (simp only: bit_and_iff bit_mask_iff) blast
  moreover have "bit ?a n \<longleftrightarrow> n < 8 \<and> bit w n" by (simp only: bit_byte)
  moreover have "bit ?b n \<longleftrightarrow> 8 \<le> n \<and> n < 16 \<and> bit w n"
    using n by (auto simp only: bit_push_bit_iff bit_byte bit_drop_bit_eq o_def) auto
  moreover have "bit ?c n \<longleftrightarrow> 16 \<le> n \<and> n < 24 \<and> bit w n"
    using n by (auto simp only: bit_push_bit_iff bit_byte bit_drop_bit_eq o_def) auto
  moreover have "bit ?d n \<longleftrightarrow> 24 \<le> n \<and> n < 28 \<and> bit w n"
    using n bit_E0 [of "n - 24"]
    by (auto simp only: m bit_push_bit_iff bit_byte bit_and_iff bit_or_iff bit_mask_iff bit_drop_bit_eq o_def) auto
  ultimately show "bit (?a OR ?b OR ?c OR ?d) n \<longleftrightarrow> bit w n" by (auto simp only: bit_or_iff)
qed

lemma waitdisk_ready:
  assumes "boot_disk img s"
  shows "waitdisk s = Ret () (s\<lparr>io_log := io_log s @ [Inb 0x1F7]\<rparr>)"
proof -
  obtain n where "io_budget s = Suc n" using assms by (cases "io_budget s") (auto simp: boot_disk_def)
  moreover have "ucast (io_dev s (io_log s) (Inb 0x1F7)) AND 0xC0 = (0x40 :: u8)" using assms by (simp add: boot_disk_def)
  ultimately show ?thesis by (simp add: waitdisk_def spin_def inb_def)
qed

lemma boot_disk_log [simp]: "boot_disk img (s\<lparr>io_log := l\<rparr>) = boot_disk img s" "boot_disk img (s\<lparr>io_mem := m\<rparr>) = boot_disk img s"
  by (simp_all add: boot_disk_def)

lemma readsect_ok:
  assumes "boot_disk img s" "offset < 2 ^ 28"
  shows "\<exists>t. readsect dst offset s = Ret () t \<and> boot_disk img t \<and> io_mem t = put_sector dst (img (unat offset)) (io_mem s)"
proof -
  let ?l = "io_log s @ [Inb 0x1F7, Outb 0x1F2 1, Outb 0x1F3 (ucast offset), Outb 0x1F4 (ucast (drop_bit 8 offset)),
     Outb 0x1F5 (ucast (drop_bit 16 offset)), Outb 0x1F6 (ucast (drop_bit 24 offset OR 0xE0)), Outb 0x1F7 0x20, Inb 0x1F7]"
  have p: "port_value ?l 0x1f2 = Some 1" "port_value ?l 0x1f7 = Some 0x20" "port_value ?l 0x1f3 = Some (ucast offset)"
    "port_value ?l 0x1f4 = Some (ucast (drop_bit 8 offset))" "port_value ?l 0x1f5 = Some (ucast (drop_bit 16 offset))"
    "port_value ?l 0x1f6 = Some (ucast (drop_bit 24 offset OR 0xE0))"
    by (simp_all add: port_step_def)
  have "disk_lba ?l = offset" using lba_parts [OF assms(2)] by (simp only: disk_lba_def p Let_def option.sel)
  moreover have "io_sector s l = img (unat (disk_lba l))" if "port_value l 0x1f2 = Some 1" "port_value l 0x1f7 = Some 0x20" for l
    using assms(1) that by (simp add: boot_disk_def)
  ultimately have d: "io_sector s ?l = img (unat offset)" using p(1,2) by metis
  have "readsect dst offset s = Ret () (s\<lparr>io_log := ?l @ [Insl 0x1F0 128], io_mem := put_sector dst (io_sector s ?l) (io_mem s)\<rparr>)"
    using assms(1) by (simp add: readsect_def waitdisk_ready insl_def)
  then show ?thesis using assms(1) d by auto
qed

lemma region_nat:
  assumes "unat pa + n \<le> 2 ^ 32"
  shows "in_region pa n a \<longleftrightarrow> unat pa \<le> unat a \<and> unat a < unat pa + n"
proof (cases "unat pa \<le> unat a")
  case True
  then have "unat (a - pa) = unat a - unat pa" by (simp add: unat_sub word_le_nat_alt)
  then show ?thesis using True by (auto simp: in_region_def)
next
  case False
  then have "unat (a - pa) = 2 ^ 32 + unat a - unat pa"
    using unat_sub_if' [of a pa] by (simp add: word_le_nat_alt)
  then show ?thesis using False assms by (simp add: in_region_def)
qed

text \<open>Reading \<open>k\<close> sectors from sector \<open>off\<close> on to the address \<open>pa\<close>.\<close>

definition loaded :: "(nat \<Rightarrow> block) \<Rightarrow> nat \<Rightarrow> nat \<Rightarrow> nat \<Rightarrow> memory \<Rightarrow> memory" where
  "loaded img pa off k m = (\<lambda>a. if pa \<le> unat a \<and> unat a < pa + 512 * k
     then img (off + (unat a - pa) div 512) ((unat a - pa) mod 512) else m a)"

lemma put_sector_loaded:
  assumes "unat pa + 512 \<le> 2 ^ 32"
  shows "put_sector pa (img off) m = loaded img (unat pa) off 1 m"
proof (rule ext)
  fix a
  show "put_sector pa (img off) m a = loaded img (unat pa) off 1 m a"
  proof (cases "unat pa \<le> unat a \<and> unat a < unat pa + 512")
    case True
    then have "unat (a - pa) = unat a - unat pa" "unat a - unat pa < 512" by (auto simp: unat_sub word_le_nat_alt)
    then show ?thesis using True region_nat [OF assms] by (simp add: put_sector_def loaded_def)
  next
    case False
    then show ?thesis using region_nat [OF assms, of a] by (auto simp: put_sector_def loaded_def)
  qed
qed

lemma loaded_Suc: "loaded img (pa + 512) (off + 1) k (loaded img pa off 1 m) = loaded img pa off (Suc k) m"
proof (rule ext)
  fix a :: u32
  consider "unat a < pa" | "pa \<le> unat a \<and> unat a < pa + 512" | "pa + 512 \<le> unat a" by linarith
  then show "loaded img (pa + 512) (off + 1) k (loaded img pa off 1 m) a = loaded img pa off (Suc k) m a"
  proof cases
    case 3
    then obtain j where "unat a = pa + 512 + j" using le_Suc_ex by blast
    moreover have "(512 + j) div 512 = Suc (j div 512)" using div_add_self1 [of 512 j] by simp
    ultimately show ?thesis by (simp add: loaded_def)
  qed (simp_all add: loaded_def)
qed

lemma readseg_loop_ok:
  assumes "boot_disk img s" "unat epa \<le> unat pa + 512 * k" "k \<noteq> 0 \<Longrightarrow> unat pa + 512 * (k - 1) < unat epa"
    and "unat pa + 512 * k < 2 ^ 32" "unat off + k \<le> 2 ^ 28" "k \<le> n"
  shows "\<exists>t. readseg_loop n pa epa off s = Ret () t \<and> boot_disk img t \<and> io_mem t = loaded img (unat pa) (unat off) k (io_mem s)"
  using assms
proof (induction k arbitrary: n pa off s)
  case 0
  then have "\<not> pa < epa" by (simp add: word_less_nat_alt)
  then have "readseg_loop n pa epa off s = Ret () s" by (cases n) simp_all
  moreover have "loaded img (unat pa) (unat off) 0 (io_mem s) = io_mem s" by (rule ext) (auto simp: loaded_def)
  ultimately show ?case using "0.prems"(1) by simp
next
  case (Suc k)
  then obtain m where n: "n = Suc m" "k \<le> m" by (cases n) simp_all
  have o: "unat (off + 1) = unat off + 1" using Suc.prems(5) unat_add_lem [of off 1] by simp
  have p: "unat (pa + 512) = unat pa + 512" using Suc.prems(4) unat_add_lem [of pa 512] by simp
  have "pa < epa" using Suc.prems(3) by (simp add: word_less_nat_alt)
  have "off < 2 ^ 28" using Suc.prems(5) by (simp add: word_less_nat_alt)
  with readsect_ok [OF Suc.prems(1)] obtain u where u: "readsect pa off s = Ret () u" "boot_disk img u"
    "io_mem u = put_sector pa (img (unat off)) (io_mem s)" by blast
  have "\<exists>t. readseg_loop m (pa + 512) epa (off + 1) u = Ret () t \<and> boot_disk img t
      \<and> io_mem t = loaded img (unat (pa + 512)) (unat (off + 1)) k (io_mem u)"
    using Suc.prems(2-5) n(2) by (intro Suc.IH [OF u(2)]) (auto simp: o p)
  moreover have "io_mem u = loaded img (unat pa) (unat off) 1 (io_mem s)"
    using Suc.prems(4) by (simp add: u(3) put_sector_loaded)
  ultimately show ?case
    using u(1) \<open>pa < epa\<close> by (simp add: n(1) o p loaded_Suc [simplified])
qed

subsection \<open>Segments\<close>

text \<open>
  \<open>readseg\<close> of \<open>count\<close> bytes at \<open>off\<close> of the file to \<open>pa\<close> fills whole sectors, from \<open>seg_lo\<close> up to \<open>seg_hi\<close>. With every
  byte of the segment it brings the bytes of the file around it.
\<close>

definition seg_lo :: "nat \<Rightarrow> nat \<Rightarrow> nat" where
  "seg_lo pa off = pa - off mod 512"

definition seg_sectors :: "nat \<Rightarrow> nat \<Rightarrow> nat" where
  "seg_sectors count off = (off mod 512 + count + 511) div 512"

definition seg_hi :: "nat \<Rightarrow> nat \<Rightarrow> nat \<Rightarrow> nat" where
  "seg_hi pa count off = seg_lo pa off + 512 * seg_sectors count off"

definition seg_loaded :: "(nat \<Rightarrow> block) \<Rightarrow> nat \<Rightarrow> nat \<Rightarrow> nat \<Rightarrow> memory \<Rightarrow> memory" where
  "seg_loaded img pa count off m = (\<lambda>a. if seg_lo pa off \<le> unat a \<and> unat a < seg_hi pa count off
     then file_byte img (unat a + off - pa) else m a)"

lemma ceil_bounds:
  fixes x :: nat
  shows "x \<le> 512 * ((x + 511) div 512)" "512 * ((x + 511) div 512) \<le> x + 511"
    "(x + 511) div 512 \<noteq> 0 \<Longrightarrow> 512 * ((x + 511) div 512 - 1) < x"
proof -
  have e: "512 * ((x + 511) div 512) + (x + 511) mod 512 = x + 511" "(x + 511) mod 512 < 512" by simp_all
  show "x \<le> 512 * ((x + 511) div 512)" "512 * ((x + 511) div 512) \<le> x + 511" using e by linarith+
  show "(x + 511) div 512 \<noteq> 0 \<Longrightarrow> 512 * ((x + 511) div 512 - 1) < x"
    using e by (cases "(x + 511) div 512") simp_all
qed

lemma readseg_ok:
  assumes "boot_disk img s" "unat off mod 512 \<le> unat pa" "unat pa + unat count + 512 \<le> 2 ^ 32"
  shows "\<exists>t. readseg pa count off s = Ret () t \<and> boot_disk img t
    \<and> io_mem t = seg_loaded img (unat pa) (unat count) (unat off) (io_mem s)"
proof -
  let ?r = "unat off mod 512" and ?k = "seg_sectors (unat count) (unat off)"
  let ?lo = "seg_lo (unat pa) (unat off)"
  have r: "unat (off mod 512) = ?r" "?r < 512" by (simp_all add: unat_mod)
  have lo: "unat (pa - off mod 512) = ?lo" "?lo + ?r = unat pa"
    using assms(2) r by (simp_all add: seg_lo_def unat_sub word_le_nat_alt)
  have e: "unat (pa + count) = unat pa + unat count" using assms(3) unat_add_lem [of pa count] by simp
  have d: "unat (off div 512) = unat off div 512" by (simp add: unat_div)
  have "unat off < 2 ^ 32" using unsigned_less [of off] by simp
  then have q: "unat off div 512 < 2 ^ 23" by (simp add: less_mult_imp_div_less)
  then have o: "unat (off div 512 + 1) = Suc (unat off div 512)" using unat_add_lem [of "off div 512" 1] d by simp
  have k: "?r + unat count \<le> 512 * ?k" "512 * ?k \<le> ?r + unat count + 511" "?k \<noteq> 0 \<Longrightarrow> 512 * (?k - 1) < ?r + unat count"
    using ceil_bounds [of "?r + unat count"] by (simp_all add: seg_sectors_def)
  have k23: "?k < 2 ^ 23" using k(2) assms(3) lo(2) by simp
  have "\<exists>t. readseg pa count off s = Ret () t \<and> boot_disk img t
     \<and> io_mem t = loaded img ?lo (Suc (unat off div 512)) ?k (io_mem s)"
    unfolding readseg_def
    using readseg_loop_ok [OF assms(1), of "pa + count" "pa - off mod 512" ?k "off div 512 + 1" "2 ^ 23"] k k23 lo e o q assms(3)
    by simp
  moreover have "loaded img ?lo (Suc (unat off div 512)) ?k m = seg_loaded img (unat pa) (unat count) (unat off) m" for m
  proof (rule ext)
    fix a :: u32
    have "img (Suc (unat off div 512) + (unat a - ?lo) div 512) ((unat a - ?lo) mod 512) = file_byte img (unat a + unat off - unat pa)"
      if "?lo \<le> unat a"
    proof -
      have "unat a + unat off - unat pa = 512 * (unat off div 512) + (unat a - ?lo)"
        using that lo(2) by (simp add: minus_mod_eq_mult_div [symmetric])
      then show ?thesis by (simp add: file_byte_def)
    qed
    then show "loaded img ?lo (Suc (unat off div 512)) ?k m a = seg_loaded img (unat pa) (unat count) (unat off) m a"
      by (auto simp: loaded_def seg_loaded_def seg_hi_def)
  qed
  ultimately show ?thesis by simp
qed

text \<open>What a segment occupies while it is loaded, that it fits, and that memory holds it.\<close>

definition seg_range :: "proghdr \<Rightarrow> nat set" where
  "seg_range ph = {seg_lo (unat (ph_paddr ph)) (unat (ph_off ph)) ..<
     max (seg_hi (unat (ph_paddr ph)) (unat (ph_filesz ph)) (unat (ph_off ph))) (unat (ph_paddr ph) + unat (ph_memsz ph))}"

definition seg_fits :: "proghdr \<Rightarrow> bool" where
  "seg_fits ph \<longleftrightarrow> unat (ph_off ph) mod 512 \<le> unat (ph_paddr ph)
     \<and> unat (ph_paddr ph) + unat (ph_filesz ph) + 512 \<le> 2 ^ 32 \<and> unat (ph_paddr ph) + unat (ph_memsz ph) \<le> 2 ^ 32"

definition seg_ok :: "(nat \<Rightarrow> block) \<Rightarrow> memory \<Rightarrow> proghdr \<Rightarrow> bool" where
  "seg_ok img m ph \<longleftrightarrow> (\<forall>a. unat (ph_paddr ph) \<le> unat a \<longrightarrow>
     (unat a < unat (ph_paddr ph) + unat (ph_filesz ph) \<longrightarrow> m a = file_byte img (unat a + unat (ph_off ph) - unat (ph_paddr ph)))
     \<and> (unat (ph_paddr ph) + unat (ph_filesz ph) \<le> unat a \<and> unat a < unat (ph_paddr ph) + unat (ph_memsz ph) \<longrightarrow> m a = 0))"

lemma seg_bounds:
  fixes pa count off :: nat
  shows "pa + count \<le> seg_hi pa count off" "seg_lo pa off \<le> pa"
  using ceil_bounds(1) [of "off mod 512 + count"] by (auto simp: seg_hi_def seg_lo_def seg_sectors_def)

lemma seg_in_range:
  "unat (ph_paddr ph) \<le> x \<Longrightarrow> x < unat (ph_paddr ph) + unat (ph_filesz ph) \<or> x < unat (ph_paddr ph) + unat (ph_memsz ph) \<Longrightarrow> x \<in> seg_range ph"
  using seg_bounds(1) [where pa = "unat (ph_paddr ph)" and count = "unat (ph_filesz ph)" and off = "unat (ph_off ph)"]
    seg_bounds(2) [where pa = "unat (ph_paddr ph)" and off = "unat (ph_off ph)"]
  by (auto simp: seg_range_def)

lemma seg_ok_cong:
  assumes "\<And>a. unat a \<in> seg_range ph \<Longrightarrow> m' a = m a"
  shows "seg_ok img m' ph = seg_ok img m ph"
proof -
  have "m' a = m a" if "unat (ph_paddr ph) \<le> unat a"
    "unat a < unat (ph_paddr ph) + unat (ph_filesz ph) \<or> unat a < unat (ph_paddr ph) + unat (ph_memsz ph)" for a
    using assms seg_in_range that by blast
  then show ?thesis unfolding seg_ok_def by metis
qed

lemma boot_segment_ok:
  assumes "boot_disk img s" and f: "seg_fits ph"
  shows "\<exists>t. boot_segment ph s = Ret () t \<and> boot_disk img t \<and> seg_ok img (io_mem t) ph
    \<and> (\<forall>a. unat a \<notin> seg_range ph \<longrightarrow> io_mem t a = io_mem s a)"
proof -
  let ?p = "unat (ph_paddr ph)" and ?f = "unat (ph_filesz ph)" and ?o = "unat (ph_off ph)" and ?m = "unat (ph_memsz ph)"
  obtain u where u: "readseg (ph_paddr ph) (ph_filesz ph) (ph_off ph) s = Ret () u" "boot_disk img u"
    "io_mem u = seg_loaded img ?p ?f ?o (io_mem s)"
    using readseg_ok [OF assms(1)] f unfolding seg_fits_def by blast
  have b: "?p + ?f \<le> seg_hi ?p ?f ?o" "seg_lo ?p ?o \<le> ?p"
    by (rule seg_bounds)+
  show ?thesis
  proof (cases "ph_filesz ph < ph_memsz ph")
    case False
    then have "?m \<le> ?f" by (simp add: word_less_nat_alt)
    then have "seg_ok img (io_mem u) ph" using b by (auto simp: seg_ok_def u(3) seg_loaded_def)
    moreover have "boot_segment ph s = Ret () u" using u(1) False by (simp add: boot_segment_def)
    ultimately show ?thesis using u(2) by (auto simp: u(3) seg_loaded_def seg_range_def)
  next
    case True
    then have m: "?f < ?m" by (simp add: word_less_nat_alt)
    have "unat (ph_paddr ph + ph_filesz ph) = ?p + ?f"
      using f unat_add_lem [of "ph_paddr ph" "ph_filesz ph"] by (simp add: seg_fits_def)
    moreover have "unat (ph_memsz ph - ph_filesz ph) = ?m - ?f" using True by (simp add: unat_sub less_imp_le)
    ultimately have r: "in_region (ph_paddr ph + ph_filesz ph) (unat (ph_memsz ph - ph_filesz ph)) a
        \<longleftrightarrow> ?p + ?f \<le> unat a \<and> unat a < ?p + ?m" for a
      using f m region_nat [of "ph_paddr ph + ph_filesz ph" "?m - ?f" a] by (simp add: seg_fits_def)
    let ?t = "u\<lparr>io_mem := stosb (unat (ph_memsz ph - ph_filesz ph)) (io_mem u) (ph_paddr ph + ph_filesz ph) 0\<rparr>"
    have t: "io_mem ?t a = (if ?p + ?f \<le> unat a \<and> unat a < ?p + ?m then 0 else seg_loaded img ?p ?f ?o (io_mem s) a)" for a
      by (simp add: stosb_eq r u(3))
    have "seg_ok img (io_mem ?t) ph" unfolding seg_ok_def t using b by (auto simp: seg_loaded_def)
    moreover have "\<forall>a. unat a \<notin> seg_range ph \<longrightarrow> io_mem ?t a = io_mem s a"
      unfolding t using b by (auto simp: seg_loaded_def seg_range_def)
    moreover have "boot_segment ph s = Ret () ?t" using u(1) True by (simp add: boot_segment_def)
    moreover have "boot_disk img ?t" using u(2) by simp
    ultimately show ?thesis by blast
  qed
qed

subsection \<open>The kernel\<close>

definition boot_elf :: "(nat \<Rightarrow> block) \<Rightarrow> elfhdr" where
  "boot_elf img = elf_of (map (file_byte img) [0..<52])"

primrec headers :: "(nat \<Rightarrow> block) \<Rightarrow> nat \<Rightarrow> nat \<Rightarrow> proghdr list" where
  "headers img h 0 = []"
| "headers img h (Suc n) = ph_of (map (\<lambda>i. file_byte img (h + i)) [0..<32]) # headers img (h + 32) n"

definition boot_headers :: "(nat \<Rightarrow> block) \<Rightarrow> proghdr list" where
  "boot_headers img = headers img (unat (eh_phoff (boot_elf img))) (unat (eh_phnum (boot_elf img)))"

text \<open>
  A kernel the loader can load: the headers are in the first page of the file, and the segments fit into memory
  beside each other and beside the page with the headers.
\<close>

definition segs_apart :: "proghdr list \<Rightarrow> bool" where
  "segs_apart phs \<longleftrightarrow> sorted_wrt (\<lambda>p q. seg_range p \<inter> seg_range q = {}) phs
     \<and> (\<forall>ph \<in> set phs. seg_fits ph \<and> seg_range ph \<inter> {0x10000 ..< 0x11000} = {})"

definition kernel_ok :: "(nat \<Rightarrow> block) \<Rightarrow> bool" where
  "kernel_ok img \<longleftrightarrow> eh_magic (boot_elf img) = ELF_MAGIC
     \<and> unat (eh_phoff (boot_elf img)) + 32 * unat (eh_phnum (boot_elf img)) \<le> 4096 \<and> segs_apart (boot_headers img)"

definition page_read :: "(nat \<Rightarrow> block) \<Rightarrow> memory \<Rightarrow> bool" where
  "page_read img m \<longleftrightarrow> (\<forall>a. 0x10000 \<le> unat a \<and> unat a < 0x11000 \<longrightarrow> m a = file_byte img (unat a - 0x10000))"

lemma unat_scratch: "k \<le> 4096 \<Longrightarrow> unat (0x10000 + of_nat k :: u32) = 0x10000 + k"
  using unat_add_lem [of "0x10000 :: u32" "of_nat k"] by (simp add: unat_of_nat)

lemma page_bytes:
  assumes "page_read img m" "h + n \<le> 4096"
  shows "mem_bytes m (0x10000 + of_nat h) n = map (\<lambda>i. file_byte img (h + i)) [0..<n]"
proof -
  have "m (0x10000 + of_nat h + of_nat i) = file_byte img (h + i)" if "i < n" for i
    using assms that unat_scratch [of "h + i"] by (simp add: page_read_def add.assoc)
  then show ?thesis by (simp add: mem_bytes_def)
qed

lemma boot_load_step:
  "ph < eph \<Longrightarrow> boot_load (Suc n) ph eph s
     = kseq (boot_segment (ph_of (mem_bytes (io_mem s) ph 32))) (boot_load n (ph + 32) eph) s"
  by simp

lemma boot_load_ok:
  assumes "boot_disk img s" "page_read img (io_mem s)" "h + 32 * n \<le> 4096" "segs_apart (headers img h n)"
  shows "\<exists>t. boot_load n (0x10000 + of_nat h) (0x10000 + of_nat (h + 32 * n)) s = Ret () t
    \<and> (\<forall>ph \<in> set (headers img h n). seg_ok img (io_mem t) ph)
    \<and> (\<forall>a. (\<forall>ph \<in> set (headers img h n). unat a \<notin> seg_range ph) \<longrightarrow> io_mem t a = io_mem s a)"
  using assms
proof (induction n arbitrary: h s)
  case (Suc n)
  let ?ph = "ph_of (map (\<lambda>i. file_byte img (h + i)) [0..<32])"
  have f: "seg_fits ?ph" "seg_range ?ph \<inter> {0x10000 ..< 0x11000} = {}" "segs_apart (headers img (h + 32) n)"
    "\<forall>q \<in> set (headers img (h + 32) n). seg_range ?ph \<inter> seg_range q = {}"
    using Suc.prems(4) by (auto simp: segs_apart_def)
  obtain u where u: "boot_segment ?ph s = Ret () u" "boot_disk img u" "seg_ok img (io_mem u) ?ph"
    "\<forall>a. unat a \<notin> seg_range ?ph \<longrightarrow> io_mem u a = io_mem s a"
    using boot_segment_ok [OF Suc.prems(1) f(1)] by blast
  have "page_read img (io_mem u)" using Suc.prems(2) u(4) f(2) by (fastforce simp: page_read_def)
  from Suc.IH [OF u(2) this, of "h + 32"] Suc.prems(3) f(3) obtain t where
    t: "boot_load n (0x10000 + of_nat (h + 32)) (0x10000 + of_nat (h + 32 + 32 * n)) u = Ret () t"
    "\<forall>ph \<in> set (headers img (h + 32) n). seg_ok img (io_mem t) ph"
    "\<forall>a. (\<forall>ph \<in> set (headers img (h + 32) n). unat a \<notin> seg_range ph) \<longrightarrow> io_mem t a = io_mem u a" by auto
  have "seg_ok img (io_mem t) ?ph" using u(3) t(3) f(4) seg_ok_cong [of ?ph "io_mem t" "io_mem u"] by blast
  moreover have "boot_load (Suc n) (0x10000 + of_nat h) (0x10000 + of_nat (h + 32 * Suc n)) s = Ret () t"
  proof -
    have "(0x10000 + of_nat h :: u32) < 0x10000 + of_nat (h + 32 * Suc n)"
      using Suc.prems(3) unat_scratch [of h] unat_scratch [of "h + 32 * Suc n"] by (simp only: word_less_nat_alt) simp
    moreover have "mem_bytes (io_mem s) (0x10000 + of_nat h) 32 = map (\<lambda>i. file_byte img (h + i)) [0..<32]"
      using Suc.prems(3) by (intro page_bytes [OF Suc.prems(2)]) simp
    moreover have "(0x10000 + of_nat h + 32 :: u32) = 0x10000 + of_nat (h + 32)" "h + 32 * Suc n = h + 32 + 32 * n" by simp_all
    moreover have "kseq (boot_segment ?ph) m s = m u" for m :: "(_, unit) kern" using u(1) by simp
    ultimately show ?thesis using t(1) by (simp only: boot_load_step)
  qed
  ultimately show ?case using t(2,3) u(4) by auto
qed simp

lemma read_first_page:
  assumes "boot_disk img s"
  shows "\<exists>t. readseg 0x10000 4096 0 s = Ret () t \<and> boot_disk img t \<and> page_read img (io_mem t)
    \<and> elf_of (mem_bytes (io_mem t) 0x10000 52) = boot_elf img"
proof -
  obtain t where t: "readseg 0x10000 4096 0 s = Ret () t" "boot_disk img t" "io_mem t = seg_loaded img 0x10000 4096 0 (io_mem s)"
    using readseg_ok [OF assms, of 0 "0x10000" 4096] by auto
  have "seg_lo 0x10000 0 = 0x10000" "seg_hi 0x10000 4096 0 = 0x11000" by (simp_all add: seg_lo_def seg_hi_def seg_sectors_def)
  then have p: "page_read img (io_mem t)" by (simp add: page_read_def t(3) seg_loaded_def)
  then show ?thesis using t(1,2) page_bytes [OF p, of 0 52] by (simp add: boot_elf_def)
qed

text \<open>
  C18: the boot loader loads the kernel. On a disk that answers what it holds, \<open>bootmain\<close> comes back without an entry
  point when the file has no ELF magic number; when the file is a kernel whose segments fit, it ends with the entry point of the file,
  and memory holds every segment: the bytes of the file, then zeros up to its size in memory.
\<close>

theorem bootmain_loads:
  assumes "boot_disk img s"
  shows "(eh_magic (boot_elf img) \<noteq> ELF_MAGIC \<longrightarrow> (\<exists>t. bootmain s = Ret None t))
    \<and> (kernel_ok img \<longrightarrow> (\<exists>t. bootmain s = Ret (Some (eh_entry (boot_elf img))) t
         \<and> (\<forall>ph \<in> set (boot_headers img). seg_ok img (io_mem t) ph)))"
proof (intro conjI impI)
  obtain u where u: "readseg 0x10000 4096 0 s = Ret () u" "boot_disk img u" "page_read img (io_mem u)"
    "elf_of (mem_bytes (io_mem u) 0x10000 52) = boot_elf img"
    using read_first_page [OF assms] by blast
  { assume "eh_magic (boot_elf img) \<noteq> ELF_MAGIC"
    then show "\<exists>t. bootmain s = Ret None t" using u by (simp add: bootmain_def) }
  let ?h = "unat (eh_phoff (boot_elf img))" and ?n = "unat (eh_phnum (boot_elf img))"
  assume k: "kernel_ok img"
  then obtain t where t: "boot_load ?n (0x10000 + of_nat ?h) (0x10000 + of_nat (?h + 32 * ?n)) u = Ret () t"
    "\<forall>ph \<in> set (boot_headers img). seg_ok img (io_mem t) ph"
    using boot_load_ok [OF u(2,3), of ?h ?n] by (auto simp: kernel_ok_def boot_headers_def)
  have e: "(0x10000 + of_nat ?h :: u32) = 0x10000 + eh_phoff (boot_elf img)"
    "(0x10000 + of_nat (?h + 32 * ?n) :: u32) = 0x10000 + eh_phoff (boot_elf img) + ucast (eh_phnum (boot_elf img)) * 32"
    by (simp_all add: mult.commute)
  then have "boot_load ?n (0x10000 + eh_phoff (boot_elf img))
      (0x10000 + eh_phoff (boot_elf img) + ucast (eh_phnum (boot_elf img)) * 32) u = Ret () t"
    using t(1) by (simp only: e)
  then show "\<exists>t. bootmain s = Ret (Some (eh_entry (boot_elf img))) t \<and> (\<forall>ph \<in> set (boot_headers img). seg_ok img (io_mem t) ph)"
    using k t(2) u by (simp add: bootmain_def kernel_ok_def)
qed

text \<open>A file with one segment: three bytes at 4096, loaded to \<open>0x100000\<close>, where it has eight bytes.\<close>

definition sample_file :: "nat \<Rightarrow> u8" where
  "sample_file = (\<lambda>_. 0)(0 := 0x7F, 1 := 0x45, 2 := 0x4C, 3 := 0x46, 24 := 0x0C, 26 := 0x10, 28 := 52, 44 := 1,
     52 := 1, 57 := 0x10, 66 := 0x10, 68 := 3, 72 := 8, 4096 := 0xB8, 4097 := 1, 4098 := 2)"

definition sample_disk :: "nat \<Rightarrow> block" where
  "sample_disk k j = sample_file (512 * (k - 1) + j)"

definition boot_start :: io_st where
  "boot_start = \<lparr>io_dev = \<lambda>_ _. 0x40, io_sector = \<lambda>l. sample_disk (unat (disk_lba l)), io_log = [], io_budget = 1,
     irqmask = irqmask_start, p_ismp = False, p_lapic = False, p_uart = False, io_mem = \<lambda>_. 0xFF\<rparr>"

lemma file_byte_sample: "file_byte sample_disk = sample_file"
  by (rule ext) (simp add: file_byte_def sample_disk_def)

lemma sample_elf: "boot_elf sample_disk = \<lparr>eh_magic = ELF_MAGIC, eh_entry = 0x10000C, eh_phoff = 52, eh_phnum = 1\<rparr>"
  by (simp add: boot_elf_def file_byte_sample elf_of_def lrd32_def lrd16_def le32_def le16_def sample_file_def ELF_MAGIC_def)

lemma sample_headers: "boot_headers sample_disk = [\<lparr>ph_type = 1, ph_off = 0x1000, ph_vaddr = 0, ph_paddr = 0x100000,
     ph_filesz = 3, ph_memsz = 8\<rparr>]"
  by (simp add: boot_headers_def sample_elf file_byte_sample ph_of_def lrd32_def le32_def sample_file_def)

lemma sample_apart: "segs_apart [\<lparr>ph_type = 1, ph_off = 0x1000, ph_vaddr = 0, ph_paddr = 0x100000, ph_filesz = 3, ph_memsz = 8\<rparr>]"
  by (auto simp: segs_apart_def seg_fits_def seg_range_def seg_lo_def)

theorem bootmain_loads_witness:
  "\<exists>t. bootmain boot_start = Ret (Some 0x10000C) t \<and> io_mem t 0x100000 = 0xB8 \<and> io_mem t 0x100002 = 2 \<and> io_mem t 0x100003 = 0"
proof -
  have "boot_disk sample_disk boot_start" by (simp add: boot_disk_def boot_start_def)
  moreover have "kernel_ok sample_disk" using sample_apart by (simp add: kernel_ok_def sample_elf sample_headers)
  ultimately obtain t where "bootmain boot_start = Ret (Some (eh_entry (boot_elf sample_disk))) t"
    and h: "\<forall>ph \<in> set (boot_headers sample_disk). seg_ok sample_disk (io_mem t) ph"
    using bootmain_loads [of sample_disk boot_start] by blast
  then have t: "bootmain boot_start = Ret (Some 0x10000C) t" by (simp only: sample_elf) simp
  from h have "io_mem t 0x100000 = sample_file 4096" "io_mem t 0x100002 = sample_file 4098" "io_mem t 0x100003 = 0"
    by (simp_all add: sample_headers seg_ok_def file_byte_sample)
  then show ?thesis using t(1) by (simp add: sample_file_def)
qed

end
