(* ===== verification/Spec2Isabelle.thy ===== *)
theory Spec2Isabelle
  imports Ptable Dir_Spec Pipe_Spec File_Spec Utils Sh_Spec Mp Mkfs Ide Umalloc Segments Boot
begin

text \<open>
  A verification library for the xv6-derived teaching operating system in \<^verbatim>\<open>src/\<close>: a Unix
  kernel for 32-bit x86 with processes, threads that share memory, user-level locks, a
  logging file system, pipes and a console.

  \<^bold>\<open>How code is modelled.\<close> A kernel function is a value of type \<open>('s, 'a) kern\<close>: a function
  from a state to an outcome, which is an answer with the new state (\<open>Ret\<close>), a switch to the
  scheduler that never comes back (\<open>Switch\<close>), a call of \<open>panic\<close> with its message (\<open>Panic\<close>), or
  an access the language gives no meaning to, such as an index past an array or a read of a
  variable that was never set (\<open>Fault\<close>). \<open>Prelude\<close> has the combinators and the locale for
  relations that every step keeps. The state is a record that grows with the components, so an
  operation of one component runs unchanged in the state of those above it.

  \<^bold>\<open>Other processes.\<close> A function that gives up the CPU in \<open>sched\<close> takes an argument \<open>env\<close>, the
  effect of everything that runs until the process is scheduled again. Theorems hold for every
  \<open>env\<close>, or for every \<open>env\<close> that keeps the invariant named in the hypothesis. Loops that sleep
  until a condition holds are bounded by a number of wake-ups; when it is used up the process
  sleeps for ever and the outcome is \<open>Switch\<close>.

  \<^bold>\<open>The theories\<close>, in the order in which they build on each other:
  \<^item> \<open>Prelude\<close>, \<open>Layout\<close>, \<open>Bytes\<close>: combinators, the constants of \<^verbatim>\<open>param.h\<close>, \<^verbatim>\<open>mmu.h\<close>, \<^verbatim>\<open>fs.h\<close> and
    their like, and little-endian words in byte-addressed memory and in disk blocks.
  \<^item> \<open>Kstring\<close> (\<^verbatim>\<open>string.c\<close>), \<open>Spinlock\<close> (\<^verbatim>\<open>spinlock.c\<close>), \<open>Cprintf\<close> (output of \<^verbatim>\<open>console.c\<close>).
    \<open>Spinlock\<close> has the lock operations twice, as interleaved pieces on several CPUs and as the
    abstract operations the rest of the kernel uses. Mutual exclusion, disabled interrupts and the
    refinement between the two are proved.
  \<^item> \<open>Kalloc\<close> (\<^verbatim>\<open>kalloc.c\<close>): the free list inside the free pages. Allocation is a stack of
    distinct pages, and \<open>freerange\<close> frees exactly the pages of its range.
  \<^item> \<open>Vm\<close> (\<^verbatim>\<open>vm.c\<close>): page tables in memory. What \<open>mappages\<close> maps and keeps.
  \<^item> \<open>Proc\<close>, \<open>Ptable\<close>, \<open>Life\<close> (\<^verbatim>\<open>proc.c\<close>): the process table, scheduling, sleeping, threads,
    \<open>fork\<close>, \<open>exit\<close> and \<open>wait\<close>. The table invariant, and that no wake-up is lost.
  \<^item> \<open>Bio\<close> (\<^verbatim>\<open>bio.c\<close>, \<^verbatim>\<open>memide.c\<close>), \<open>Log\<close> (\<^verbatim>\<open>log.c\<close>), \<open>Fs\<close> and \<open>Dir\<close> (\<^verbatim>\<open>fs.c\<close>): the buffer cache
    over the memory disk, transactions, blocks, inodes, directories and paths.
  \<^item> \<open>Bio_Spec\<close>, \<open>Log_Crash\<close>: the cache as a view of the disk, the order of the writes of a
    commit, and recovery from the disk a crash leaves: commits are atomic across crashes. \<open>Block_Spec\<close>: allocating and
    freeing blocks inside a transaction, as the kernel sees the bitmap through the cache. \<open>File_Spec\<close>: \<open>readi\<close> answers the
    content of a file through all kinds of blocks, and \<open>writei\<close> changes exactly the bytes it overwrites.
  \<^item> \<open>Dir_Spec\<close>: the codings of inodes and directory entries, and path elements. \<open>Fs_Spec\<close>: the inode
    cache holds no inode twice, and truncation of a file with an indirect block goes wrong.
    \<open>Pipe_Spec\<close>: a pipe is a bounded queue of bytes.
  \<^item> \<open>Kbd\<close>, \<open>Console\<close> (\<^verbatim>\<open>kbd.c\<close>, \<^verbatim>\<open>console.c\<close>, \<^verbatim>\<open>uart.c\<close>), \<open>File\<close> (\<^verbatim>\<open>file.c\<close>, \<^verbatim>\<open>pipe.c\<close>).
  \<^item> \<open>Syscall\<close> (arguments of \<^verbatim>\<open>syscall.c\<close>, \<^verbatim>\<open>sysproc.c\<close>), \<open>Exec\<close> (\<^verbatim>\<open>exec.c\<close>), \<open>Sysfile\<close>
    (\<^verbatim>\<open>sysfile.c\<close>, the dispatcher of \<^verbatim>\<open>syscall.c\<close>, \<^verbatim>\<open>trap.c\<close>).
  \<^item> \<open>Trap_Spec\<close>: killed processes do not return to user mode, \<open>sys_sleep\<close> waits for its ticks,
    user-level locks, and the two arrays that user programs can overrun.

  \<^item> \<open>Ulib\<close> (\<^verbatim>\<open>ulib.c\<close>, \<^verbatim>\<open>printf.c\<close>): user programs as computations that log their system calls, for
    any answers of the kernel. \<open>Grep\<close> (\<^verbatim>\<open>grep.c\<close>): the matcher against the meaning of patterns, and
    which lines are printed. \<open>Sh\<close>, \<open>Sh_Spec\<close> (\<^verbatim>\<open>sh.c\<close>): the parser of the shell ends, its trees are
    well formed, \<open>nulterminate\<close> is correct and \<open>runcmd\<close> never returns. \<open>Utils\<close>: the small programs
    \<^verbatim>\<open>cat\<close>, \<^verbatim>\<open>wc\<close>, \<^verbatim>\<open>ls\<close>, \<^verbatim>\<open>init\<close> and their like; what \<open>cat\<close> writes and \<open>wc\<close> counts does not depend on how
    the reads split the file.
  \<^item> \<open>Mp\<close> (\<^verbatim>\<open>mp.c\<close>): the search for the multiprocessor tables and the walk over their entries.
  \<^item> \<open>Mkfs\<close> (\<^verbatim>\<open>mkfs.c\<close>): the disk image the kernel starts from. Appending to a file in direct blocks, and
    the bitmap, which marks exactly the blocks in use.
  \<^item> \<open>Umalloc\<close> (\<^verbatim>\<open>umalloc.c\<close>): the ring of free blocks of the user-level allocator. \<open>malloc\<close> and \<open>free\<close> end,
    keep the ring sorted and joined, and account for every byte.
  \<^item> \<open>Ports\<close> (\<^verbatim>\<open>picirq.c\<close>, \<^verbatim>\<open>ioapic.c\<close>, \<^verbatim>\<open>lapic.c\<close>, \<^verbatim>\<open>timer.c\<close>, \<^verbatim>\<open>uart.c\<close>): accesses to ports and
    registers as a log, with a device that may answer anything; which interrupt lines are enabled.
  \<^item> \<open>Ide\<close> (\<^verbatim>\<open>ide.c\<close>): the interrupt-driven disk driver, which has the interface of the memory disk. Its
    linked list is a queue, and every request is served and its process woken.
  \<^item> \<open>Segments\<close> (descriptors of \<^verbatim>\<open>mmu.h\<close>, \<open>seginit\<close>, \<open>tvinit\<close>): the tables of a CPU as it reads them. Every vector
    enters the kernel at privilege 0, and user programs can raise the system call only.
  \<^item> \<open>Elf\<close> (\<^verbatim>\<open>elf.h\<close>), \<open>Boot\<close> (\<^verbatim>\<open>bootmain.c\<close>): the boot loader brings every segment of the kernel into memory.

  \<^bold>\<open>Bounds.\<close> The loop of \<open>mappages\<close> is bounded by the number of pages of an address space, which it
  cannot exceed. Loops over tables and blocks recurse over the table. The parser of the shell is
  bounded by four nested calls per character, which is proved to be enough. Loops that wait for
  another process or poll a device have a bound that can be used up, as said above, and a user program
  is observed for a bounded number of system calls. The loops of the user-level allocator and the
  walk over the queue of the disk driver are partial functions, proved to end. The loop of the boot
  loader is bounded by the number of sectors of the address space, after which its address repeats.

  \<^bold>\<open>Not modelled.\<close> The assembly files, and \<^verbatim>\<open>main.c\<close>, which calls the set-up functions in order and starts the
  other CPUs; their effect is the initial state. \<^verbatim>\<open>getcount.c\<close> and the tests print what
  system calls answer and are not modelled. The file system runs on the memory disk of \<^verbatim>\<open>memide.c\<close>. Several
  CPUs are modelled for the spinlocks only; elsewhere an operation that holds a lock is one step.
\<close>

end
